(* ===== verification/Racez_Prelude.thy ===== *)
theory Racez_Prelude
  imports Main "HOL-Library.Word" "HOL-Library.Multiset"
begin

text \<open>
  Shared vocabulary of the development: pointers and C integers, the ways in which a run of the
  C/C++ code can stop abnormally, the composition of fallible steps, fixed-size arrays, and the
  generic facts about lists that the components use.

  Pointers (\<open>void*\<close>) are 64-bit words, compared as unsigned numbers. A C \<open>int\<close> is
  a HOL \<open>int\<close>; where the code converts a wider value to \<open>int\<close> the model
  applies \<open>to_int32\<close>, which wraps to two's complement as the compiler does.
\<close>

section \<open>Collections of facts\<close>

named_theorems container_simps \<open>laws of the ordered containers\<close>
named_theorems record_simps \<open>field views of a log record\<close>

section \<open>Machine values\<close>

type_synonym ptr = "64 word"

definition int32 :: "int \<Rightarrow> bool" where
  "int32 i \<longleftrightarrow> - (2 ^ 31) \<le> i \<and> i < 2 ^ 31"

definition to_int32 :: "int \<Rightarrow> int" where
  "to_int32 i = (let m = i mod 2 ^ 32 in if m < 2 ^ 31 then m else m - 2 ^ 32)"

lemma to_int32_range: "int32 (to_int32 i)"
proof -
  define m where "m = i mod 2 ^ 32"
  have "0 \<le> m" and "m < 2 ^ 32"
    by (simp_all add: m_def)
  then show ?thesis
    by (auto simp: to_int32_def int32_def Let_def m_def [symmetric])
qed

lemma to_int32_id: "int32 i \<Longrightarrow> to_int32 i = i"
proof -
  assume a: "int32 i"
  show ?thesis
  proof (cases "0 \<le> i")
    case True
    with a show ?thesis by (simp add: to_int32_def int32_def Let_def)
  next
    case False
    with a have "i mod 2 ^ 32 = i + 2 ^ 32"
      by (intro mod_pos_pos_trivial [of "i + 2 ^ 32" "2 ^ 32", simplified mod_add_self2])
        (simp_all add: int32_def)
    with a False show ?thesis by (simp add: to_int32_def int32_def Let_def)
  qed
qed

lemma to_int32_0 [simp]: "to_int32 0 = 0"
  by (simp add: to_int32_def)

lemma sint_small: "uint (w :: ptr) < 2 ^ 63 \<Longrightarrow> sint w = uint w"
proof -
  assume a: "uint w < 2 ^ 63"
  have "- (2 ^ 63) \<le> uint w" by (rule order.trans [OF _ uint_ge_0]) simp
  with a have "signed_take_bit 63 (uint w) = uint w" by (intro signed_take_bit_int_eq_self) simp_all
  then show ?thesis by (simp add: sint_uint)
qed

section \<open>Abnormal ends and fallible steps\<close>

text \<open>
  Each constructor is a way in which the program leaves its normal flow: a failed
  \<open>assert\<close>, a call of \<open>exit\<close>, \<open>err\<close> or \<open>errx\<close> with its status, or
  an operation whose behaviour C++ leaves undefined (an access outside an array or an allocated
  block, a null or dangling pointer, an iterator moved outside its range, a value that was never
  written).
\<close>

datatype fault =
    Assertion_failed
  | Exit_program int
  | Out_of_bounds
  | Null_pointer
  | Bad_iterator
  | Indeterminate

type_synonym 'a result = "fault + 'a"

fun rbind :: "'a result \<Rightarrow> ('a \<Rightarrow> 'b result) \<Rightarrow> 'b result" where
  "rbind (Inl e) f = Inl e"
| "rbind (Inr x) f = f x"

lemma rbind_Inr_iff [simp]: "rbind m f = Inr y \<longleftrightarrow> (\<exists>x. m = Inr x \<and> f x = Inr y)"
  by (cases m) auto

lemma rbind_Inl_iff: "rbind m f = Inl e \<longleftrightarrow> m = Inl e \<or> (\<exists>x. m = Inr x \<and> f x = Inl e)"
  by (cases m) auto

lemma rbind_assoc: "rbind (rbind m f) g = rbind m (\<lambda>x. rbind (f x) g)"
  by (cases m) auto

lemma rbind_Inr_right: "rbind m Inr = m"
  by (cases m) auto

lemma rbind_cong [fundef_cong]:
  "m = m' \<Longrightarrow> (\<And>x. m' = Inr x \<Longrightarrow> f x = g x) \<Longrightarrow> rbind m f = rbind m' g"
  by (cases m') auto

text \<open>A loop over a list that stops at the first abnormal end.\<close>

fun rfold :: "('a \<Rightarrow> 's \<Rightarrow> 's result) \<Rightarrow> 'a list \<Rightarrow> 's \<Rightarrow> 's result" where
  "rfold f [] s = Inr s"
| "rfold f (x # xs) s = rbind (f x s) (rfold f xs)"

lemma rfold_single: "rfold f [x] = f x"
proof
  fix s
  show "rfold f [x] s = f x s" by (cases "f x s") simp_all
qed

lemma rfold_append: "rfold f (xs @ ys) s = rbind (rfold f xs s) (rfold f ys)"
proof (induction xs arbitrary: s)
  case (Cons x xs)
  then show ?case by (cases "f x s") simp_all
qed simp

lemma rfold_invariant:
  assumes "rfold f xs s = Inr t" and "P s"
    and "\<And>x s t. x \<in> set xs \<Longrightarrow> P s \<Longrightarrow> f x s = Inr t \<Longrightarrow> P t"
  shows "P t"
  using assms
proof (induction xs arbitrary: s)
  case Nil
  then show ?case by simp
next
  case (Cons x xs)
  from Cons.prems(1) obtain u where u: "f x s = Inr u" and t: "rfold f xs u = Inr t"
    by auto
  from Cons.prems(2) u have "P u"
    by (intro Cons.prems(3) [of x s u]) simp_all
  with t show ?case
    by (rule Cons.IH) (erule (1) Cons.prems(3) [OF list.set_intros(2)])
qed

section \<open>Fixed-size arrays\<close>

text \<open>
  The first \<open>cnt\<close> elements of a C array, as a loop \<open>for (i = 0; i < cnt; i++)\<close> reads
  them: nothing when \<open>cnt\<close> is not positive, an out-of-bounds access when the array is
  shorter. \<open>array_write\<close> stores one element.
\<close>

definition array_prefix :: "'a list \<Rightarrow> int \<Rightarrow> 'a list result" where
  "array_prefix xs cnt = (if cnt > int (length xs) then Inl Out_of_bounds else Inr (take (nat cnt) xs))"

definition array_write :: "'a list \<Rightarrow> int \<Rightarrow> 'a \<Rightarrow> 'a list result" where
  "array_write xs i v =
     (if 0 \<le> i \<and> i < int (length xs) then Inr (xs[nat i := v]) else Inl Out_of_bounds)"

definition array_read :: "'a list \<Rightarrow> int \<Rightarrow> 'a result" where
  "array_read xs i = (if 0 \<le> i \<and> i < int (length xs) then Inr (xs ! nat i) else Inl Out_of_bounds)"

lemma array_prefix_ok: "cnt \<le> int (length xs) \<Longrightarrow> array_prefix xs cnt = Inr (take (nat cnt) xs)"
  by (simp add: array_prefix_def)

lemma array_prefix_Inr_iff:
  "array_prefix xs cnt = Inr ys \<longleftrightarrow> cnt \<le> int (length xs) \<and> ys = take (nat cnt) xs"
  by (auto simp: array_prefix_def)

lemma array_read_write:
  "array_write xs i v = Inr ys \<Longrightarrow> array_read ys j = (if i = j then Inr v else array_read xs j)"
  by (auto simp: array_write_def array_read_def nth_list_update split: if_splits)

section \<open>Lists and multisets\<close>

lemma mset_diff_mono: "A \<subseteq># B \<Longrightarrow> A - C \<subseteq># B - C"
  by (simp add: subseteq_mset_def diff_le_mono)

text \<open>Removing the element an index points at; the index one past the end removes nothing.\<close>

definition erase_at :: "nat \<Rightarrow> 'a list \<Rightarrow> 'a list" where
  "erase_at i xs = take i xs @ drop (Suc i) xs"

lemma length_erase_at: "i < length xs \<Longrightarrow> length (erase_at i xs) = length xs - 1"
  by (simp add: erase_at_def)

lemma erase_at_split: "erase_at (length us) (us @ x # vs) = us @ vs"
  by (simp add: erase_at_def)

lemma set_erase_at_subset: "set (erase_at i xs) \<subseteq> set xs"
  by (auto simp: erase_at_def dest: in_set_takeD in_set_dropD)

lemma sorted_wrt_erase_at: "sorted_wrt P xs \<Longrightarrow> sorted_wrt P (erase_at i xs)"
proof -
  assume a: "sorted_wrt P xs"
  show ?thesis
  proof (cases "i < length xs")
    case True
    with a have "sorted_wrt P (take i xs @ xs ! i # drop (Suc i) xs)"
      by (simp add: id_take_nth_drop [symmetric])
    then show ?thesis by (simp add: erase_at_def sorted_wrt_append)
  next
    case False
    with a show ?thesis by (simp add: erase_at_def)
  qed
qed

text \<open>
  The position of the first element that satisfies a predicate, the length when there is none:
  the iterator a linear search returns.
\<close>

definition find_index :: "('a \<Rightarrow> bool) \<Rightarrow> 'a list \<Rightarrow> nat" where
  "find_index P xs = length (takeWhile (\<lambda>x. \<not> P x) xs)"

lemma find_index_le: "find_index P xs \<le> length xs"
  by (simp add: find_index_def length_takeWhile_le)

lemma find_index_eq_length: "find_index P xs = length xs \<longleftrightarrow> (\<forall>x\<in>set xs. \<not> P x)"
proof
  assume "find_index P xs = length xs"
  then have "takeWhile (\<lambda>x. \<not> P x) xs = xs"
    by (metis append_Nil2 append_eq_append_conv find_index_def takeWhile_dropWhile_id)
  then show "\<forall>x\<in>set xs. \<not> P x"
    by (metis set_takeWhileD)
qed (simp add: find_index_def takeWhile_eq_all_conv [THEN iffD2])

lemma find_index_nth: "find_index P xs < length xs \<Longrightarrow> P (xs ! find_index P xs)"
  using nth_length_takeWhile [of "\<lambda>x. \<not> P x" xs] by (simp add: find_index_def)

lemma find_index_split:
  assumes "find_index P xs \<noteq> length xs"
  obtains us x vs where "xs = us @ x # vs" and "find_index P xs = length us" and "P x"
    and "\<forall>u\<in>set us. \<not> P u"
proof -
  let ?i = "find_index P xs"
  from assms have i: "?i < length xs"
    using find_index_le [of P xs] by linarith
  have "\<forall>u\<in>set (take ?i xs). \<not> P u"
    by (metis find_index_def set_takeWhileD takeWhile_eq_take)
  moreover have "xs = take ?i xs @ xs ! ?i # drop (Suc ?i) xs"
    using i by (rule id_take_nth_drop)
  ultimately show thesis
    using i find_index_nth [OF i] by (intro that [of "take ?i xs" "xs ! ?i" "drop (Suc ?i) xs"]) simp_all
qed

end
