(* ===== verification/Std_Containers.thy ===== *)
theory Std_Containers
  imports Racez_Prelude
begin

text \<open>
  The containers and algorithms of the C++ standard library that the tools use.

  A \<open>std::set\<close> over a comparator is the list of its elements in iteration order; an iterator
  is a position in that list and \<open>end()\<close> is the length. \<open>insert\<close> keeps the present
  element when an equivalent one is there, as the standard requires. A \<open>std::map\<close> is the
  list of its key/value pairs in key order. \<open>lower_bound\<close> and \<open>set_intersection\<close>
  are the algorithms of the same name.

  The contract of a comparator is the locale \<open>strict_weak_order\<close>; what a client may expect
  of a map is the locale \<open>ordered_map\<close>.
\<close>

section \<open>Comparators\<close>

locale strict_weak_order =
  fixes lt :: "'a \<Rightarrow> 'a \<Rightarrow> bool"
  assumes lt_irrefl: "\<not> lt x x"
    and lt_trans: "lt x y \<Longrightarrow> lt y z \<Longrightarrow> lt x z"
    and incomparable_trans: "\<not> lt x y \<Longrightarrow> \<not> lt y z \<Longrightarrow> \<not> lt x z"
begin

lemma lt_asym: "lt x y \<Longrightarrow> \<not> lt y x"
  using lt_irrefl lt_trans by blast

lemma lt_cases: "lt x z \<Longrightarrow> lt x y \<or> lt y z"
  using incomparable_trans by blast

end

definition equivalent :: "('a \<Rightarrow> 'a \<Rightarrow> bool) \<Rightarrow> 'a \<Rightarrow> 'a \<Rightarrow> bool" where
  "equivalent lt x y \<longleftrightarrow> \<not> lt x y \<and> \<not> lt y x"

section \<open>Ordered sets\<close>

fun set_insert :: "('a \<Rightarrow> 'a \<Rightarrow> bool) \<Rightarrow> 'a \<Rightarrow> 'a list \<Rightarrow> 'a list" where
  "set_insert lt x [] = [x]"
| "set_insert lt x (y # ys) =
     (if lt x y then x # y # ys else if lt y x then y # set_insert lt x ys else y # ys)"

definition set_insert_all :: "('a \<Rightarrow> 'a \<Rightarrow> bool) \<Rightarrow> 'a list \<Rightarrow> 'a list \<Rightarrow> 'a list" where
  "set_insert_all lt xs s = foldl (\<lambda>s x. set_insert lt x s) s xs"

definition lower_bound :: "('a \<Rightarrow> 'a \<Rightarrow> bool) \<Rightarrow> 'a \<Rightarrow> 'a list \<Rightarrow> nat" where
  "lower_bound lt x xs = length (takeWhile (\<lambda>y. lt y x) xs)"

fun set_intersection :: "'a::linorder list \<Rightarrow> 'a list \<Rightarrow> 'a list" where
  "set_intersection [] ys = []"
| "set_intersection (x # xs) [] = []"
| "set_intersection (x # xs) (y # ys) =
     (if x < y then set_intersection xs (y # ys)
      else if y < x then set_intersection (x # xs) ys
      else x # set_intersection xs ys)"

lemma set_insert_subset: "set (set_insert lt x xs) \<subseteq> insert x (set xs)"
  by (induction xs) auto

lemma set_insert_superset: "set xs \<subseteq> set (set_insert lt x xs)"
  by (induction xs) auto

lemma set_insert_not_Nil [simp]: "set_insert lt x xs \<noteq> []"
  by (cases xs) auto

context strict_weak_order
begin

lemma sorted_set_insert: "sorted_wrt lt xs \<Longrightarrow> sorted_wrt lt (set_insert lt x xs)"
proof (induction xs)
  case (Cons y ys)
  then show ?case
    using set_insert_subset [of lt x ys] by (auto intro: lt_trans)
qed simp

lemma set_insert_fresh:
  "(\<And>y. y \<in> set xs \<Longrightarrow> \<not> equivalent lt x y) \<Longrightarrow> mset (set_insert lt x xs) = add_mset x (mset xs)"
  by (induction xs) (auto simp: equivalent_def)

lemma set_insert_present:
  "sorted_wrt lt xs \<Longrightarrow> y \<in> set xs \<Longrightarrow> equivalent lt x y \<Longrightarrow> set_insert lt x xs = xs"
proof (induction xs)
  case (Cons z zs)
  show ?case
  proof (cases "y = z")
    case True
    with Cons.prems show ?thesis by (auto simp: equivalent_def)
  next
    case False
    with Cons.prems have z: "lt z y" and zs: "sorted_wrt lt zs" "y \<in> set zs"
      by auto
    have "\<not> lt x z"
      using z Cons.prems(3) lt_trans by (auto simp: equivalent_def)
    moreover have "set_insert lt x zs = zs"
      using zs Cons.prems(3) by (rule Cons.IH)
    ultimately show ?thesis by simp
  qed
qed simp

lemma set_insert_has: "sorted_wrt lt xs \<Longrightarrow> \<exists>y\<in>set (set_insert lt x xs). equivalent lt x y"
  by (induction xs) (auto simp: equivalent_def lt_irrefl)

lemma sorted_set_insert_all: "sorted_wrt lt s \<Longrightarrow> sorted_wrt lt (set_insert_all lt xs s)"
  unfolding set_insert_all_def
  by (induction xs arbitrary: s) (auto simp: sorted_set_insert)

lemma lower_bound_split:
  assumes "sorted_wrt (\<lambda>a b. \<not> lt b a) xs"
  shows "\<forall>y\<in>set (take (lower_bound lt x xs) xs). lt y x"
    and "\<forall>y\<in>set (drop (lower_bound lt x xs) xs). \<not> lt y x"
proof -
  have "take (lower_bound lt x xs) xs = takeWhile (\<lambda>y. lt y x) xs"
    unfolding lower_bound_def by (rule takeWhile_eq_take [symmetric])
  then show "\<forall>y\<in>set (take (lower_bound lt x xs) xs). lt y x"
    by (auto dest: set_takeWhileD)
  have "drop (lower_bound lt x xs) xs = dropWhile (\<lambda>y. lt y x) xs"
    unfolding lower_bound_def by (rule dropWhile_eq_drop [symmetric])
  moreover from assms have "\<forall>y\<in>set (dropWhile (\<lambda>y. lt y x) xs). \<not> lt y x"
  proof (induction xs)
    case (Cons a as)
    show ?case
    proof (cases "lt a x")
      case True
      then have "dropWhile (\<lambda>y. lt y x) (a # as) = dropWhile (\<lambda>y. lt y x) as"
        by simp
      moreover have "sorted_wrt (\<lambda>a b. \<not> lt b a) as"
        using Cons.prems by (simp only: sorted_wrt.simps)
      ultimately show ?thesis using Cons.IH by argo
    next
      case False
      have "\<not> lt y x" if "y \<in> set as" for y
        using Cons.prems False that by (intro incomparable_trans [of y a x]) simp_all
      with False show ?thesis by simp
    qed
  qed simp
  ultimately show "\<forall>y\<in>set (drop (lower_bound lt x xs) xs). \<not> lt y x"
    by (rule ssubst)
qed

end

text \<open>Pointers are ordered by their unsigned value.\<close>

interpretation ptr_order: strict_weak_order "(<) :: 'a::linorder \<Rightarrow> 'a \<Rightarrow> bool"
  by unfold_locales auto

lemma set_set_insert_less [container_simps]:
  "set (set_insert (<) (x :: 'a::linorder) xs) = insert x (set xs)"
proof -
  have "x \<in> set (set_insert (<) x xs)"
    by (induction xs) auto
  then show ?thesis
    using set_insert_subset [of "(<)" x xs] set_insert_superset [of xs "(<)" x] by blast
qed

lemma set_set_insert_all_less [container_simps]:
  "set (set_insert_all (<) (xs :: 'a::linorder list) s) = set xs \<union> set s"
  unfolding set_insert_all_def by (induction xs arbitrary: s) (auto simp: container_simps)

lemma set_set_intersection:
  "sorted_wrt (<) xs \<Longrightarrow> sorted_wrt (<) ys \<Longrightarrow> set (set_intersection xs ys) = set xs \<inter> set ys"
proof (induction xs ys rule: set_intersection.induct)
  case (3 x xs y ys)
  consider "x < y" | "y < x" | "x = y" by fastforce
  then show ?case
  proof cases
    case 1
    then have "x \<notin> set (y # ys)" using "3.prems" by auto
    with 1 3 show ?thesis by auto
  next
    case 2
    then have "y \<notin> set (x # xs)" using "3.prems" by auto
    with 2 3 show ?thesis by auto
  next
    case 3
    with "3.IH" "3.prems" show ?thesis by auto
  qed
qed auto

lemma sorted_set_intersection:
  "sorted_wrt (<) xs \<Longrightarrow> sorted_wrt (<) ys \<Longrightarrow> sorted_wrt (<) (set_intersection xs ys)"
proof (induction xs ys rule: set_intersection.induct)
  case (3 x xs y ys)
  then show ?case by (auto simp: set_set_intersection)
qed auto

section \<open>Ordered maps\<close>

text \<open>
  \<open>map_insert\<close> is \<open>insert(value_type(k, v))\<close>: it changes nothing when the key is
  present and says whether it inserted. \<open>map_assign\<close> stores through an iterator or through
  \<open>operator[]\<close>. \<open>map_lower_bound\<close> is the member of that name, as a position.
\<close>

type_synonym ('k, 'v) omap = "('k \<times> 'v) list"
type_synonym 'v pmap = "(ptr, 'v) omap"

fun map_insert :: "'k::linorder \<Rightarrow> 'v \<Rightarrow> ('k::linorder, 'v) omap \<Rightarrow> ('k::linorder, 'v) omap \<times> bool" where
  "map_insert k v [] = ([(k, v)], True)"
| "map_insert k v ((a, w) # m) =
     (if k < a then ((k, v) # (a, w) # m, True)
      else if a < k then (let (m', b) = map_insert k v m in ((a, w) # m', b))
      else ((a, w) # m, False))"

fun map_assign :: "'k::linorder \<Rightarrow> 'v \<Rightarrow> ('k::linorder, 'v) omap \<Rightarrow> ('k::linorder, 'v) omap" where
  "map_assign k v [] = [(k, v)]"
| "map_assign k v ((a, w) # m) =
     (if k < a then (k, v) # (a, w) # m
      else if a < k then (a, w) # map_assign k v m
      else (a, v) # m)"

definition map_lower_bound :: "'k::linorder \<Rightarrow> ('k::linorder, 'v) omap \<Rightarrow> nat" where
  "map_lower_bound k m = length (takeWhile (\<lambda>(a, _). a < k) m)"

text \<open>
  The loop \<open>for (iter = s; iter != e;) m.erase(iter++)\<close> over the positions \<open>s\<close> and
  \<open>e\<close>. Erasing shifts the positions behind the erased one. When \<open>s\<close> lies behind
  \<open>e\<close> the loop never meets \<open>e\<close> and ends by dereferencing \<open>end()\<close>.
\<close>

function map_erase_loop :: "nat \<Rightarrow> nat \<Rightarrow> ('k::linorder, 'v) omap \<Rightarrow> ('k::linorder, 'v) omap result" where
  "map_erase_loop s e m =
     (if s = e then Inr m
      else if s < length m
      then map_erase_loop s (if s < e then e - 1 else e) (erase_at s m)
      else Inl Bad_iterator)"
  by pat_completeness auto
termination
  by (relation "measure (\<lambda>(s, e, m). length m)") (auto simp: length_erase_at)

declare map_erase_loop.simps [simp del]

abbreviation sorted_keys :: "('k::linorder, 'v) omap \<Rightarrow> bool" where
  "sorted_keys m \<equiv> sorted_wrt (<) (map fst m)"

lemma fst_map_insert_assign:
  "map_of m k = None \<Longrightarrow> map_insert k v m = (map_assign k v m, True)"
  by (induction m) (auto split: if_splits)

text \<open>A sorted map is determined by its look-ups.\<close>

lemma sorted_keys_ext:
  assumes "sorted_keys m" and "sorted_keys m'" and "map_of m = map_of m'"
  shows "m = m'"
proof -
  have d: "distinct (map fst m)" "distinct (map fst m')" using assms(1,2) by (simp_all add: strict_sorted_iff)
  then have eq: "set m = set m'" using assms(3) by (simp add: map_of_inject_set)
  have "inj_on fst (set m \<union> set m')" using d(1) eq by (simp add: distinct_map)
  then show ?thesis
    using assms(1,2) eq by (intro map_sorted_distinct_set_unique [of fst]) (simp_all add: strict_sorted_iff)
qed

lemma map_insert_present: "sorted_keys m \<Longrightarrow> map_of m k = Some w \<Longrightarrow> map_insert k v m = (m, False)"
proof (induction m)
  case (Cons p m)
  obtain a u where p: "p = (a, u)" by fastforce
  show ?case
  proof (cases "k = a")
    case False
    with Cons.prems p have "map_of m k = Some w" by simp
    then have "k \<in> fst ` set m" by (force dest: map_of_SomeD)
    with Cons.prems p have "a < k" by auto
    with False Cons p show ?thesis by simp
  qed (simp add: p)
qed simp

lemma keys_map_assign [container_simps]: "fst ` set (map_assign k v m) = insert k (fst ` set m)"
proof (induction m)
  case (Cons p m)
  obtain a w where p: "p = (a, w)" by fastforce
  consider "k < a" | "a < k" | "k = a" by fastforce
  then show ?case
    by cases (simp_all add: p Cons.IH insert_commute)
qed simp

lemma map_of_map_assign [container_simps]:
  "sorted_keys m \<Longrightarrow> map_of (map_assign k v m) = (map_of m)(k \<mapsto> v)"
proof (induction m)
  case (Cons p m)
  obtain a w where p: "p = (a, w)" by fastforce
  show ?case
  proof (cases "k < a")
    case True
    with p show ?thesis by (auto simp: fun_eq_iff)
  next
    case False
    with Cons p show ?thesis by (auto simp: fun_eq_iff)
  qed
qed simp

lemma sorted_map_assign [container_simps]: "sorted_keys m \<Longrightarrow> sorted_keys (map_assign k v m)"
proof (induction m)
  case (Cons p m)
  obtain a w where p: "p = (a, w)" by fastforce
  from Cons.prems p have m: "sorted_keys m" "\<forall>b\<in>fst ` set m. a < b" by auto
  have "\<forall>b\<in>fst ` set (map_assign k v m). a < b" if "a < k"
    using m(2) that by (auto simp: keys_map_assign)
  with m Cons.IH p show ?case by fastforce
qed simp

lemma map_erase_loop_forward:
  "i \<le> j \<Longrightarrow> j \<le> length m \<Longrightarrow> map_erase_loop i j m = Inr (take i m @ drop j m)"
proof (induction "j - i" arbitrary: j m)
  case 0
  then show ?case by (simp add: map_erase_loop.simps)
next
  case (Suc d)
  then have ij: "i < j" "i < length m" by auto
  have "map_erase_loop i j m = map_erase_loop i (j - 1) (erase_at i m)"
    using ij by (subst map_erase_loop.simps) simp
  also have "\<dots> = Inr (take i (erase_at i m) @ drop (j - 1) (erase_at i m))"
    using Suc ij by (intro Suc.hyps(1)) (auto simp: length_erase_at)
  also have "\<dots> = Inr (take i m @ drop j m)"
    using ij Suc.prems by (simp add: erase_at_def)
  finally show ?case .
qed

lemma map_erase_loop_backward: "j < i \<Longrightarrow> i \<le> length m \<Longrightarrow> map_erase_loop i j m = Inl Bad_iterator"
proof (induction "length m - i" arbitrary: m)
  case 0
  then show ?case by (simp add: map_erase_loop.simps)
next
  case (Suc d)
  then have i: "i < length m" by simp
  have "map_erase_loop i j m = map_erase_loop i j (erase_at i m)"
    using Suc.prems i by (subst map_erase_loop.simps) simp
  also have "\<dots> = Inl Bad_iterator"
    using Suc i by (intro Suc.hyps(1)) (auto simp: length_erase_at)
  finally show ?case .
qed

lemma map_lower_bound_le: "map_lower_bound k m \<le> length m"
  by (simp add: map_lower_bound_def length_takeWhile_le)

lemma map_lower_bound_filter:
  assumes "sorted_keys m"
  shows "take (map_lower_bound k m) m = filter (\<lambda>(a, _). a < k) m"
    and "drop (map_lower_bound k m) m = filter (\<lambda>(a, _). \<not> a < k) m"
  using assms
proof (induction m)
  case (Cons p m)
  obtain a w where p: "p = (a, w)" by fastforce
  {
    case 1
    show ?case
    proof (cases "a < k")
      case False
      with 1 p have "filter (\<lambda>(a, _). a < k) m = []" by (force simp: filter_empty_conv)
      with False p show ?thesis by (simp add: map_lower_bound_def)
    qed (use Cons 1 p in \<open>simp add: map_lower_bound_def\<close>)
  next
    case 2
    show ?case
    proof (cases "a < k")
      case False
      with 2 p have "filter (\<lambda>(a, _). \<not> a < k) m = m" by (force simp: filter_id_conv)
      with False p show ?thesis by (simp add: map_lower_bound_def)
    qed (use Cons 2 p in \<open>simp add: map_lower_bound_def\<close>)
  }
qed (simp_all add: map_lower_bound_def)

lemma map_lower_bound_mono: "k \<le> k' \<Longrightarrow> map_lower_bound k m \<le> map_lower_bound k' m"
  by (induction m) (auto simp: map_lower_bound_def)

text \<open>
  Erasing between two lower bounds removes exactly the keys of the half-open interval when its
  ends are in order. When they are not, nothing happens if no key lies between them, and the loop
  leaves its range if one does.
\<close>

definition map_erase_range :: "'k::linorder \<Rightarrow> 'k::linorder \<Rightarrow> ('k::linorder, 'v) omap \<Rightarrow> ('k::linorder, 'v) omap result" where
  "map_erase_range s e m = map_erase_loop (map_lower_bound s m) (map_lower_bound e m) m"

lemma map_erase_range_forward:
  assumes "sorted_keys m" and "s \<le> e"
  shows "map_erase_range s e m = Inr (filter (\<lambda>(a, _). \<not> (s \<le> a \<and> a < e)) m)"
proof -
  have "map_erase_range s e m =
      Inr (take (map_lower_bound s m) m @ drop (map_lower_bound e m) m)"
    unfolding map_erase_range_def using assms(2)
    by (intro map_erase_loop_forward map_lower_bound_mono map_lower_bound_le)
  also have "\<dots> = Inr (filter (\<lambda>(a, _). a < s) m @ filter (\<lambda>(a, _). \<not> a < e) m)"
    by (simp add: map_lower_bound_filter [OF assms(1)])
  also have "filter (\<lambda>(a, _). a < s) m @ filter (\<lambda>(a, _). \<not> a < e) m =
      filter (\<lambda>(a, _). \<not> (s \<le> a \<and> a < e)) m"
    using assms
  proof (induction m)
    case (Cons p m)
    obtain a w where p: "p = (a, w)" by fastforce
    show ?case
    proof (cases "a < s")
      case False
      with Cons.prems(1) p have "filter (\<lambda>(a, _). a < s) m = []"
        by (force simp: filter_empty_conv)
      with Cons False p show ?thesis by auto
    qed (use Cons p in auto)
  qed simp
  finally show ?thesis .
qed

lemma map_erase_range_backward:
  assumes "sorted_keys m" and "e < s"
  shows "map_erase_range s e m =
    (if \<exists>a\<in>fst ` set m. e \<le> a \<and> a < s then Inl Bad_iterator else Inr m)"
proof (cases "\<exists>a\<in>fst ` set m. e \<le> a \<and> a < s")
  case True
  then obtain a w where a: "(a, w) \<in> set m" "e \<le> a" "a < s" by auto
  have "map_lower_bound e m \<noteq> map_lower_bound s m"
  proof
    assume "map_lower_bound e m = map_lower_bound s m"
    then have "filter (\<lambda>(a, _). a < e) m = filter (\<lambda>(a, _). a < s) m"
      by (metis map_lower_bound_filter(1) assms(1))
    with a have "(a, w) \<in> set (filter (\<lambda>(a, _). a < e) m)" by simp
    with a(2) show False by auto
  qed
  then have "map_lower_bound e m < map_lower_bound s m"
    using map_lower_bound_mono [of e s m, OF order.strict_implies_order [OF assms(2)]] by linarith
  with True show ?thesis
    by (simp add: map_erase_range_def map_erase_loop_backward map_lower_bound_le)
next
  case False
  have "map_lower_bound e m = map_lower_bound s m"
    unfolding map_lower_bound_def using False assms(2)
    by (intro arg_cong [where f = length] takeWhile_cong) force+
  with False show ?thesis by (simp add: map_erase_range_def map_erase_loop.simps)
qed

lemma sorted_keys_filter: "sorted_keys m \<Longrightarrow> sorted_keys (filter P m)"
  by (induction m) auto

lemma map_of_filter_keys:
  "map_of (filter (\<lambda>(a, _). P a) m) = (\<lambda>a. if P a then map_of m a else None)"
  by (induction m) (auto simp: fun_eq_iff)

lemma map_of_erase_range:
  assumes "sorted_keys m" and "map_erase_range s e m = Inr m'"
  shows "sorted_keys m'" and "map_of m' = (\<lambda>a. if s \<le> a \<and> a < e then None else map_of m a)"
proof -
  have "sorted_keys m' \<and> map_of m' = (\<lambda>a. if s \<le> a \<and> a < e then None else map_of m a)"
  proof (cases "s \<le> e")
    case True
    with assms have "m' = filter (\<lambda>(a, _). \<not> (s \<le> a \<and> a < e)) m"
      by (simp add: map_erase_range_forward)
    with assms(1) show ?thesis
      by (auto simp: sorted_keys_filter map_of_filter_keys)
  next
    case False
    with assms have "m' = m"
      by (auto simp: map_erase_range_backward split: if_splits)
    with assms(1) False show ?thesis by (auto simp: fun_eq_iff)
  qed
  then show "sorted_keys m'" and "map_of m' = (\<lambda>a. if s \<le> a \<and> a < e then None else map_of m a)"
    by blast+
qed

text \<open>
  What the detector relies on in a map: the look-up after an insertion, an assignment and an
  erased range, and that each of them keeps the map well formed.
\<close>

locale ordered_map =
  fixes look :: "'m \<Rightarrow> 'k::linorder \<Rightarrow> 'v option"
    and store :: "'k::linorder \<Rightarrow> 'v \<Rightarrow> 'm \<Rightarrow> 'm"
    and try_insert :: "'k::linorder \<Rightarrow> 'v \<Rightarrow> 'm \<Rightarrow> 'm \<times> bool"
    and erase_range :: "'k \<Rightarrow> 'k \<Rightarrow> 'm \<Rightarrow> 'm result"
    and wf :: "'m \<Rightarrow> bool"
  assumes look_store: "wf m \<Longrightarrow> look (store k v m) = (look m)(k \<mapsto> v)"
    and wf_store: "wf m \<Longrightarrow> wf (store k v m)"
    and try_insert_absent: "wf m \<Longrightarrow> look m k = None \<Longrightarrow> try_insert k v m = (store k v m, True)"
    and try_insert_present: "wf m \<Longrightarrow> look m k = Some w \<Longrightarrow> try_insert k v m = (m, False)"
    and look_erase: "wf m \<Longrightarrow> erase_range s e m = Inr m' \<Longrightarrow>
      look m' = (\<lambda>a. if s \<le> a \<and> a < e then None else look m a)"
    and wf_erase: "wf m \<Longrightarrow> erase_range s e m = Inr m' \<Longrightarrow> wf m'"
    and erase_total: "wf m \<Longrightarrow> s \<le> e \<Longrightarrow> \<exists>m'. erase_range s e m = Inr m'"
begin

lemma try_insert_snd: "wf m \<Longrightarrow> snd (try_insert k v m) \<longleftrightarrow> look m k = None"
  by (cases "look m k") (auto simp: try_insert_absent try_insert_present)

lemma wf_try_insert: "wf m \<Longrightarrow> wf (fst (try_insert k v m))"
  by (cases "look m k") (auto simp: try_insert_absent try_insert_present wf_store)

lemma store_twice: "wf m \<Longrightarrow> look (store k v (store k w m)) = (look m)(k \<mapsto> v)"
  by (simp add: look_store wf_store)

lemma erase_dom: "wf m \<Longrightarrow> erase_range s e m = Inr m' \<Longrightarrow> dom (look m') = dom (look m) - {a. s \<le> a \<and> a < e}"
  by (auto simp: look_erase dom_def)

end

interpretation pm: ordered_map map_of map_assign map_insert map_erase_range sorted_keys
proof unfold_locales
  show "\<exists>m'. map_erase_range s e m = Inr m'" if "sorted_keys m" and "s \<le> e" for s e and m :: "('k::linorder \<times> 'v) list"
    using that by (simp add: map_erase_range_forward)
qed (auto simp: container_simps fst_map_insert_assign map_insert_present map_of_erase_range)

end
