(* ===== verification/Racez_Record.thy ===== *)
theory Racez_Record
  imports Std_Containers
begin

text \<open>
  The log record \<open>struct Record\<close> (racez_bufferdata.h; the tools repeat the declaration) and
  the order the detector sorts records by.

  The member \<open>op_\<close> is a union. On x86-64 its alternatives share only their first sixteen
  bytes: the first eight hold \<open>memory_address_\<close>, \<open>lock_address_\<close>,
  \<open>signal_address_\<close>, \<open>wait_address1_\<close> or \<open>start_address_\<close>, the next eight hold
  \<open>pip_\<close>, \<open>wait_address2_\<close>, or the pair of 32-bit members \<open>size_\<close> (low half) and
  \<open>is_alloc_\<close> (high half). Everything behind belongs to \<open>memory_access_\<close> alone. The model
  keeps this layout: \<open>op_word0\<close> and \<open>op_word1\<close> are the shared words, and each member of an
  alternative is a view of them, so code that reads one alternative of a record that was
  written through another gets what the machine gives it.
\<close>

unbundle bit_operations_syntax

section \<open>Data\<close>

text \<open>
  An enumeration read from a file can hold a value that is no enumerator; \<open>OTHER_TYPE\<close>
  stands for these. A zeroed record has type \<open>OTHER_TYPE 0\<close>.
\<close>

datatype RecordType =
    MEMORY_OP
  | SYNC_LOCK
  | SYNC_UNLOCK
  | SYNC_SIGNAL
  | SYNC_WAIT
  | MEMORY_ALLOC
  | OTHER_TYPE int

text \<open>The registers of a PEBS sample, as far as the code names them.\<close>

record pebs_entry =
  pebs_eflags :: ptr
  pebs_ip :: ptr
  pebs_eax :: ptr
  pebs_ebx :: ptr
  pebs_ecx :: ptr
  pebs_edx :: ptr
  pebs_esi :: ptr
  pebs_edi :: ptr
  pebs_ebp :: ptr
  pebs_esp :: ptr
  pebs_r8 :: ptr
  pebs_r9 :: ptr
  pebs_r10 :: ptr
  pebs_r11 :: ptr
  pebs_r12 :: ptr
  pebs_r13 :: ptr
  pebs_r14 :: ptr
  pebs_r15 :: ptr

record Record =
  record_no :: int
  thread_id :: int
  record_type :: RecordType
  op_word0 :: ptr
  op_word1 :: ptr
  sip :: ptr
  is_write :: int
  mem_op :: pebs_entry
  lock_count :: int
  lockset :: "ptr list"
  stack_trace :: "ptr list"
  trace_depth :: int

definition zero_entry :: pebs_entry where
  "zero_entry = \<lparr>pebs_eflags = 0, pebs_ip = 0, pebs_eax = 0, pebs_ebx = 0, pebs_ecx = 0,
     pebs_edx = 0, pebs_esi = 0, pebs_edi = 0, pebs_ebp = 0, pebs_esp = 0, pebs_r8 = 0,
     pebs_r9 = 0, pebs_r10 = 0, pebs_r11 = 0, pebs_r12 = 0, pebs_r13 = 0, pebs_r14 = 0,
     pebs_r15 = 0\<rparr>"

text \<open>\<open>memset(&record, 0, sizeof(record))\<close>.\<close>

definition zero_record :: Record where
  "zero_record = \<lparr>record_no = 0, thread_id = 0, record_type = OTHER_TYPE 0, op_word0 = 0,
     op_word1 = 0, sip = 0, is_write = 0, mem_op = zero_entry, lock_count = 0,
     lockset = replicate 10 0, stack_trace = replicate 10 0, trace_depth = 0\<rparr>"

section \<open>Members of the union\<close>

definition low32 :: "ptr \<Rightarrow> int" where
  "low32 w = to_int32 (uint w mod 2 ^ 32)"

definition high32 :: "ptr \<Rightarrow> int" where
  "high32 w = to_int32 (uint w div 2 ^ 32)"

definition pack32 :: "int \<Rightarrow> int \<Rightarrow> ptr" where
  "pack32 lo hi = word_of_int (lo mod 2 ^ 32 + 2 ^ 32 * (hi mod 2 ^ 32))"

definition memory_address :: "Record \<Rightarrow> ptr" where "memory_address r = op_word0 r"
definition pip :: "Record \<Rightarrow> ptr" where "pip r = op_word1 r"
definition start_address :: "Record \<Rightarrow> ptr" where "start_address r = op_word0 r"
definition alloc_size :: "Record \<Rightarrow> int" where "alloc_size r = low32 (op_word1 r)"
definition is_alloc :: "Record \<Rightarrow> int" where "is_alloc r = high32 (op_word1 r)"
definition signal_address :: "Record \<Rightarrow> ptr" where "signal_address r = op_word0 r"
definition wait_address1 :: "Record \<Rightarrow> ptr" where "wait_address1 r = op_word0 r"
definition wait_address2 :: "Record \<Rightarrow> ptr" where "wait_address2 r = op_word1 r"

text \<open>The stores \<open>op_.m.f = v\<close>. A 32-bit store leaves the other half of the word alone.\<close>

definition set_memory_address :: "ptr \<Rightarrow> Record \<Rightarrow> Record" where
  "set_memory_address v r = r\<lparr>op_word0 := v\<rparr>"

definition set_pip :: "ptr \<Rightarrow> Record \<Rightarrow> Record" where
  "set_pip v r = r\<lparr>op_word1 := v\<rparr>"

definition set_start_address :: "ptr \<Rightarrow> Record \<Rightarrow> Record" where
  "set_start_address v r = r\<lparr>op_word0 := v\<rparr>"

definition set_alloc_size :: "int \<Rightarrow> Record \<Rightarrow> Record" where
  "set_alloc_size v r = r\<lparr>op_word1 := pack32 v (high32 (op_word1 r))\<rparr>"

definition set_is_alloc :: "int \<Rightarrow> Record \<Rightarrow> Record" where
  "set_is_alloc v r = r\<lparr>op_word1 := pack32 (low32 (op_word1 r)) v\<rparr>"

definition set_signal_address :: "ptr \<Rightarrow> Record \<Rightarrow> Record" where
  "set_signal_address v r = r\<lparr>op_word0 := v\<rparr>"

definition set_wait_address1 :: "ptr \<Rightarrow> Record \<Rightarrow> Record" where
  "set_wait_address1 v r = r\<lparr>op_word0 := v\<rparr>"

definition set_wait_address2 :: "ptr \<Rightarrow> Record \<Rightarrow> Record" where
  "set_wait_address2 v r = r\<lparr>op_word1 := v\<rparr>"

lemmas union_view_defs = memory_address_def pip_def start_address_def alloc_size_def is_alloc_def
  signal_address_def wait_address1_def wait_address2_def

lemmas union_store_defs = set_memory_address_def set_pip_def set_start_address_def
  set_alloc_size_def set_is_alloc_def set_signal_address_def set_wait_address1_def
  set_wait_address2_def

lemma to_int32_mod: "to_int32 (i mod 2 ^ 32) = to_int32 i"
  by (simp add: to_int32_def)

lemma to_int32_uminus_mod: "to_int32 i mod 2 ^ 32 = i mod 2 ^ 32"
  by (simp add: to_int32_def Let_def)

lemma uint_pack32: "uint (pack32 lo hi) = lo mod 2 ^ 32 + 2 ^ 32 * (hi mod 2 ^ 32)"
proof -
  have "0 \<le> lo mod 2 ^ 32" "lo mod 2 ^ 32 < 2 ^ 32" "0 \<le> hi mod 2 ^ 32" "hi mod 2 ^ 32 < 2 ^ 32"
    by simp_all
  then have "0 \<le> lo mod 2 ^ 32 + 2 ^ 32 * (hi mod 2 ^ 32)"
    and "lo mod 2 ^ 32 + 2 ^ 32 * (hi mod 2 ^ 32) < 2 ^ 64"
    by simp_all
  then show ?thesis
    unfolding pack32_def uint_word_of_int by (simp del: of_int_add)
qed

lemma low32_pack32 [record_simps]: "low32 (pack32 lo hi) = to_int32 lo"
  by (simp add: low32_def uint_pack32 to_int32_def)

lemma high32_pack32 [record_simps]: "high32 (pack32 lo hi) = to_int32 hi"
proof -
  have "(lo mod 2 ^ 32 + 2 ^ 32 * (hi mod 2 ^ 32)) div 2 ^ 32 = hi mod 2 ^ 32"
    by simp
  then show ?thesis
    by (simp only: high32_def uint_pack32 to_int32_mod)
qed

lemma pack32_halves: "pack32 (low32 w) (high32 w) = w"
proof -
  have hi: "uint w div 2 ^ 32 mod 2 ^ 32 = uint w div 2 ^ 32"
  proof (rule mod_pos_pos_trivial)
    show "uint w div 2 ^ 32 < 2 ^ 32"
      using uint_lt2p [of w] by simp
    show "0 \<le> uint w div 2 ^ 32"
      by (simp add: pos_imp_zdiv_nonneg_iff)
  qed
  have "uint (pack32 (low32 w) (high32 w)) = uint w"
    unfolding uint_pack32 low32_def high32_def to_int32_uminus_mod hi
    by simp
  then show ?thesis by (rule word_uint_eqI)
qed

text \<open>Storing the members of a memory-management record and reading them back.\<close>

lemma alloc_members:
  "alloc_size (set_is_alloc a (set_alloc_size s r)) = to_int32 s"
  "is_alloc (set_is_alloc a (set_alloc_size s r)) = to_int32 a"
  "start_address (set_is_alloc a (set_alloc_size s r)) = start_address r"
  by (simp_all add: union_view_defs union_store_defs record_simps to_int32_id to_int32_range)

section \<open>Order of records\<close>

definition record_less :: "Record \<Rightarrow> Record \<Rightarrow> bool" where
  "record_less a b =
     (if record_no a < record_no b then True
      else if record_no a = record_no b \<and> pip a < pip b then True
      else False)"

interpretation rec_order: strict_weak_order record_less
  by unfold_locales (auto simp: record_less_def split: if_splits)

lemma equivalent_record: "equivalent record_less a b \<longleftrightarrow> record_no a = record_no b \<and> pip a = pip b"
  by (auto simp: equivalent_def record_less_def split: if_splits)

section \<open>Well-formed records\<close>

text \<open>
  \<open>layout_ok\<close> holds of every object of the struct type: the arrays have ten elements.
  \<open>locks\<close> is the set of locks a memory access was logged with.
\<close>

definition layout_ok :: "Record \<Rightarrow> bool" where
  "layout_ok r \<longleftrightarrow> length (lockset r) = 10 \<and> length (stack_trace r) = 10"

definition locks :: "Record \<Rightarrow> ptr set" where
  "locks r = set (take (nat (lock_count r)) (lockset r))"

definition is_access :: "Record \<Rightarrow> bool" where
  "is_access r \<longleftrightarrow> record_type r = MEMORY_OP \<and> memory_address r \<noteq> 0"

lemma layout_ok_zero: "layout_ok zero_record"
  by (simp add: layout_ok_def zero_record_def)

end
