(* ===== verification/C_Library.thy ===== *)
theory C_Library
  imports Racez_Prelude
begin

text \<open>
  What the sources use of the C library on text: the conversions of \<open>printf\<close>, the number
  parser \<open>strtoll\<close>, line input with \<open>fgets\<close> and searching with \<open>strchr\<close>. A
  file opened for reading is the text that is left in it; text written to a file is the string
  appended.
\<close>

section \<open>Characters\<close>

abbreviation nl :: char where "nl \<equiv> CHR 0x0A"
abbreviation tab :: char where "tab \<equiv> CHR 0x09"

definition isspace :: "char \<Rightarrow> bool" where
  "isspace c \<longleftrightarrow> c \<in> {CHR '' '', CHR 0x09, CHR 0x0A, CHR 0x0B, CHR 0x0C, CHR 0x0D}"

definition digit_char :: "nat \<Rightarrow> char" where
  "digit_char d = (if d < 10 then char_of (48 + d) else char_of (87 + d))"

text \<open>The value of a digit or letter; 99, no digit of any base, for other characters.\<close>

definition digit_val :: "char \<Rightarrow> nat" where
  "digit_val c =
     (let n = of_char c :: nat in
      if 48 \<le> n \<and> n \<le> 57 then n - 48
      else if 97 \<le> n \<and> n \<le> 122 then n - 87
      else if 65 \<le> n \<and> n \<le> 90 then n - 55
      else 99)"

lemma digit_val_digit_char: "d < 16 \<Longrightarrow> digit_val (digit_char d) = d"
  by (simp add: digit_val_def digit_char_def Let_def)

section \<open>Output conversions\<close>

function num_str :: "nat \<Rightarrow> nat \<Rightarrow> string" where
  "num_str b n = (if b < 2 \<or> n < b then [digit_char n] else num_str b (n div b) @ [digit_char (n mod b)])"
  by pat_completeness auto
termination
  by (relation "measure (\<lambda>(b, n). n)") (auto intro: div_less_dividend)

declare num_str.simps [simp del]

definition fmt_d :: "int \<Rightarrow> string" where
  "fmt_d i = (if i < 0 then CHR ''-'' # num_str 10 (nat (- i)) else num_str 10 (nat i))"

definition zero_pad :: "nat \<Rightarrow> string \<Rightarrow> string" where
  "zero_pad w s = replicate (w - length s) (CHR ''0'') @ s"

text \<open>\<open>0x%08llx\<close> and \<open>%p\<close>.\<close>

definition fmt_llx :: "ptr \<Rightarrow> string" where
  "fmt_llx w = ''0x'' @ zero_pad 8 (num_str 16 (unat w))"

definition fmt_p :: "ptr \<Rightarrow> string" where
  "fmt_p w = (if w = 0 then ''(nil)'' else ''0x'' @ num_str 16 (unat w))"

section \<open>Input conversion\<close>

fun digits_value :: "nat \<Rightarrow> nat \<Rightarrow> string \<Rightarrow> nat" where
  "digits_value b acc [] = acc"
| "digits_value b acc (c # cs) = (if digit_val c < b then digits_value b (acc * b + digit_val c) cs else acc)"

definition has_0x :: "string \<Rightarrow> bool" where
  "has_0x s = (case s of a # x # d # _ \<Rightarrow> a = CHR ''0'' \<and> (x = CHR ''x'' \<or> x = CHR ''X'') \<and> digit_val d < 16 | _ \<Rightarrow> False)"

definition LLONG_MAX :: int where "LLONG_MAX = 2 ^ 63 - 1"
definition LLONG_MIN :: int where "LLONG_MIN = - (2 ^ 63)"

text \<open>
  \<open>strtoll(s, &end, base)\<close>: white space, a sign, the prefix \<open>0x\<close> for base 16, the
  longest run of digits; the value is cut to the range of \<open>long long\<close>, and 0 when there is
  no digit. Base 0 takes the base from the prefix.
\<close>

definition strtoll :: "string \<Rightarrow> nat \<Rightarrow> int" where
  "strtoll s base =
     (let s1 = dropWhile isspace s;
          neg = (s1 \<noteq> [] \<and> hd s1 = CHR ''-'');
          s2 = (if s1 \<noteq> [] \<and> (hd s1 = CHR ''-'' \<or> hd s1 = CHR ''+'') then tl s1 else s1);
          b = (if base = 0 then (if has_0x s2 then 16 else if s2 \<noteq> [] \<and> hd s2 = CHR ''0'' then 8 else 10)
               else base);
          s3 = (if b = 16 \<and> has_0x s2 then drop 2 s2 else s2);
          v = int (digits_value b 0 s3)
      in max LLONG_MIN (min LLONG_MAX (if neg then - v else v)))"

text \<open>What \<open>strtoll\<close> leaves behind the number, all of it when there is no number.\<close>

definition strtoll_rest :: "string \<Rightarrow> nat \<Rightarrow> string" where
  "strtoll_rest s base =
     (let s1 = dropWhile isspace s;
          s2 = (if s1 \<noteq> [] \<and> (hd s1 = CHR ''-'' \<or> hd s1 = CHR ''+'') then tl s1 else s1);
          b = (if base = 0 then (if has_0x s2 then 16 else if s2 \<noteq> [] \<and> hd s2 = CHR ''0'' then 8 else 10)
               else base);
          s3 = (if b = 16 \<and> has_0x s2 then drop 2 s2 else s2)
      in if s3 = [] \<or> b \<le> digit_val (hd s3) then s else dropWhile (\<lambda>c. digit_val c < b) s3)"

definition no_digit :: "nat \<Rightarrow> string \<Rightarrow> bool" where
  "no_digit b s \<longleftrightarrow> s = [] \<or> b \<le> digit_val (hd s)"

lemma digits_value_stop: "no_digit b s \<Longrightarrow> digits_value b acc s = acc"
  by (cases s) (auto simp: no_digit_def)

lemma digits_value_num_str:
  assumes "2 \<le> b" and "b \<le> 16" and "no_digit b rest"
  shows "digits_value b 0 (num_str b n @ rest) = n"
proof -
  have "digits_value b 0 (num_str b n @ rest) = digits_value b n rest" if "2 \<le> b" and "b \<le> 16" for rest
    using that
  proof (induction b n arbitrary: rest rule: num_str.induct)
    case (1 b n)
    show ?case
    proof (cases "n < b")
      case True
      with 1 show ?thesis by (simp add: num_str.simps [of b n] digit_val_digit_char)
    next
      case False
      with 1 have "digits_value b 0 (num_str b (n div b) @ digit_char (n mod b) # rest)
          = digits_value b (n div b) (digit_char (n mod b) # rest)"
        by (intro "1.IH") auto
      moreover have m: "n mod b < b" using 1 by simp
      moreover from m have "n mod b < 16" using 1 by linarith
      ultimately show ?thesis
        using False 1 by (simp add: num_str.simps [of b n] digit_val_digit_char)
    qed
  qed
  with assms show ?thesis by (simp add: digits_value_stop)
qed

lemma digits_value_zeros: "0 < b \<Longrightarrow> digits_value b 0 (replicate k (CHR ''0'') @ s) = digits_value b 0 s"
  by (induction k) (auto simp: digit_val_def)

lemma num_str_not_Nil [simp]: "num_str b n \<noteq> []"
  by (subst num_str.simps) simp

lemma hd_num_str: "2 \<le> b \<Longrightarrow> b \<le> 16 \<Longrightarrow> \<exists>d<b. hd (num_str b n) = digit_char d"
proof (induction b n rule: num_str.induct)
  case (1 b n)
  show ?case
  proof (cases "n < b")
    case True
    then show ?thesis by (subst num_str.simps) auto
  next
    case False
    with 1 have "\<exists>d<b. hd (num_str b (n div b)) = digit_char d" by auto
    with False 1 show ?thesis by (subst (1) num_str.simps) (simp add: hd_append)
  qed
qed

lemma zero_pad_not_Nil: "s \<noteq> [] \<Longrightarrow> zero_pad w s \<noteq> []"
  by (simp add: zero_pad_def)

lemma digit_char_0: "digit_char 0 = CHR ''0''"
  by code_simp

lemma hd_zero_pad_num_str: "\<exists>d<16. hd (zero_pad w (num_str 16 n)) = digit_char d"
proof (cases "w - length (num_str 16 n)")
  case 0
  then show ?thesis using hd_num_str [of 16 n] by (simp add: zero_pad_def)
next
  case (Suc k)
  then show ?thesis by (intro exI [of _ 0]) (simp add: zero_pad_def digit_char_0)
qed

text \<open>
  What \<open>0x%08llx\<close> prints, \<open>strtoll\<close> with base 16 reads back, except that a value with
  the top bit set comes back as the largest signed number.
\<close>

lemma strtoll_fmt_llx:
  assumes "no_digit 16 rest"
  shows "strtoll (fmt_llx w @ rest) 16 = min LLONG_MAX (uint w)"
proof -
  let ?t = "zero_pad 8 (num_str 16 (unat w)) @ rest"
  obtain d where d: "d < 16" "hd ?t = digit_char d"
    using hd_zero_pad_num_str [of 8 "unat w"] by (auto simp: hd_append zero_pad_not_Nil)
  have ne: "?t \<noteq> []" by (simp add: zero_pad_def)
  then obtain t' where t': "?t = digit_char d # t'"
    using d(2) by (metis list.collapse)
  have "has_0x (CHR ''0'' # CHR ''x'' # ?t)"
    unfolding t' by (simp add: has_0x_def digit_val_digit_char d)
  moreover have "digits_value 16 0 ?t = unat w"
    using assms by (simp add: zero_pad_def digits_value_zeros digits_value_num_str)
  ultimately have "strtoll (fmt_llx w @ rest) 16 = max LLONG_MIN (min LLONG_MAX (int (unat w)))"
    by (simp add: strtoll_def fmt_llx_def isspace_def Let_def)
  moreover have "LLONG_MIN \<le> min LLONG_MAX (uint w)"
    by (simp add: LLONG_MIN_def LLONG_MAX_def order.trans [OF _ uint_ge_0])
  ultimately show ?thesis
    by (simp add: max_absorb2)
qed

section \<open>Lines and substrings\<close>

fun read_line :: "nat \<Rightarrow> string \<Rightarrow> string \<times> string" where
  "read_line 0 s = ([], s)"
| "read_line (Suc n) [] = ([], [])"
| "read_line (Suc n) (c # s) =
     (if c = nl then ([c], s) else (let (l, r) = read_line n s in (c # l, r)))"

text \<open>\<open>fgets(buf, amt, fp)\<close>: the line read and the text left, or nothing at the end.\<close>

definition fgets :: "nat \<Rightarrow> string \<Rightarrow> (string \<times> string) option" where
  "fgets amt s = (if s = [] then None else Some (read_line (amt - 1) s))"

lemma read_line_append: "read_line n s = (l, r) \<Longrightarrow> l @ r = s"
  by (induction n s arbitrary: l r rule: read_line.induct) (auto split: if_splits prod.splits)

lemma read_line_shorter: "s \<noteq> [] \<Longrightarrow> 0 < n \<Longrightarrow> length (snd (read_line n s)) < length s"
proof -
  assume a: "s \<noteq> []" "0 < n"
  obtain l r where lr: "read_line n s = (l, r)" by fastforce
  have "l \<noteq> []"
    using a lr by (cases n; cases s) (auto split: if_splits prod.splits)
  with read_line_append [OF lr] lr show ?thesis by auto
qed

lemma fgets_shorter: "fgets amt s = Some (l, r) \<Longrightarrow> 1 < amt \<Longrightarrow> length r < length s"
  using read_line_shorter [of s "amt - 1"] by (auto simp: fgets_def split: if_splits)

lemma fgets_line:
  assumes "nl \<notin> set l" and "length l + 1 < amt"
  shows "fgets amt (l @ nl # r) = Some (l @ [nl], r)"
proof -
  have "read_line n (l @ nl # r) = (l @ [nl], r)" if "length l < n" for n
    using assms(1) that
  proof (induction l arbitrary: n)
    case Nil
    then show ?case by (cases n) auto
  next
    case (Cons c l)
    then show ?case by (cases n) auto
  qed
  with assms(2) show ?thesis by (simp add: fgets_def)
qed

text \<open>\<open>strchr(s, c)\<close>: the part of the string from the first \<open>c\<close> on, if there is one.\<close>

fun strchr :: "string \<Rightarrow> char \<Rightarrow> string option" where
  "strchr [] c = None"
| "strchr (x # s) c = (if x = c then Some (x # s) else strchr s c)"

text \<open>The text before the first \<open>c\<close>: what a pointer difference to \<open>strchr\<close> measures.\<close>

definition before :: "string \<Rightarrow> char \<Rightarrow> string" where
  "before s c = takeWhile (\<lambda>x. x \<noteq> c) s"

lemma strchr_None: "c \<notin> set s \<Longrightarrow> strchr s c = None"
  by (induction s) auto

lemma strchr_before: "strchr s c = Some t \<Longrightarrow> s = before s c @ t \<and> hd t = c"
  by (induction s) (auto simp: before_def split: if_splits)

lemma strchr_field: "c \<notin> set f \<Longrightarrow> strchr (f @ c # s) c = Some (c # s) \<and> before (f @ c # s) c = f"
  by (induction f) (auto simp: before_def)

text \<open>The C string in a buffer ends at the first zero byte.\<close>

definition c_str :: "string \<Rightarrow> string" where
  "c_str s = takeWhile (\<lambda>c. c \<noteq> CHR 0x00) s"

lemma c_str_id: "CHR 0x00 \<notin> set s \<Longrightarrow> c_str s = s"
  by (auto simp: c_str_def)

text \<open>\<open>strstr(s, t) != NULL\<close>.\<close>

fun contains :: "string \<Rightarrow> string \<Rightarrow> bool" where
  "contains [] t = (t = [])"
| "contains (x # s) t = (take (length t) (x # s) = t \<or> contains s t)"

end
