(* ===== verification/Tool_Detect.thy ===== *)
theory Tool_Detect
  imports Racez_Record C_Library
begin

text \<open>
  The offline detector (tools/detect.cc): for every sampled memory address it keeps the latest
  accesses, the intersection of the locks they were made with, and a state of the Eraser-like
  state machine; a warning is written when a written location shared by several threads has no
  common lock left.

  The four global maps, the warning counter and the text of the output file are the state
  \<open>detector\<close>. A pointer to a heap-allocated set is owned by one map entry, so an entry holds
  the set itself. \<open>addr2line\<close> is a program outside the sources: \<open>shell\<close> gives, for
  a command line, the text it leaves in \<open>tmp.txt\<close>, or \<open>None\<close> when that file cannot
  be opened.
\<close>

section \<open>State\<close>

record detect_config =
  binary :: string
  enable_memory_reuse :: bool
  shell :: "string \<Rightarrow> string option"

record detector =
  global_record_set_map :: "Record list pmap"
  rw_map :: "int pmap"
  lockset_map :: "ptr list pmap"
  heap_map :: "int pmap"
  warning_count :: int
  output_text :: string

definition init_detector :: detector where
  "init_detector = \<lparr>global_record_set_map = [], rw_map = [], lockset_map = [], heap_map = [],
     warning_count = 0, output_text = []\<rparr>"

section \<open>Reports\<close>

text \<open>
  \<open>get_filename\<close> runs \<open>addr2line\<close> and takes the first line of its output. The
  caller's buffer keeps its old contents when the output is empty; \<open>None\<close> is a buffer that
  was never written.
\<close>

definition addr2line_command :: "detect_config \<Rightarrow> ptr \<Rightarrow> string" where
  "addr2line_command cfg addr =
     ''/usr/bin/addr2line'' @ '' -e '' @ binary cfg @ '' '' @ fmt_llx addr @ '' >  '' @ ''tmp.txt''"

definition get_filename :: "detect_config \<Rightarrow> ptr \<Rightarrow> string option \<Rightarrow> string result" where
  "get_filename cfg addr buffer =
     (case shell cfg (addr2line_command cfg addr) of
        None \<Rightarrow> Inl (Exit_program 0)
      | Some text \<Rightarrow>
          (case (case fgets 2000 text of Some (line, _) \<Rightarrow> Some (c_str line) | None \<Rightarrow> buffer) of
             None \<Rightarrow> Inl Indeterminate
           | Some b \<Rightarrow>
               if b = [] then Inl Out_of_bounds
               else if last b \<noteq> nl then Inl Assertion_failed
               else Inr (butlast b)))"

fun report_stack :: "detect_config \<Rightarrow> ptr list \<Rightarrow> string \<Rightarrow> string \<Rightarrow> (string \<times> string) result" where
  "report_stack cfg [] filename out = Inr (filename, out)"
| "report_stack cfg (site # sites) filename out =
     rbind (get_filename cfg site (Some filename))
       (\<lambda>f. report_stack cfg sites f (out @ f @ [nl]))"

definition report_access ::
  "detect_config \<Rightarrow> int \<Rightarrow> Record \<Rightarrow> string option \<Rightarrow> (string \<times> string) result" where
  "report_access cfg i r filename =
     (let ip_addr = pip r;
          out = ''The '' @ fmt_d i @ ''th access: INDEX='' @ fmt_d (record_no r) @ '' TID='' @
            fmt_d (thread_id r) @ '' IP='' @ fmt_llx ip_addr @ '' '' @
            (if is_write r \<noteq> 0 then ''WRITE '' else ''READ '')
      in rbind (get_filename cfg ip_addr filename) (\<lambda>f.
         rbind (array_prefix (lockset r) (lock_count r)) (\<lambda>ls.
         rbind (array_prefix (stack_trace r) (trace_depth r)) (\<lambda>sites.
           report_stack cfg sites f
             (out @ f @ [nl] @ ''the lockset is : ( '' @ concat (map (\<lambda>l. fmt_p l @ [tab]) ls) @
              '')'' @ [nl] @ ''call stack is:'' @ [nl])))))"

fun report_accesses ::
  "detect_config \<Rightarrow> int \<Rightarrow> Record list \<Rightarrow> string option \<Rightarrow> string \<Rightarrow> string result" where
  "report_accesses cfg i [] filename out = Inr out"
| "report_accesses cfg i (r # rs) filename out =
     rbind (report_access cfg i r filename)
       (\<lambda>(f, text). report_accesses cfg (i + 1) rs (Some f) (out @ text))"

definition report_error :: "detect_config \<Rightarrow> Record list \<Rightarrow> ptr \<Rightarrow> detector \<Rightarrow> detector result" where
  "report_error cfg record_set addr d =
     (let wc = warning_count d + 1;
          out = ''Warning '' @ fmt_d wc @ '' :'' @ [nl] @ ''Memory Location: '' @ fmt_p addr @ [nl]
      in rbind (report_accesses cfg 1 record_set None out)
           (\<lambda>text. Inr (d\<lparr>warning_count := wc, output_text := output_text d @ text @ [nl] @ [nl]\<rparr>)))"

section \<open>The state machine of one address\<close>

text \<open>The position of the record of a thread, \<open>end()\<close> when the thread has none.\<close>

definition set_includes_thread_id :: "Record list \<Rightarrow> int \<Rightarrow> nat" where
  "set_includes_thread_id record_set tid = find_index (\<lambda>r. thread_id r = tid) record_set"

text \<open>
  The \<open>switch\<close> over the state: the flag \<open>may_report\<close>, the new record set and the new
  state. States: 0 read by one thread, 1 written by one thread, 2 read by several, 3 shared and
  written, 4 reported.
\<close>

definition detection_switch ::
  "Record \<Rightarrow> Record list \<Rightarrow> int \<Rightarrow> (bool \<times> Record list \<times> int) result" where
  "detection_switch cur rs status =
     (let iter = set_includes_thread_id rs (thread_id cur);
          found = (iter \<noteq> length rs);
          wr = (is_write cur = 1);
          inserted = set_insert record_less cur rs;
          replaced = set_insert record_less cur (erase_at iter rs)
      in if status = 0 then
           (if length rs \<noteq> 1 then Inl Assertion_failed
            else if \<not> found then Inr (if wr then (True, inserted, 3) else (False, inserted, 2))
            else Inr (False, replaced, if wr then 1 else 0))
         else if status = 1 then
           (if length rs \<noteq> 1 then Inl Assertion_failed
            else if \<not> found then Inr (True, inserted, 3)
            else Inr (False, if wr then replaced else rs, 1))
         else if status = 2 then
           (if \<not> 1 < length rs then Inl Assertion_failed
            else if \<not> found then Inr (if wr then (True, inserted, 3) else (False, inserted, 2))
            else Inr (if wr then (True, replaced, 3) else (False, replaced, 2)))
         else if status = 3 then
           (if \<not> 1 < length rs then Inl Assertion_failed
            else if \<not> found then Inr (False, inserted, 3)
            else Inr (True,
                   if wr \<or> (is_write (rs ! iter) = 0 \<and> wr) then replaced else rs, 3))
         else if status = 4 then
           (if \<not> 1 < length rs then Inl Assertion_failed else Inr (False, rs, 4))
         else Inl Assertion_failed)"

text \<open>
  The whole \<open>core_detection\<close>: the state machine, then the intersection of the candidate
  lockset with the locks of the access, then the decision to report.
\<close>

definition core_detection ::
  "Record \<Rightarrow> Record list \<Rightarrow> int \<Rightarrow> ptr list \<Rightarrow> (bool \<times> Record list \<times> int \<times> ptr list) result" where
  "core_detection cur rs status ls =
     rbind (detection_switch cur rs status) (\<lambda>(may_report, rs', status').
     rbind (array_prefix (lockset cur) (lock_count cur)) (\<lambda>held.
       let temp_set = set_insert_all (<) held [];
           ls' = set_intersection ls temp_set
       in if may_report \<and> status' = 3 \<and> ls' = []
          then Inr (True, rs', 4, ls')
          else Inr (False, rs', status', ls')))"

section \<open>Processing one record\<close>

definition delete_map_entries :: "ptr \<Rightarrow> ptr \<Rightarrow> detector \<Rightarrow> detector result" where
  "delete_map_entries s e d =
     rbind (map_erase_range s e (lockset_map d)) (\<lambda>lm.
     rbind (map_erase_range s e (global_record_set_map d)) (\<lambda>gm.
     rbind (map_erase_range s e (rw_map d)) (\<lambda>rm.
       Inr (d\<lparr>lockset_map := lm, global_record_set_map := gm, rw_map := rm\<rparr>))))"

text \<open>
  The branch for a memory access with a non-zero address. The three \<open>insert\<close> calls put a
  null value for a new address; a null pointer that is found later is never dereferenced in a
  consistent state, and the model stops there.
\<close>

definition detect_access :: "detect_config \<Rightarrow> Record \<Rightarrow> detector \<Rightarrow> detector result" where
  "detect_access cfg r d =
     (let a = memory_address r;
          (gm, g_new) = map_insert a [] (global_record_set_map d);
          (rm, rw_new) = map_insert a 0 (rw_map d);
          (lm, l_new) = map_insert a [] (lockset_map d)
      in if rw_new then
           (if \<not> g_new \<or> \<not> l_new then Inl Assertion_failed
            else rbind (array_prefix (lockset r) (lock_count r)) (\<lambda>held.
              Inr (d\<lparr>global_record_set_map := map_assign a (set_insert record_less r []) gm,
                     lockset_map := map_assign a (set_insert_all (<) held []) lm,
                     rw_map := map_assign a (is_write r) rm\<rparr>)))
         else if g_new \<or> l_new then Inl Null_pointer
         else
           (case (map_of gm a, map_of rm a, map_of lm a) of
              (Some rs, Some status, Some ls) \<Rightarrow>
                rbind (core_detection r rs status ls) (\<lambda>(will_report, rs', status', ls').
                  let d' = d\<lparr>global_record_set_map := map_assign a rs' gm,
                             rw_map := map_assign a status' rm,
                             lockset_map := map_assign a ls' lm\<rparr>
                  in if will_report then report_error cfg rs' a d' else Inr d')
            | _ \<Rightarrow> Inl Null_pointer))"

text \<open>
  The branch for a memory-management record, when the memory-reuse filter is on. The look-up
  \<open>heap_map[start_address]\<close> inserts the size 0 for an address that is not there.
\<close>

definition detect_alloc :: "Record \<Rightarrow> detector \<Rightarrow> detector result" where
  "detect_alloc r d =
     (let start = start_address r
      in if is_alloc r \<noteq> 0 then Inr (d\<lparr>heap_map := map_assign start (alloc_size r) (heap_map d)\<rparr>)
         else if start = 0 then Inr d
         else if alloc_size r = 0 then
           (let hm = fst (map_insert start 0 (heap_map d));
                d' = d\<lparr>heap_map := hm\<rparr>
            in case map_of hm start of
                 Some sz \<Rightarrow>
                   if sz = 0 then Inr d'
                   else delete_map_entries start (start + word_of_int sz) d'
               | None \<Rightarrow> Inl Null_pointer)
         else delete_map_entries start (start + word_of_int (alloc_size r)) d)"

definition offline_detection :: "detect_config \<Rightarrow> Record \<Rightarrow> detector \<Rightarrow> detector result" where
  "offline_detection cfg r d =
     (if record_type r = MEMORY_OP then
        (if memory_address r = 0 then Inr d else detect_access cfg r d)
      else if record_type r = MEMORY_ALLOC then
        (if enable_memory_reuse cfg then detect_alloc r d else Inr d)
      else Inr d)"

section \<open>The main loop\<close>

text \<open>
  The raw records are read from a file, the records the Mao pass adds (\<open>-n\<close>) are first
  sorted into a set. \<open>detect_merge\<close> is the loop over both: the first list starts with the
  record that \<open>raw_record\<close> holds and goes on with the rest of the file, the second list is
  what the set iterator has before it.
\<close>

function detect_merge :: "detect_config \<Rightarrow> Record list \<Rightarrow> Record list \<Rightarrow> detector \<Rightarrow> detector result" where
  "detect_merge cfg [] news d = Inr d"
| "detect_merge cfg (r # raws) [] d = Inr d"
| "detect_merge cfg (r # raws) (x # news) d =
     (if record_no x = record_no r
      then rbind (offline_detection cfg x d) (\<lambda>d'. detect_merge cfg (r # raws) news d')
      else rbind (offline_detection cfg r d) (\<lambda>d'. detect_merge cfg raws (x # news) d'))"
  by pat_completeness auto
termination
  by (relation "measure (\<lambda>(cfg, raws, news, d). length raws + length news)") auto

definition detect_main ::
  "detect_config \<Rightarrow> Record list \<Rightarrow> Record list option \<Rightarrow> detector result" where
  "detect_main cfg raw_file new_file =
     (if raw_file = [] then Inr init_detector
      else case new_file of
        Some (x # xs) \<Rightarrow>
          detect_merge cfg raw_file (set_insert_all record_less (x # xs) []) init_detector
      | _ \<Rightarrow> rfold (offline_detection cfg) raw_file init_detector)"

end
