(* ===== verification/Detect_Cell.thy ===== *)
theory Detect_Cell
  imports Tool_Detect
begin

text \<open>
  What the detector's bookkeeping for one address means. The specification looks at the whole
  history of accesses to the address: \<open>shared\<close> (two threads), \<open>written\<close> (some write),
  \<open>candidate\<close> (the locks held at every access). \<open>cell_ok\<close> ties the stored record set,
  state and lockset to the history; \<open>core_detection\<close> keeps it and never trips an assertion.
\<close>

section \<open>Specification over histories\<close>

definition shared :: "Record list \<Rightarrow> bool" where
  "shared h \<longleftrightarrow> (\<exists>r\<in>set h. \<exists>s\<in>set h. thread_id r \<noteq> thread_id s)"

definition written :: "Record list \<Rightarrow> bool" where
  "written h \<longleftrightarrow> (\<exists>r\<in>set h. is_write r = 1)"

definition candidate :: "Record list \<Rightarrow> ptr set" where
  "candidate h = (\<Inter>r\<in>set h. locks r)"

definition racy :: "Record list \<Rightarrow> bool" where
  "racy h \<longleftrightarrow> shared h \<and> written h \<and> candidate h = {}"

text \<open>
  The accesses at which the code looks at the lockset: all but the first access of a further
  thread to a location that is already shared and written.
\<close>

definition looks :: "Record list \<Rightarrow> Record \<Rightarrow> bool" where
  "looks h r \<longleftrightarrow> \<not> (shared h \<and> written h \<and> thread_id r \<notin> thread_id ` set h)"

definition reported :: "Record list \<Rightarrow> bool" where
  "reported h \<longleftrightarrow> (\<exists>h1 r h2. h = h1 @ r # h2 \<and> racy (h1 @ [r]) \<and> looks h1 r)"

lemma shared_threads: "shared h \<longleftrightarrow> (\<exists>t\<in>thread_id ` set h. \<exists>u\<in>thread_id ` set h. t \<noteq> u)"
  by (simp add: shared_def)

lemma shared_new_thread: "h \<noteq> [] \<Longrightarrow> thread_id r \<notin> thread_id ` set h \<Longrightarrow> shared (h @ [r])"
  by (cases h) (auto simp: shared_def)

lemma shared_old_thread:
  assumes "thread_id r \<in> thread_id ` set h"
  shows "shared (h @ [r]) \<longleftrightarrow> shared h"
proof -
  have "thread_id ` set (h @ [r]) = thread_id ` set h"
    using assms by (simp add: insert_absorb)
  then show ?thesis unfolding shared_threads by (simp only:)
qed

lemma written_snoc: "written (h @ [r]) \<longleftrightarrow> written h \<or> is_write r = 1"
  by (auto simp: written_def)

lemma candidate_snoc: "h \<noteq> [] \<Longrightarrow> candidate (h @ [r]) = candidate h \<inter> locks r"
  by (auto simp: candidate_def)

lemma candidate_single: "candidate [r] = locks r"
  by (simp add: candidate_def)

lemma racy_extend: "racy h \<Longrightarrow> racy (h @ h')"
  by (auto simp: racy_def shared_def written_def candidate_def)

lemma reported_snoc: "reported (h @ [r]) \<longleftrightarrow> reported h \<or> racy (h @ [r]) \<and> looks h r"
proof
  assume "reported (h @ [r])"
  then obtain h1 x h2 where a: "h @ [r] = h1 @ x # h2" "racy (h1 @ [x])" "looks h1 x"
    by (auto simp: reported_def)
  show "reported h \<or> racy (h @ [r]) \<and> looks h r"
  proof (cases h2 rule: rev_cases)
    case Nil
    with a show ?thesis by simp
  next
    case (snoc h2' y)
    with a(1) have "h = h1 @ x # h2'" by simp
    with a(2,3) show ?thesis by (auto simp: reported_def)
  qed
next
  assume "reported h \<or> racy (h @ [r]) \<and> looks h r"
  then show "reported (h @ [r])"
  proof
    assume "reported h"
    then obtain h1 x h2 where "h = h1 @ x # h2" "racy (h1 @ [x])" "looks h1 x"
      by (auto simp: reported_def)
    then show ?thesis unfolding reported_def by (intro exI [of _ h1] exI [of _ x] exI [of _ "h2 @ [r]"]) simp
  qed (auto simp: reported_def)
qed

lemma reported_racy: "reported h \<Longrightarrow> racy h"
  using racy_extend by (fastforce simp: reported_def)

lemma not_reported_single: "\<not> reported [r]"
  using reported_racy [of "[r]"] by (auto simp: racy_def shared_def)

section \<open>Record sets\<close>

text \<open>
  \<open>compatible\<close>: an access that the order of records cannot tell from an earlier one is by the
  same thread. It holds for the logs of the library, where a record number belongs to one
  record of one thread and the records the Mao pass adds keep the number and the thread of the
  record they come from.
\<close>

definition compatible :: "Record list \<Rightarrow> Record \<Rightarrow> bool" where
  "compatible h r \<longleftrightarrow>
     (\<forall>s\<in>set h. record_no s = record_no r \<and> pip s = pip r \<longrightarrow> thread_id s = thread_id r)"

definition access_ok :: "Record \<Rightarrow> bool" where
  "access_ok r \<longleftrightarrow> layout_ok r \<and> lock_count r \<le> 10 \<and> (is_write r = 0 \<or> is_write r = 1)"

definition set_ok :: "Record list \<Rightarrow> Record list \<Rightarrow> bool" where
  "set_ok h rs \<longleftrightarrow>
     sorted_wrt record_less rs \<and> distinct (map thread_id rs) \<and> set rs \<subseteq> set h \<and>
     thread_id ` set rs = thread_id ` set h \<and> (written h \<longrightarrow> written rs)"

lemma insert_record:
  assumes "sorted_wrt record_less rs" and "distinct (map thread_id rs)"
    and "thread_id r \<notin> thread_id ` set rs" and "compatible rs r"
  shows "sorted_wrt record_less (set_insert record_less r rs)"
    and "distinct (map thread_id (set_insert record_less r rs))"
    and "set (set_insert record_less r rs) = insert r (set rs)"
proof -
  have "mset (set_insert record_less r rs) = add_mset r (mset rs)"
    using assms(3,4) by (intro rec_order.set_insert_fresh) (metis compatible_def equivalent_record image_eqI)
  then have m: "mset (set_insert record_less r rs) = mset (r # rs)" by simp
  show "sorted_wrt record_less (set_insert record_less r rs)"
    using assms(1) by (rule rec_order.sorted_set_insert)
  from m have "mset (map thread_id (set_insert record_less r rs)) = mset (map thread_id (r # rs))"
    by (metis mset_map)
  with assms(2,3) show "distinct (map thread_id (set_insert record_less r rs))"
    by (metis distinct.simps(2) list.simps(9) list.set_map mset_eq_imp_distinct_iff)
  from m show "set (set_insert record_less r rs) = insert r (set rs)"
    by (metis list.simps(15) mset_eq_setD)
qed

lemma compatible_mono: "compatible h r \<Longrightarrow> set rs \<subseteq> set h \<Longrightarrow> compatible rs r"
  by (auto simp: compatible_def)

lemma found_iff:
  "set_includes_thread_id rs t \<noteq> length rs \<longleftrightarrow> t \<in> thread_id ` set rs"
  by (auto simp: set_includes_thread_id_def find_index_eq_length)

lemma set_ok_insert:
  assumes "set_ok h rs" and "compatible h r" and "thread_id r \<notin> thread_id ` set h"
  shows "set_ok (h @ [r]) (set_insert record_less r rs)"
proof -
  have "compatible rs r"
    using assms(1,2) by (auto simp: set_ok_def intro: compatible_mono)
  moreover have "sorted_wrt record_less rs" and "distinct (map thread_id rs)"
    and "thread_id r \<notin> thread_id ` set rs"
    using assms(1,3) by (simp_all add: set_ok_def)
  ultimately have "sorted_wrt record_less (set_insert record_less r rs)"
    and "distinct (map thread_id (set_insert record_less r rs))"
    and "set (set_insert record_less r rs) = insert r (set rs)"
    by (simp_all add: insert_record)
  with assms(1) show ?thesis
    by (auto simp: set_ok_def written_def)
qed

lemma set_ok_replace:
  assumes "set_ok h rs" and "compatible h r" and "thread_id r \<in> thread_id ` set h"
    and "written h \<Longrightarrow> is_write r = 1"
  shows "set_ok (h @ [r]) (set_insert record_less r (erase_at (set_includes_thread_id rs (thread_id r)) rs))"
proof -
  from assms(1,3) have "set_includes_thread_id rs (thread_id r) \<noteq> length rs"
    by (simp add: found_iff set_ok_def)
  then obtain us x vs where rs: "rs = us @ x # vs" and i: "set_includes_thread_id rs (thread_id r) = length us"
    and x: "thread_id x = thread_id r"
    unfolding set_includes_thread_id_def by (elim find_index_split) auto
  let ?rest = "us @ vs"
  from assms(1) have s: "sorted_wrt record_less ?rest" and d: "distinct (map thread_id ?rest)"
    and n: "thread_id r \<notin> thread_id ` set ?rest" and sub: "set ?rest \<subseteq> set h"
    by (auto simp: set_ok_def rs sorted_wrt_append x [symmetric])
  have "compatible ?rest r"
    using assms(2) sub by (rule compatible_mono)
  note ins = insert_record [OF s d n this]
  have "set_insert record_less r (erase_at (set_includes_thread_id rs (thread_id r)) rs)
      = set_insert record_less r ?rest"
    unfolding i by (simp add: rs erase_at_split)
  moreover have "set_ok (h @ [r]) (set_insert record_less r ?rest)"
    unfolding set_ok_def
  proof (intro conjI impI)
    show "thread_id ` set (set_insert record_less r ?rest) = thread_id ` set (h @ [r])"
      using assms(1,3) by (auto simp: ins(3) set_ok_def rs x)
    show "written (set_insert record_less r ?rest)" if "written (h @ [r])"
      using that assms(4) by (auto simp: written_def ins(3))
  qed (use ins sub in auto)
  ultimately show ?thesis by (simp only:)
qed

lemma set_ok_keep:
  assumes "set_ok h rs" and "thread_id r \<in> thread_id ` set h" and "is_write r = 1 \<Longrightarrow> written rs"
  shows "set_ok (h @ [r]) rs"
  using assms by (auto simp: set_ok_def written_snoc)

lemma set_ok_length:
  assumes "set_ok h rs" and "h \<noteq> []"
  shows "length rs = 1 \<longleftrightarrow> \<not> shared h" and "1 < length rs \<longleftrightarrow> shared h"
proof -
  have len: "length rs = card (thread_id ` set h)"
    using assms(1) by (metis distinct_card length_map list.set_map set_ok_def)
  have fin: "finite (thread_id ` set h)" and ne: "thread_id ` set h \<noteq> {}"
    using assms(2) by auto
  have "card (thread_id ` set h) = 1 \<longleftrightarrow> \<not> shared h"
  proof
    assume "card (thread_id ` set h) = 1"
    then obtain t where "thread_id ` set h = {t}" by (auto simp: card_1_singleton_iff)
    then have "thread_id x = t" if "x \<in> set h" for x using that by blast
    then show "\<not> shared h" by (auto simp: shared_def)
  next
    assume a: "\<not> shared h"
    from assms(2) have "hd h \<in> set h" by simp
    with a have "thread_id ` set h = {thread_id (hd h)}"
      unfolding shared_threads by blast
    then show "card (thread_id ` set h) = 1" by simp
  qed
  moreover have "0 < card (thread_id ` set h)"
    using fin ne by (simp add: card_gt_0_iff)
  ultimately show "length rs = 1 \<longleftrightarrow> \<not> shared h" and "1 < length rs \<longleftrightarrow> shared h"
    unfolding len by linarith+
qed

section \<open>One step of the state machine\<close>

definition state_of :: "bool \<Rightarrow> bool \<Rightarrow> int" where
  "state_of sh wr = (if sh then (if wr then 3 else 2) else (if wr then 1 else 0))"

definition cell_ok :: "Record list \<Rightarrow> Record list \<Rightarrow> int \<Rightarrow> ptr list \<Rightarrow> bool" where
  "cell_ok h rs st ls \<longleftrightarrow>
     h \<noteq> [] \<and> sorted_wrt (<) ls \<and> set ls = candidate h \<and>
     (if reported h then st = 4 \<and> 1 < length rs else st = state_of (shared h) (written h) \<and> set_ok h rs)"

lemma cell_ok_state:
  "cell_ok h rs st ls \<Longrightarrow> st = (if reported h then 4 else state_of (shared h) (written h))"
  by (auto simp: cell_ok_def split: if_splits)

lemma cell_ok_single:
  assumes "access_ok r"
  shows "cell_ok [r] [r] (is_write r) (set_insert_all (<) (take (nat (lock_count r)) (lockset r)) [])"
  using assms ptr_order.sorted_set_insert_all [of "[]" "take (nat (lock_count r)) (lockset r)"]
  by (auto simp: cell_ok_def candidate_single locks_def container_simps not_reported_single
      state_of_def shared_def written_def access_ok_def set_ok_def)

lemmas case_shared = shared_new_thread shared_old_thread

lemma switch_unreported:
  assumes ok: "set_ok h rs" and h: "h \<noteq> []" and st: "st = state_of (shared h) (written h)"
    and c: "compatible h r" and w: "is_write r = 0 \<or> is_write r = 1"
  shows "\<exists>rs' may. detection_switch r rs st = Inr (may, rs', state_of (shared (h @ [r])) (written (h @ [r])))
    \<and> set_ok (h @ [r]) rs' \<and> (shared (h @ [r]) \<and> written (h @ [r]) \<longrightarrow> may = looks h r)"
proof (cases "thread_id r \<in> thread_id ` set h")
  case new: False
  have sh: "shared (h @ [r])" using shared_new_thread [OF h new] .
  have ni: "set_includes_thread_id rs (thread_id r) = length rs"
    using found_iff [of rs "thread_id r"] new ok by (simp add: set_ok_def)
  have "set_ok (h @ [r]) (set_insert record_less r rs)"
    using ok c new by (rule set_ok_insert)
  with new sh ni w show ?thesis
    using set_ok_length [OF ok h] st
    by (cases "shared h"; cases "written h")
      (auto simp: detection_switch_def state_of_def written_snoc looks_def Let_def)
next
  case old: True
  have sh: "shared (h @ [r]) = shared h" using shared_old_thread [OF old] .
  have fi: "set_includes_thread_id rs (thread_id r) \<noteq> length rs"
    using found_iff [of rs "thread_id r"] old ok by (simp add: set_ok_def)
  have rep: "set_ok (h @ [r]) (set_insert record_less r (erase_at (set_includes_thread_id rs (thread_id r)) rs))"
    if "written h \<Longrightarrow> is_write r = 1"
    using ok c old that by (rule set_ok_replace)
  have keep: "set_ok (h @ [r]) rs" if "is_write r \<noteq> 1"
    using that by (intro set_ok_keep [OF ok old]) simp
  show ?thesis
    using old sh fi w set_ok_length [OF ok h] st rep keep
    by (cases "shared h"; cases "written h"; cases "is_write r = 1")
      (auto simp: detection_switch_def state_of_def written_snoc looks_def Let_def)
qed

lemma switch_reported:
  assumes "1 < length rs"
  shows "detection_switch r rs 4 = Inr (False, rs, 4)"
  using assms by (simp add: detection_switch_def Let_def)

lemma held_locks:
  assumes "access_ok r"
  shows "array_prefix (lockset r) (lock_count r) = Inr (take (nat (lock_count r)) (lockset r))"
  using assms by (simp add: access_ok_def layout_ok_def array_prefix_ok)

lemma intersect_ok:
  fixes r :: Record
  assumes "sorted_wrt (<) ls" and "set ls = candidate h" and "h \<noteq> []"
  defines "ls' \<equiv> set_intersection ls (set_insert_all (<) (take (nat (lock_count r)) (lockset r)) [])"
  shows "sorted_wrt (<) ls'" and "set ls' = candidate (h @ [r])"
  using assms ptr_order.sorted_set_insert_all [of "[]" "take (nat (lock_count r)) (lockset r)"]
  by (auto simp: ls'_def sorted_set_intersection set_set_intersection container_simps candidate_snoc locks_def)

text \<open>
  The step for an address that has a history: no assertion fails, the bookkeeping stays tied to
  the longer history, and a report is made exactly when the history becomes \<open>reported\<close>.
\<close>

lemma core_detection_step:
  assumes "cell_ok h rs st ls" and "access_ok r" and "compatible h r"
  obtains rs' st' ls' where
    "core_detection r rs st ls = Inr (reported (h @ [r]) \<and> \<not> reported h, rs', st', ls')"
    and "cell_ok (h @ [r]) rs' st' ls'"
    and "reported h \<or> set_ok (h @ [r]) rs'"
proof -
  define ls' where "ls' = set_intersection ls (set_insert_all (<) (take (nat (lock_count r)) (lockset r)) [])"
  have h: "h \<noteq> []" and w: "is_write r = 0 \<or> is_write r = 1"
    and l: "sorted_wrt (<) ls'" "set ls' = candidate (h @ [r])"
    using assms intersect_ok [of ls h r] by (auto simp: cell_ok_def access_ok_def ls'_def)
  have nil: "ls' = [] \<longleftrightarrow> candidate (h @ [r]) = {}"
    using l(2) by auto
  show thesis
  proof (cases "reported h")
    case True
    then have rep: "st = 4" "1 < length rs" "reported (h @ [r])"
      using assms(1) by (auto simp: cell_ok_def reported_snoc)
    then have "core_detection r rs st ls = Inr (False, rs, 4, ls')"
      using held_locks [OF assms(2)] by (simp add: core_detection_def switch_reported ls'_def)
    with True rep l show thesis
      by (intro that [of rs 4 ls']) (simp_all add: cell_ok_def)
  next
    case False
    then have st: "st = state_of (shared h) (written h)" and ok: "set_ok h rs"
      using assms(1) by (auto simp: cell_ok_def)
    obtain rs' may where sw: "detection_switch r rs st = Inr (may, rs', state_of (shared (h @ [r])) (written (h @ [r])))"
      and ok': "set_ok (h @ [r]) rs'"
      and may: "shared (h @ [r]) \<and> written (h @ [r]) \<longrightarrow> may = looks h r"
      using switch_unreported [OF ok h st assms(3) w] by blast
    have three: "state_of a b = 3 \<longleftrightarrow> a \<and> b" for a b by (simp add: state_of_def)
    have rep: "reported (h @ [r]) \<longleftrightarrow> may \<and> state_of (shared (h @ [r])) (written (h @ [r])) = 3 \<and> ls' = []"
      using False may nil by (auto simp: reported_snoc racy_def three)
    have "1 < length rs'" if "reported (h @ [r])"
      using that set_ok_length(2) [OF ok'] reported_racy [OF that] by (simp add: racy_def)
    with rep l ok' have "cell_ok (h @ [r]) rs'
        (if reported (h @ [r]) then 4 else state_of (shared (h @ [r])) (written (h @ [r]))) ls'"
      by (auto simp: cell_ok_def)
    moreover have "core_detection r rs st ls = Inr (reported (h @ [r]) \<and> \<not> reported h, rs',
        if reported (h @ [r]) then 4 else state_of (shared (h @ [r])) (written (h @ [r])), ls')"
      using False rep held_locks [OF assms(2)] by (auto simp: core_detection_def sw ls'_def Let_def)
    ultimately show thesis using ok' by (intro that disjI2)
  qed
qed

end
