(* ===== verification/Detect_Run.thy ===== *)
theory Detect_Run
  imports Detect_Cell
begin

text \<open>
  The detector as a whole. Its specification \<open>spec_state\<close> keeps, for every address, the
  history of accesses since the memory there was last freed; \<open>sim\<close> relates it to the four maps
  of the code. Every record keeps the two related, and on a log that the library can have
  written no record stops the detector.
\<close>

section \<open>Specification\<close>

record spec_state =
  history :: "ptr \<Rightarrow> Record list"
  heap_size :: "ptr \<Rightarrow> int"
  warnings :: int

definition init_spec :: spec_state where
  "init_spec = \<lparr>history = (\<lambda>_. []), heap_size = (\<lambda>_. 0), warnings = 0\<rparr>"

definition freed_size :: "Record \<Rightarrow> spec_state \<Rightarrow> int" where
  "freed_size r s = (if alloc_size r = 0 then heap_size s (start_address r) else alloc_size r)"

definition forget :: "ptr \<Rightarrow> ptr \<Rightarrow> (ptr \<Rightarrow> Record list) \<Rightarrow> ptr \<Rightarrow> Record list" where
  "forget lo hi h = (\<lambda>a. if lo \<le> a \<and> a < hi then [] else h a)"

definition spec_access :: "Record \<Rightarrow> spec_state \<Rightarrow> spec_state" where
  "spec_access r s =
     (let a = memory_address r; h = history s a; h' = h @ [r]
      in s\<lparr>history := (history s)(a := h'),
           warnings := warnings s + (if reported h' \<and> \<not> reported h then 1 else 0)\<rparr>)"

definition spec_step :: "bool \<Rightarrow> Record \<Rightarrow> spec_state \<Rightarrow> spec_state" where
  "spec_step reuse r s =
     (if is_access r then spec_access r s
      else if record_type r = MEMORY_ALLOC \<and> reuse then
        (if is_alloc r \<noteq> 0 then s\<lparr>heap_size := (heap_size s)(start_address r := alloc_size r)\<rparr>
         else if start_address r = 0 then s
         else s\<lparr>history := forget (start_address r)
                  (start_address r + word_of_int (freed_size r s)) (history s)\<rparr>)
      else s)"

section \<open>Simulation relation\<close>

fun cell_sim :: "Record list \<Rightarrow> Record list option \<Rightarrow> int option \<Rightarrow> ptr list option \<Rightarrow> bool" where
  "cell_sim h (Some rs) (Some st) (Some ls) = cell_ok h rs st ls"
| "cell_sim h None None None = (h = [])"
| "cell_sim h _ _ _ = False"

definition maps_sorted :: "detector \<Rightarrow> bool" where
  "maps_sorted d \<longleftrightarrow> sorted_keys (global_record_set_map d) \<and> sorted_keys (rw_map d) \<and>
     sorted_keys (lockset_map d) \<and> sorted_keys (heap_map d)"

definition sim :: "detector \<Rightarrow> spec_state \<Rightarrow> bool" where
  "sim d s \<longleftrightarrow> maps_sorted d \<and>
     (\<forall>a. cell_sim (history s a) (map_of (global_record_set_map d) a) (map_of (rw_map d) a)
            (map_of (lockset_map d) a)) \<and>
     (\<forall>a. heap_size s a = (case map_of (heap_map d) a of None \<Rightarrow> 0 | Some z \<Rightarrow> z)) \<and>
     warning_count d = warnings s"

lemma sim_init: "sim init_detector init_spec"
  by (simp add: sim_def maps_sorted_def init_detector_def init_spec_def)

lemma cell_sim_cases:
  assumes "cell_sim h g w l"
  obtains "h = []" "g = None" "w = None" "l = None"
  | rs st ls where "g = Some rs" "w = Some st" "l = Some ls" "cell_ok h rs st ls" "h \<noteq> []"
  using assms by (cases "(h, g, w, l)" rule: cell_sim.cases) (auto simp: cell_ok_def)

text \<open>Storing the three entries of an address.\<close>

abbreviation put_cell :: "ptr \<Rightarrow> Record list \<Rightarrow> int \<Rightarrow> ptr list \<Rightarrow> detector \<Rightarrow> detector" where
  "put_cell a rs st ls d \<equiv> d\<lparr>global_record_set_map := map_assign a rs (global_record_set_map d),
     rw_map := map_assign a st (rw_map d), lockset_map := map_assign a ls (lockset_map d)\<rparr>"

lemma sim_store:
  assumes "sim d s" and "cell_ok h rs st ls"
  shows "sim ((put_cell a rs st ls d)\<lparr>warning_count := wc, output_text := otext\<rparr>)
             (s\<lparr>history := (history s)(a := h), warnings := wc\<rparr>)"
  using assms by (auto simp: sim_def maps_sorted_def pm.look_store pm.wf_store)

section \<open>Reports\<close>

text \<open>
  \<open>addr2line\<close> answers with at least one line, of less than 1999 characters.
\<close>

definition addr2line_ok :: "detect_config \<Rightarrow> bool" where
  "addr2line_ok cfg \<longleftrightarrow>
     (\<forall>addr. \<exists>line rest. shell cfg (addr2line_command cfg addr) = Some (line @ nl # rest) \<and>
        nl \<notin> set line \<and> CHR 0x00 \<notin> set line \<and> length line < 1999)"

definition printable :: "Record \<Rightarrow> bool" where
  "printable r \<longleftrightarrow> layout_ok r \<and> lock_count r \<le> 10 \<and> trace_depth r \<le> 10"

lemma get_filename_total:
  assumes "addr2line_ok cfg"
  shows "\<exists>f. get_filename cfg addr buffer = Inr f"
proof -
  obtain line rest where l: "shell cfg (addr2line_command cfg addr) = Some (line @ nl # rest)"
    and n: "nl \<notin> set line" "CHR 0x00 \<notin> set line" "length line < 1999"
    using assms unfolding addr2line_ok_def by blast
  have "fgets 2000 (line @ nl # rest) = Some (line @ [nl], rest)"
    using n by (intro fgets_line) simp_all
  moreover have "c_str (line @ [nl]) = line @ [nl]"
    using n by (intro c_str_id) simp
  ultimately show ?thesis by (simp add: get_filename_def l)
qed

lemma report_stack_total:
  "addr2line_ok cfg \<Longrightarrow> \<exists>p. report_stack cfg sites f out = Inr p"
proof (induction sites arbitrary: f out)
  case (Cons site sites)
  from get_filename_total [OF Cons.prems] obtain g where "get_filename cfg site (Some f) = Inr g"
    by blast
  with Cons show ?case by simp
qed simp

lemma report_access_total:
  assumes "addr2line_ok cfg" and "printable r"
  shows "\<exists>p. report_access cfg i r f = Inr p"
proof -
  obtain g where "get_filename cfg (pip r) f = Inr g"
    using get_filename_total [OF assms(1)] by blast
  with assms report_stack_total show ?thesis
    by (simp add: report_access_def printable_def layout_ok_def array_prefix_ok)
qed

lemma report_accesses_total:
  "addr2line_ok cfg \<Longrightarrow> \<forall>r\<in>set rs. printable r \<Longrightarrow> \<exists>t. report_accesses cfg i rs f out = Inr t"
proof (induction rs arbitrary: i f out)
  case (Cons r rs)
  then obtain p where "report_access cfg i r f = Inr p"
    using report_access_total by (metis list.set_intros(1))
  with Cons show ?case by (cases p) simp
qed simp

lemma report_error_total:
  assumes "addr2line_ok cfg" and "\<forall>r\<in>set rs. printable r"
  shows "\<exists>d'. report_error cfg rs a d = Inr d'"
proof -
  have "\<exists>t. report_accesses cfg 1 rs None out = Inr t" for out
    using assms by (rule report_accesses_total)
  then show ?thesis by (simp add: report_error_def Let_def)
qed

lemma report_error_frame:
  assumes "report_error cfg rs a d = Inr d'"
  obtains otext where "d' = d\<lparr>warning_count := warning_count d + 1, output_text := otext\<rparr>"
  using assms by (auto simp: report_error_def Let_def)

section \<open>Memory accesses\<close>

lemma detect_access_new:
  assumes "sim d s" and "history s (memory_address r) = []" and "access_ok r"
  shows "detect_access cfg r d =
    Inr (d\<lparr>global_record_set_map := map_assign (memory_address r) [r]
              (map_assign (memory_address r) [] (global_record_set_map d)),
           lockset_map := map_assign (memory_address r)
              (set_insert_all (<) (take (nat (lock_count r)) (lockset r)) [])
              (map_assign (memory_address r) [] (lockset_map d)),
           rw_map := map_assign (memory_address r) (is_write r)
              (map_assign (memory_address r) 0 (rw_map d))\<rparr>)"
proof -
  from assms(1,2) have "map_of (global_record_set_map d) (memory_address r) = None"
    and "map_of (rw_map d) (memory_address r) = None"
    and "map_of (lockset_map d) (memory_address r) = None"
    by (auto simp: sim_def cell_ok_def elim!: allE [of _ "memory_address r"] elim: cell_sim_cases)
  with assms(1) held_locks [OF assms(3)] show ?thesis
    by (simp add: detect_access_def sim_def maps_sorted_def pm.try_insert_absent Let_def)
qed

lemma detect_access_old:
  assumes "sim d s" and "history s (memory_address r) \<noteq> []" and "access_ok r"
    and "compatible (history s (memory_address r)) r"
  obtains rs' st' ls' where
    "cell_ok (history s (memory_address r) @ [r]) rs' st' ls'"
    and "reported (history s (memory_address r)) \<or> set_ok (history s (memory_address r) @ [r]) rs'"
    and "detect_access cfg r d =
      (if reported (history s (memory_address r) @ [r]) \<and> \<not> reported (history s (memory_address r))
       then report_error cfg rs' (memory_address r) (put_cell (memory_address r) rs' st' ls' d)
       else Inr (put_cell (memory_address r) rs' st' ls' d))"
proof -
  have "cell_sim (history s (memory_address r)) (map_of (global_record_set_map d) (memory_address r))
      (map_of (rw_map d) (memory_address r)) (map_of (lockset_map d) (memory_address r))"
    using assms(1) by (simp add: sim_def)
  then obtain rs st ls where m: "map_of (global_record_set_map d) (memory_address r) = Some rs"
    "map_of (rw_map d) (memory_address r) = Some st" "map_of (lockset_map d) (memory_address r) = Some ls"
    and c: "cell_ok (history s (memory_address r)) rs st ls"
    using assms(2) by (elim cell_sim_cases) auto
  have ins: "map_insert (memory_address r) [] (global_record_set_map d) = (global_record_set_map d, False)"
    "map_insert (memory_address r) 0 (rw_map d) = (rw_map d, False)"
    "map_insert (memory_address r) [] (lockset_map d) = (lockset_map d, False)"
    using assms(1) m by (auto simp: sim_def maps_sorted_def pm.try_insert_present)
  from c assms(3,4) obtain rs' st' ls' where
    "core_detection r rs st ls = Inr (reported (history s (memory_address r) @ [r]) \<and>
        \<not> reported (history s (memory_address r)), rs', st', ls')"
    "cell_ok (history s (memory_address r) @ [r]) rs' st' ls'"
    "reported (history s (memory_address r)) \<or> set_ok (history s (memory_address r) @ [r]) rs'"
    by (rule core_detection_step)
  with m ins show thesis
    by (intro that [of rs' st' ls']) (simp_all add: detect_access_def Let_def)
qed

lemma sim_access:
  assumes "sim d s" and "access_ok r" and "compatible (history s (memory_address r)) r"
    and "detect_access cfg r d = Inr d'"
  shows "sim d' (spec_access r s)"
proof (cases "history s (memory_address r) = []")
  case True
  then have "detect_access cfg r d = Inr d'" and "\<not> reported [r]"
    using assms(4) not_reported_single by auto
  with True detect_access_new [OF assms(1) True assms(2)] cell_ok_single [OF assms(2)] assms(1)
  show ?thesis
    by (auto simp: sim_def spec_access_def maps_sorted_def pm.look_store pm.wf_store Let_def)
next
  case False
  let ?a = "memory_address r" and ?h = "history s (memory_address r)"
  obtain rs' st' ls' where c: "cell_ok (?h @ [r]) rs' st' ls'"
    and run: "detect_access cfg r d =
      (if reported (?h @ [r]) \<and> \<not> reported ?h then report_error cfg rs' ?a (put_cell ?a rs' st' ls' d)
       else Inr (put_cell ?a rs' st' ls' d))"
    using detect_access_old [OF assms(1) False assms(2,3)] by metis
  have store: "sim ((put_cell ?a rs' st' ls' d)\<lparr>warning_count := wc, output_text := otext\<rparr>)
      (s\<lparr>history := (history s)(?a := ?h @ [r]), warnings := wc\<rparr>)" for wc otext
    using assms(1) c by (rule sim_store)
  have wc: "warning_count d = warnings s" using assms(1) by (simp add: sim_def)
  show ?thesis
  proof (cases "reported (?h @ [r]) \<and> \<not> reported ?h")
    case True
    with run assms(4) obtain otext where "d' = (put_cell ?a rs' st' ls' d)\<lparr>warning_count := warning_count d + 1, output_text := otext\<rparr>"
      using report_error_frame [of cfg rs' ?a "put_cell ?a rs' st' ls' d" d'] by auto
    with store [where wc = "warning_count d + 1" and otext = otext] True wc show ?thesis by (simp add: spec_access_def Let_def)
  next
    case no: False
    then have "d' = (put_cell ?a rs' st' ls' d)\<lparr>warning_count := warning_count d, output_text := output_text d\<rparr>"
      using run assms(4) by (simp split: if_splits)
    with store [where wc = "warning_count d" and otext = "output_text d"] no wc show ?thesis
      by (auto simp: spec_access_def Let_def)
  qed
qed

section \<open>Memory management\<close>

lemma forget_empty [simp]: "forget a a h = h"
  by (auto simp: forget_def fun_eq_iff)

lemma sim_delete:
  assumes "sim d s" and "delete_map_entries lo hi d = Inr d'"
  shows "sim d' (s\<lparr>history := forget lo hi (history s)\<rparr>)"
proof -
  obtain lm gm rm where m: "map_erase_range lo hi (lockset_map d) = Inr lm"
    "map_erase_range lo hi (global_record_set_map d) = Inr gm"
    "map_erase_range lo hi (rw_map d) = Inr rm"
    and d': "d' = d\<lparr>lockset_map := lm, global_record_set_map := gm, rw_map := rm\<rparr>"
    using assms(2) by (auto simp: delete_map_entries_def)
  have s: "sorted_keys (lockset_map d)" "sorted_keys (global_record_set_map d)" "sorted_keys (rw_map d)"
    using assms(1) by (auto simp: sim_def maps_sorted_def)
  have "map_of lm = (\<lambda>a. if lo \<le> a \<and> a < hi then None else map_of (lockset_map d) a)"
    and "map_of gm = (\<lambda>a. if lo \<le> a \<and> a < hi then None else map_of (global_record_set_map d) a)"
    and "map_of rm = (\<lambda>a. if lo \<le> a \<and> a < hi then None else map_of (rw_map d) a)"
    using s m by (auto intro: pm.look_erase)
  moreover have "sorted_keys lm" "sorted_keys gm" "sorted_keys rm"
    using s m by (auto intro: pm.wf_erase)
  ultimately show ?thesis
    using assms(1) by (simp add: sim_def maps_sorted_def forget_def d')
qed

lemma delete_total:
  assumes "sim d s" and "lo \<le> hi"
  shows "\<exists>d'. delete_map_entries lo hi d = Inr d'"
proof -
  have "\<exists>m. map_erase_range lo hi (lockset_map d) = Inr m"
    and "\<exists>m. map_erase_range lo hi (global_record_set_map d) = Inr m"
    and "\<exists>m. map_erase_range lo hi (rw_map d) = Inr m"
    using assms by (auto simp: sim_def maps_sorted_def intro!: pm.erase_total)
  then show ?thesis by (auto simp: delete_map_entries_def)
qed

text \<open>
  A record that gives memory back behaves as if its size had been looked up first; the
  \<open>heap_map\<close> entry the look-up may create stands for the size 0 it had before.
\<close>

lemma detect_alloc_free:
  assumes "sim d s" and "is_alloc r = 0" and "start_address r \<noteq> 0"
  obtains d0 where "sim d0 s"
    and "detect_alloc r d =
      (if freed_size r s = 0 then Inr d0
       else delete_map_entries (start_address r) (start_address r + word_of_int (freed_size r s)) d0)"
proof (cases "alloc_size r = 0")
  case False
  with assms show thesis
    by (intro that [of d]) (simp_all add: detect_alloc_def freed_size_def Let_def)
next
  case True
  let ?a = "start_address r"
  have s: "sorted_keys (heap_map d)" and hs: "heap_size s ?a = (case map_of (heap_map d) ?a of None \<Rightarrow> 0 | Some z \<Rightarrow> z)"
    using assms(1) by (auto simp: sim_def maps_sorted_def)
  show thesis
  proof (cases "map_of (heap_map d) ?a")
    case None
    have "sim (d\<lparr>heap_map := map_assign ?a 0 (heap_map d)\<rparr>) s"
      using assms(1) None s by (auto simp: sim_def maps_sorted_def pm.look_store pm.wf_store)
    with True None assms s hs show thesis
      by (intro that) (simp_all add: detect_alloc_def freed_size_def Let_def pm.try_insert_absent pm.look_store)
  next
    case (Some z)
    with True assms s hs show thesis
      by (intro that [of d]) (simp_all add: detect_alloc_def freed_size_def Let_def pm.try_insert_present)
  qed
qed

lemma sim_alloc:
  assumes "sim d s" and "record_type r = MEMORY_ALLOC" and "detect_alloc r d = Inr d'"
  shows "sim d' (spec_step True r s)"
proof -
  have na: "\<not> is_access r" using assms(2) by (simp add: is_access_def)
  consider (alloc) "is_alloc r \<noteq> 0" | (null) "is_alloc r = 0" "start_address r = 0"
    | (free) "is_alloc r = 0" "start_address r \<noteq> 0" by blast
  then show ?thesis
  proof cases
    case alloc
    with assms na show ?thesis
      by (auto simp: detect_alloc_def spec_step_def sim_def maps_sorted_def pm.look_store pm.wf_store Let_def)
  next
    case null
    with assms na show ?thesis by (simp add: detect_alloc_def spec_step_def Let_def)
  next
    case free
    then obtain d0 where "sim d0 s" and "detect_alloc r d =
      (if freed_size r s = 0 then Inr d0
       else delete_map_entries (start_address r) (start_address r + word_of_int (freed_size r s)) d0)"
      using detect_alloc_free [OF assms(1)] by metis
    with assms(2,3) free na show ?thesis
      by (auto simp: spec_step_def intro: sim_delete split: if_splits)
  qed
qed

section \<open>Runs\<close>

definition record_ok :: "Record \<Rightarrow> bool" where
  "record_ok r \<longleftrightarrow>
     (is_access r \<longrightarrow> access_ok r \<and> trace_depth r \<le> 10) \<and>
     (record_type r = MEMORY_ALLOC \<longrightarrow> 0 \<le> alloc_size r \<and> uint (start_address r) + alloc_size r < 2 ^ 64)"

text \<open>
  A log the detector can be run on: records as the library writes them (at most ten locks and
  ten frames, an access is a read or a write, a block lies inside the address space), and no two
  accesses of different threads that the order of records identifies.
\<close>

definition log_ok :: "Record list \<Rightarrow> bool" where
  "log_ok rs \<longleftrightarrow> (\<forall>r\<in>set rs. record_ok r) \<and>
     (\<forall>r\<in>set rs. \<forall>s\<in>set rs. is_access r \<and> is_access s \<and> record_no r = record_no s \<and> pip r = pip s
        \<longrightarrow> thread_id r = thread_id s)"

definition spec_inv :: "Record list \<Rightarrow> spec_state \<Rightarrow> bool" where
  "spec_inv log s \<longleftrightarrow> (\<forall>a. set (history s a) \<subseteq> {r \<in> set log. is_access r} \<and>
     0 \<le> heap_size s a \<and> uint a + heap_size s a < 2 ^ 64)"

lemma spec_inv_init: "spec_inv log init_spec"
  using uint_lt2p [where 'a = 64] by (simp add: spec_inv_def init_spec_def)

lemma log_ok_record: "log_ok log \<Longrightarrow> r \<in> set log \<Longrightarrow> record_ok r"
  unfolding log_ok_def by blast

lemma log_ok_access: "log_ok log \<Longrightarrow> r \<in> set log \<Longrightarrow> is_access r \<Longrightarrow> access_ok r \<and> printable r"
  using log_ok_record [of log r] by (simp add: record_ok_def access_ok_def printable_def)

lemma log_ok_alloc:
  "log_ok log \<Longrightarrow> r \<in> set log \<Longrightarrow> record_type r = MEMORY_ALLOC \<Longrightarrow>
   0 \<le> alloc_size r \<and> uint (start_address r) + alloc_size r < 2 ^ 64"
  using log_ok_record [of log r] by (simp add: record_ok_def)

lemma log_ok_thread:
  "log_ok log \<Longrightarrow> r \<in> set log \<Longrightarrow> s \<in> set log \<Longrightarrow> is_access r \<Longrightarrow> is_access s \<Longrightarrow>
   record_no r = record_no s \<Longrightarrow> pip r = pip s \<Longrightarrow> thread_id r = thread_id s"
  unfolding log_ok_def by blast

lemma spec_inv_history: "spec_inv log s \<Longrightarrow> x \<in> set (history s a) \<Longrightarrow> x \<in> set log \<and> is_access x"
  unfolding spec_inv_def by blast

lemma spec_inv_step:
  assumes "spec_inv log s" and "log_ok log" and "r \<in> set log"
  shows "spec_inv log (spec_step reuse r s)"
proof -
  have "0 \<le> alloc_size r" "uint (start_address r) + alloc_size r < 2 ^ 64" if "record_type r = MEMORY_ALLOC"
    using log_ok_alloc [OF assms(2,3) that] by simp_all
  with assms(1,3) show ?thesis
    by (auto simp: spec_inv_def spec_step_def spec_access_def forget_def Let_def)
qed

lemma spec_inv_compatible:
  "spec_inv log s \<Longrightarrow> log_ok log \<Longrightarrow> r \<in> set log \<Longrightarrow> is_access r \<Longrightarrow> compatible (history s a) r"
  unfolding compatible_def using spec_inv_history log_ok_thread by blast

lemma ptr_add_no_wrap: "0 \<le> z \<Longrightarrow> uint a + z < 2 ^ 64 \<Longrightarrow> a \<le> a + word_of_int z" for a :: ptr
  by (simp add: word_le_def uint_word_ariths uint_word_of_int mod_simps)

lemma offline_sim:
  assumes "sim d s" and "spec_inv log s" and "log_ok log" and "r \<in> set log"
    and "offline_detection cfg r d = Inr d'"
  shows "sim d' (spec_step (enable_memory_reuse cfg) r s)"
proof (cases "is_access r")
  case True
  then have "compatible (history s (memory_address r)) r" and "access_ok r"
    using spec_inv_compatible [OF assms(2-4) True] log_ok_access [OF assms(3,4) True] by simp_all
  with True assms(1,5) show ?thesis
    by (simp add: offline_detection_def is_access_def spec_step_def sim_access)
next
  case False
  show ?thesis
  proof (cases "record_type r = MEMORY_ALLOC \<and> enable_memory_reuse cfg")
    case True
    with assms(5) have "detect_alloc r d = Inr d'" by (simp add: offline_detection_def)
    with True show ?thesis using sim_alloc [OF assms(1)] by simp
  next
    case noalloc: False
    with False assms(5) have "d' = d"
      by (auto simp: offline_detection_def is_access_def split: if_splits)
    with noalloc False assms(1) show ?thesis by (auto simp: spec_step_def)
  qed
qed

lemma access_total:
  assumes "sim d s" and "spec_inv log s" and "log_ok log" and "r \<in> set log" and "addr2line_ok cfg" and acc: "is_access r"
  shows "\<exists>d'. detect_access cfg r d = Inr d'"
proof (cases "history s (memory_address r) = []")
  case True
  then show ?thesis using detect_access_new [OF assms(1)] log_ok_access [OF assms(3,4) acc] by blast
next
  case False
  let ?a = "memory_address r" and ?h = "history s (memory_address r)"
  have c: "compatible ?h r" and a: "access_ok r"
    using spec_inv_compatible [OF assms(2-4) acc] log_ok_access [OF assms(3,4) acc] by simp_all
  obtain rs' st' ls' where ok: "reported ?h \<or> set_ok (?h @ [r]) rs'"
    and run: "detect_access cfg r d =
      (if reported (?h @ [r]) \<and> \<not> reported ?h then report_error cfg rs' ?a (put_cell ?a rs' st' ls' d)
       else Inr (put_cell ?a rs' st' ls' d))"
    using detect_access_old [OF assms(1) False a c] by metis
  have "printable x" if "x \<in> set (?h @ [r])" for x
    using that spec_inv_history [OF assms(2)] log_ok_access [OF assms(3)] assms(4) acc by auto
  then have "\<forall>x\<in>set rs'. printable x" if "\<not> reported ?h" using ok that by (auto simp: set_ok_def)
  then show ?thesis unfolding run using report_error_total [OF assms(5)] by auto
qed

lemma alloc_total:
  assumes "sim d s" and "spec_inv log s" and "log_ok log" and "r \<in> set log" and al: "record_type r = MEMORY_ALLOC"
  shows "\<exists>d'. detect_alloc r d = Inr d'"
proof (cases "is_alloc r = 0 \<and> start_address r \<noteq> 0")
  case True
  then obtain d0 where "sim d0 s" and run: "detect_alloc r d =
      (if freed_size r s = 0 then Inr d0
       else delete_map_entries (start_address r) (start_address r + word_of_int (freed_size r s)) d0)"
    using detect_alloc_free [OF assms(1)] by metis
  moreover have "start_address r \<le> start_address r + word_of_int (freed_size r s)"
    using assms(2) log_ok_alloc [OF assms(3,4) al]
    by (intro ptr_add_no_wrap) (auto simp: freed_size_def spec_inv_def)
  ultimately show ?thesis using delete_total by simp
next
  case False
  then show ?thesis by (auto simp: detect_alloc_def Let_def)
qed

lemma offline_total:
  assumes "sim d s" and "spec_inv log s" and "log_ok log" and "r \<in> set log" and "addr2line_ok cfg"
  shows "\<exists>d'. offline_detection cfg r d = Inr d'"
  using access_total [OF assms] alloc_total [OF assms(1-4)] by (simp add: offline_detection_def is_access_def)

text \<open>Any part of a well-formed log, from related states.\<close>

lemma run_sim:
  assumes "sim d s" and "spec_inv log s" and "log_ok log" and "set rs \<subseteq> set log"
    and "rfold (offline_detection cfg) rs d = Inr d'"
  shows "sim d' (fold (spec_step (enable_memory_reuse cfg)) rs s)"
  using assms
proof (induction rs arbitrary: d s)
  case (Cons r rs)
  then obtain d1 where d1: "offline_detection cfg r d = Inr d1"
    and rest: "rfold (offline_detection cfg) rs d1 = Inr d'" by auto
  have "sim d1 (spec_step (enable_memory_reuse cfg) r s)"
    using Cons.prems d1 by (intro offline_sim) auto
  moreover have "spec_inv log (spec_step (enable_memory_reuse cfg) r s)"
    using Cons.prems by (intro spec_inv_step) auto
  ultimately show ?case
    using Cons.prems rest Cons.IH by simp
qed simp

lemma run_total:
  assumes "sim d s" and "spec_inv log s" and "log_ok log" and "set rs \<subseteq> set log" and "addr2line_ok cfg"
  shows "\<exists>d'. rfold (offline_detection cfg) rs d = Inr d'"
  using assms
proof (induction rs arbitrary: d s)
  case (Cons r rs)
  then obtain d1 where d1: "offline_detection cfg r d = Inr d1"
    using offline_total by (metis list.set_intros(1) subsetD)
  have "sim d1 (spec_step (enable_memory_reuse cfg) r s)"
    using Cons.prems d1 by (intro offline_sim) auto
  moreover have "spec_inv log (spec_step (enable_memory_reuse cfg) r s)"
    using Cons.prems by (intro spec_inv_step) auto
  ultimately show ?case
    using Cons.prems d1 Cons.IH by simp
qed simp

end
