(* ===== verification/Detect_Properties.thy ===== *)
theory Detect_Properties
  imports Detect_Run
begin

text \<open>
  What a user of the detector can rely on, over whole logs: the bookkeeping refines the
  per-address histories, the detector does not abort, a reported location is a race, an
  unprotected shared location is reported unless a further thread made its last access, each
  location is reported once, freed memory starts afresh, and the order in which the two input
  files are merged.
\<close>

section \<open>Logs\<close>

definition accesses :: "Record list \<Rightarrow> ptr \<Rightarrow> Record list" where
  "accesses log a = filter (\<lambda>r. is_access r \<and> memory_address r = a) log"

lemma history_without_reuse:
  "history (fold (spec_step False) log s) a = history s a @ accesses log a"
  by (induction log arbitrary: s)
    (auto simp: accesses_def spec_step_def spec_access_def Let_def)

definition open_warnings :: "spec_state \<Rightarrow> ptr set" where
  "open_warnings s = {a. reported (history s a)}"

lemma warnings_without_reuse:
  "finite (open_warnings s) \<Longrightarrow> warnings s = int (card (open_warnings s)) \<Longrightarrow>
   finite (open_warnings (fold (spec_step False) log s)) \<and>
   warnings (fold (spec_step False) log s) = int (card (open_warnings (fold (spec_step False) log s)))"
proof (induction log arbitrary: s)
  case (Cons r log)
  let ?s = "spec_step False r s" and ?h = "history s (memory_address r)"
  have "finite (open_warnings ?s) \<and> warnings ?s = int (card (open_warnings ?s))"
  proof (cases "is_access r")
    case True
    then have h: "history ?s a = (if a = memory_address r then ?h @ [r] else history s a)" for a
      by (simp add: spec_step_def spec_access_def Let_def)
    have w: "warnings ?s = warnings s + (if reported (?h @ [r]) \<and> \<not> reported ?h then 1 else 0)"
      using True by (simp add: spec_step_def spec_access_def Let_def)
    have "open_warnings ?s = (if reported (?h @ [r]) then insert (memory_address r) (open_warnings s)
        else open_warnings s)"
      using reported_snoc [of ?h r] by (auto simp: open_warnings_def h)
    with w Cons.prems show ?thesis
      using reported_snoc [of ?h r] by (auto simp: open_warnings_def card_insert_if)
  next
    case False
    then have "?s = s" by (simp add: spec_step_def)
    with Cons.prems show ?thesis by simp
  qed
  then show ?case using Cons.IH [of ?s] by simp
qed simp

lemma log_run:
  assumes "log_ok log" and "\<not> enable_memory_reuse cfg"
    and "rfold (offline_detection cfg) log init_detector = Inr d"
  shows "sim d (fold (spec_step False) log init_spec)"
  using run_sim [OF sim_init spec_inv_init assms(1) subset_refl assms(3)] assms(2) by simp

lemma log_run_cell:
  assumes "log_ok log" and "\<not> enable_memory_reuse cfg"
    and "rfold (offline_detection cfg) log init_detector = Inr d"
  shows "cell_sim (accesses log a) (map_of (global_record_set_map d) a) (map_of (rw_map d) a)
    (map_of (lockset_map d) a)"
  using log_run [OF assms] by (simp add: sim_def history_without_reuse init_spec_def)

lemma log_run_status:
  assumes "log_ok log" and "\<not> enable_memory_reuse cfg"
    and "rfold (offline_detection cfg) log init_detector = Inr d"
  shows "map_of (rw_map d) a =
    (if accesses log a = [] then None
     else Some (if reported (accesses log a) then 4
                else state_of (shared (accesses log a)) (written (accesses log a))))"
  using log_run_cell [OF assms, of a]
  by (elim cell_sim_cases) (auto dest: cell_ok_state)

lemma log_run_reported:
  assumes "log_ok log" and "\<not> enable_memory_reuse cfg"
    and "rfold (offline_detection cfg) log init_detector = Inr d"
  shows "map_of (rw_map d) a = Some 4 \<longleftrightarrow> reported (accesses log a)"
proof -
  have "accesses log a \<noteq> []" if "reported (accesses log a)"
    using that by (auto simp: reported_def)
  then show ?thesis
    by (auto simp: log_run_status [OF assms] state_of_def)
qed

lemma log_run_warnings:
  assumes "log_ok log" and "\<not> enable_memory_reuse cfg"
    and "rfold (offline_detection cfg) log init_detector = Inr d"
  shows "warning_count d = int (card {a. reported (accesses log a)})"
proof -
  let ?s = "fold (spec_step False) log init_spec"
  have "open_warnings init_spec = {}"
    by (auto simp: open_warnings_def init_spec_def reported_def)
  then have "warnings ?s = int (card (open_warnings ?s))"
    using warnings_without_reuse [of init_spec log] by (simp add: init_spec_def)
  moreover have "open_warnings ?s = {a. reported (accesses log a)}"
    by (simp add: open_warnings_def history_without_reuse init_spec_def)
  ultimately show ?thesis
    using log_run [OF assms] by (simp add: sim_def)
qed

lemma log_run_locks:
  assumes "log_ok log" and "\<not> enable_memory_reuse cfg"
    and "rfold (offline_detection cfg) log init_detector = Inr d"
  shows "map_of (lockset_map d) a =
    (if accesses log a = [] then None else Some (sorted_list_of_set (candidate (accesses log a))))"
proof -
  have "ls = sorted_list_of_set A" if "sorted_wrt (<) ls" "set ls = A" for ls :: "ptr list" and A
    using that by (auto simp: sorted_list_of_set.idem_if_sorted_distinct strict_sorted_iff)
  then show ?thesis
    using log_run_cell [OF assms, of a] by (elim cell_sim_cases) (auto simp: cell_ok_def)
qed

lemma log_run_sorted:
  assumes "log_ok log" and "\<not> enable_memory_reuse cfg"
    and "rfold (offline_detection cfg) log init_detector = Inr d"
  shows "sorted_keys (rw_map d)" and "sorted_keys (lockset_map d)"
  using log_run [OF assms] by (simp_all add: sim_def maps_sorted_def)

section \<open>Merging two inputs\<close>

text \<open>The records the main loop hands to the detector, in order.\<close>

function schedule :: "Record list \<Rightarrow> Record list \<Rightarrow> Record list" where
  "schedule [] news = []"
| "schedule (r # raws) [] = []"
| "schedule (r # raws) (x # news) =
     (if record_no x = record_no r then x # schedule (r # raws) news else r # schedule raws (x # news))"
  by pat_completeness auto
termination
  by (relation "measure (\<lambda>(raws, news). length raws + length news)") auto

lemma detect_merge_schedule: "detect_merge cfg raws news d = rfold (offline_detection cfg) (schedule raws news) d"
  by (induction cfg raws news d rule: detect_merge.induct) (auto intro: rbind_cong)

lemma set_schedule: "set (schedule raws news) \<subseteq> set raws \<union> set news"
  by (induction raws news rule: schedule.induct) auto

lemma set_new_records: "set (set_insert_all record_less xs s) \<subseteq> set xs \<union> set s"
  unfolding set_insert_all_def
proof (induction xs arbitrary: s)
  case (Cons x xs)
  then show ?case using set_insert_subset [of record_less x s] by fastforce
qed simp

text \<open>
  The share of one raw record: the added records with its number, then the record itself when
  its number is below \<open>m\<close>, the number of the last added record.
\<close>

definition merge_block :: "Record list \<Rightarrow> int \<Rightarrow> Record \<Rightarrow> Record list" where
  "merge_block news m r = filter (\<lambda>x. record_no x = record_no r) news @ (if record_no r < m then [r] else [])"

lemma merge_blocks_skip:
  assumes "\<And>y. y \<in> set raws \<Longrightarrow> record_no x \<noteq> record_no y"
  shows "concat (map (merge_block (x # news) m) raws) = concat (map (merge_block news m) raws)"
  using assms by (intro arg_cong [where f = concat] map_cong) (simp_all add: merge_block_def)

lemma merge_blocks_done:
  assumes "\<And>y. y \<in> set raws \<Longrightarrow> m \<le> record_no y"
  shows "concat (map (merge_block [] m) raws) = []"
  using assms by (fastforce simp: merge_block_def)

text \<open>A raw record that comes before all added ones; one that an added record belongs to.\<close>

lemma merge_block_before:
  assumes "\<And>z. z \<in> set news \<Longrightarrow> record_no r < record_no z" and "news \<noteq> []"
  shows "merge_block news (record_no (last news)) r = [r]"
proof -
  have "filter (\<lambda>z. record_no z = record_no r) news = []" using assms(1) by (fastforce simp: filter_empty_conv)
  then show ?thesis unfolding merge_block_def using assms(1) [of "last news"] assms(2) by simp
qed

lemma merge_blocks_match:
  assumes "record_no x = record_no r" and "\<And>y. y \<in> set raws \<Longrightarrow> record_no r < record_no y"
  shows "concat (map (merge_block (x # news) k) (r # raws)) = x # concat (map (merge_block news k) (r # raws))"
    and "concat (map (merge_block [x] (record_no x)) (r # raws)) = [x]"
proof -
  have skip: "concat (map (merge_block (x # news) k) raws) = concat (map (merge_block news k) raws)" for news k
    using assms by (intro merge_blocks_skip) force
  show "concat (map (merge_block (x # news) k) (r # raws)) = x # concat (map (merge_block news k) (r # raws))"
    using assms(1) by (simp add: skip) (simp add: merge_block_def)
  have "concat (map (merge_block [] (record_no x)) raws) = []" using assms by (intro merge_blocks_done) force
  then show "concat (map (merge_block [x] (record_no x)) (r # raws)) = [x]"
    using assms(1) by (simp add: skip) (simp add: merge_block_def)
qed

lemma schedule_blocks:
  assumes "sorted_wrt (<) (map record_no raws)" and "sorted_wrt (\<le>) (map record_no news)"
    and "news \<noteq> []" and "record_no ` set news \<subseteq> record_no ` set raws"
  shows "schedule raws news = concat (map (merge_block news (record_no (last news))) raws)"
  using assms
proof (induction raws news rule: schedule.induct)
  case (3 r raws x news)
  have later: "record_no r < record_no y" if "y \<in> set raws" for y
    using "3.prems"(1) that by simp
  show ?case
  proof (cases "record_no x = record_no r")
    case True
    show ?thesis
    proof (cases "news = []")
      case Nil: True
      then show ?thesis using merge_blocks_match(2) [OF True later] True by simp
    next
      case False
      have "schedule (r # raws) news = concat (map (merge_block news (record_no (last news))) (r # raws))"
        using "3.prems" False by (intro "3.IH"(1) [OF True]) simp_all
      with True False show ?thesis using merge_blocks_match(1) [OF True later] by simp
    qed
  next
    case False
    with "3.prems"(4) obtain y where "y \<in> set raws" "record_no x = record_no y" by auto
    with later have "record_no r < record_no x" by simp
    then have all: "record_no r < record_no z" if "z \<in> set (x # news)" for z
      using that "3.prems"(2) by fastforce
    then have "record_no ` set (x # news) \<subseteq> record_no ` set raws" using "3.prems"(4) by fastforce
    with "3.prems" have "schedule raws (x # news) =
        concat (map (merge_block (x # news) (record_no (last (x # news)))) raws)"
      by (intro "3.IH"(2) [OF False]) simp_all
    with merge_block_before [of "x # news" r] all False show ?thesis by simp
  qed
qed auto

section \<open>Example logs\<close>

definition sample :: "int \<Rightarrow> int \<Rightarrow> ptr \<Rightarrow> int \<Rightarrow> ptr list \<Rightarrow> Record" where
  "sample no tid a w held = zero_record\<lparr>record_no := no, thread_id := tid, record_type := MEMORY_OP,
     op_word0 := a, op_word1 := 4096, is_write := w, lock_count := int (length held),
     lockset := held @ replicate (10 - length held) 0\<rparr>"

lemma sample_simps [simp]:
  "record_no (sample no tid a w held) = no"
  "thread_id (sample no tid a w held) = tid"
  "record_type (sample no tid a w held) = MEMORY_OP"
  "memory_address (sample no tid a w held) = a"
  "pip (sample no tid a w held) = 4096"
  "is_write (sample no tid a w held) = w"
  "lock_count (sample no tid a w held) = int (length held)"
  "trace_depth (sample no tid a w held) = 0"
  "is_access (sample no tid a w held) \<longleftrightarrow> a \<noteq> 0"
  "locks (sample no tid a w held) = set held"
  "layout_ok (sample no tid a w held) \<longleftrightarrow> length held \<le> 10"
  by (auto simp: sample_def zero_record_def memory_address_def pip_def is_access_def locks_def layout_ok_def)

definition example_config :: "bool \<Rightarrow> detect_config" where
  "example_config reuse = \<lparr>binary = ''app'', enable_memory_reuse = reuse, shell = (\<lambda>_. Some (''??:0'' @ [nl]))\<rparr>"

definition race_log :: "Record list" where
  "race_log = [sample 1 11 64 1 [7], sample 2 12 64 1 [], sample 3 11 64 0 []]"

definition third_thread_log :: "Record list" where
  "third_thread_log = [sample 1 11 64 1 [7], sample 2 12 64 1 [7], sample 3 13 64 1 []]"

lemma addr2line_ok_example: "addr2line_ok (example_config b)"
  unfolding addr2line_ok_def example_config_def
  by (intro allI exI [of _ "''??:0''"] exI [of _ "[]"]) simp

lemma log_ok_race_log: "log_ok race_log"
  by (simp add: log_ok_def race_log_def record_ok_def access_ok_def)

lemma log_ok_third_thread_log: "log_ok third_thread_log"
  by (simp add: log_ok_def third_thread_log_def record_ok_def access_ok_def)

lemma no_reuse_example: "\<not> enable_memory_reuse (example_config False)"
  by (simp add: example_config_def)

lemma race_run: "\<exists>d. rfold (offline_detection (example_config False)) race_log init_detector = Inr d"
  using run_total [OF sim_init spec_inv_init log_ok_race_log subset_refl addr2line_ok_example] .

lemma accesses_race_log: "accesses race_log 64 = race_log"
  by (simp add: accesses_def race_log_def)

lemma third_thread_run:
  "case rfold (offline_detection (example_config False)) third_thread_log init_detector of
     Inl _ \<Rightarrow> False | Inr d \<Rightarrow> warning_count d = 0 \<and> output_text d = []"
  by code_simp

section \<open>Properties\<close>

text \<open>C5: On every well-formed log that the detector gets through, its maps are exactly the
  bookkeeping of the per-address histories, with the memory-reuse filter on or off.\<close>

theorem detector_refines_histories:
  assumes "log_ok log" and "rfold (offline_detection cfg) log init_detector = Inr d"
  shows "sim d (fold (spec_step (enable_memory_reuse cfg)) log init_spec)"
  using assms by (intro run_sim [OF sim_init spec_inv_init _ subset_refl])

theorem detector_refines_histories_witness:
  "\<exists>d. rfold (offline_detection (example_config False)) race_log init_detector = Inr d \<and>
     sim d (fold (spec_step (enable_memory_reuse (example_config False))) race_log init_spec)"
  using race_run detector_refines_histories [OF log_ok_race_log] by blast

text \<open>C8: After a run without the reuse filter, the lockset kept for an address is the set of
  locks that were held at every one of its accesses (the candidate set of Eraser).\<close>

theorem candidate_lockset:
  assumes "log_ok log" and "\<not> enable_memory_reuse cfg"
    and "rfold (offline_detection cfg) log init_detector = Inr d"
    and "map_of (lockset_map d) a = Some ls"
  shows "accesses log a \<noteq> [] \<and> set ls = (\<Inter>r\<in>set (accesses log a). locks r)"
  using log_run_cell [OF assms(1-3), of a] assms(4)
  by (elim cell_sim_cases) (auto simp: cell_ok_def candidate_def)

theorem candidate_lockset_witness:
  "\<exists>d ls. rfold (offline_detection (example_config False)) race_log init_detector = Inr d \<and>
     map_of (lockset_map d) 64 = Some ls \<and> set ls = (\<Inter>r\<in>set (accesses race_log 64). locks r)"
proof -
  obtain d where d: "rfold (offline_detection (example_config False)) race_log init_detector = Inr d"
    using race_run by blast
  have "accesses race_log 64 \<noteq> []" unfolding accesses_race_log by (simp add: race_log_def)
  then obtain ls where "map_of (lockset_map d) 64 = Some ls"
    using log_run_cell [OF log_ok_race_log no_reuse_example d, of 64] by (elim cell_sim_cases) auto
  with d candidate_lockset [OF log_ok_race_log no_reuse_example d] show ?thesis by blast
qed

text \<open>C6: After a run without the reuse filter (no \<open>-m\<close>), a location the detector has
  reported (state 4) was accessed by two threads, was written, and no lock was held at all its
  accesses.\<close>

theorem reported_is_race:
  assumes "log_ok log" and "\<not> enable_memory_reuse cfg"
    and "rfold (offline_detection cfg) log init_detector = Inr d"
    and "map_of (rw_map d) a = Some 4"
  shows "(\<exists>r\<in>set (accesses log a). \<exists>s\<in>set (accesses log a). thread_id r \<noteq> thread_id s) \<and>
    (\<exists>r\<in>set (accesses log a). is_write r = 1) \<and> (\<Inter>r\<in>set (accesses log a). locks r) = {}"
  using reported_racy assms(4)
  by (simp add: log_run_reported [OF assms(1-3)] racy_def shared_def written_def candidate_def)

theorem reported_is_race_witness:
  "\<exists>d. rfold (offline_detection (example_config False)) race_log init_detector = Inr d \<and>
     map_of (rw_map d) 64 = Some 4 \<and> (\<Inter>r\<in>set (accesses race_log 64). locks r) = {}"
proof -
  obtain d where d: "rfold (offline_detection (example_config False)) race_log init_detector = Inr d"
    using race_run by blast
  have "reported race_log"
    unfolding reported_def race_log_def
    by (rule exI [of _ "[sample 1 11 64 1 [7]]"], rule exI [of _ "sample 2 12 64 1 []"],
        rule exI [of _ "[sample 3 11 64 0 []]"])
      (auto simp: racy_def looks_def shared_threads written_def candidate_def)
  then have four: "map_of (rw_map d) 64 = Some 4"
    by (simp add: log_run_reported [OF log_ok_race_log no_reuse_example d] accesses_race_log)
  with d reported_is_race [OF log_ok_race_log no_reuse_example d four] show ?thesis by blast
qed

text \<open>C7: Conversely, in a run without the reuse filter (no \<open>-m\<close>): when two threads accessed
  a location, one of them wrote it and no lock was held at all accesses, then the location has been
  reported, unless its last access is the first one of a further thread to a location that was
  already shared and written. So the location is reported at the access that makes it racy when
  that access is by a thread already seen there, and also when it is the first access of the
  second thread or the first write.\<close>

theorem race_is_reported:
  assumes "log_ok log" and "\<not> enable_memory_reuse cfg"
    and "rfold (offline_detection cfg) log init_detector = Inr d"
    and "accesses log a = h @ [r]"
    and "\<not> (shared h \<and> written h \<and> thread_id r \<notin> thread_id ` set h)"
    and "shared (h @ [r])" and "written (h @ [r])" and "candidate (h @ [r]) = {}"
  shows "map_of (rw_map d) a = Some 4"
  using assms(4-8)
  by (simp add: log_run_reported [OF assms(1-3)] reported_snoc racy_def looks_def)

text \<open>Two accesses: the second thread's first one makes the location racy.\<close>

theorem race_is_reported_witness:
  "\<exists>d. rfold (offline_detection (example_config False)) [sample 1 11 64 1 [7], sample 2 12 64 0 []] init_detector = Inr d \<and>
     map_of (rw_map d) 64 = Some 4"
proof -
  let ?h = "[sample 1 11 64 1 [7]]" and ?r = "sample 2 12 64 0 []"
  have ok: "log_ok [sample 1 11 64 1 [7], ?r]"
    by (simp add: log_ok_def record_ok_def access_ok_def)
  obtain d where d: "rfold (offline_detection (example_config False)) [sample 1 11 64 1 [7], ?r] init_detector = Inr d"
    using run_total [OF sim_init spec_inv_init ok subset_refl addr2line_ok_example] by blast
  have "accesses [sample 1 11 64 1 [7], ?r] 64 = ?h @ [?r]"
    by (simp add: accesses_def)
  moreover have "\<not> (shared ?h \<and> written ?h \<and> thread_id ?r \<notin> thread_id ` set ?h)" and "shared (?h @ [?r])"
    and "written (?h @ [?r])" and "candidate (?h @ [?r]) = {}"
    by (auto simp: shared_threads written_def candidate_def)
  ultimately have "map_of (rw_map d) 64 = Some 4"
    by (rule race_is_reported [OF ok no_reuse_example d])
  with d show ?thesis by blast
qed

text \<open>C17: The exception in the previous property is real, for every log. Without the reuse filter,
  when a location is shared, written and so far protected by a common lock, and the access that
  empties the candidate lockset is the first one of a further thread, then the accesses form a race,
  but the code does not look at the lockset at this access: the location ends in state 3, shared
  modified, and is not reported.\<close>

theorem third_thread_race_missed:
  assumes "log_ok log" and "\<not> enable_memory_reuse cfg"
    and "rfold (offline_detection cfg) log init_detector = Inr d"
    and "accesses log a = h @ [r]" and "shared h" and "written h" and "candidate h \<noteq> {}"
    and "thread_id r \<notin> thread_id ` set h" and "candidate (h @ [r]) = {}"
  shows "racy (accesses log a) \<and> map_of (rw_map d) a = Some 3"
proof -
  have more_racy: "shared (h @ [r])" "written (h @ [r])"
    using assms(5,6,8) shared_new_thread [of h r] by (cases h, simp_all add: written_snoc shared_def [of "[]"])
  have "\<not> reported h" using reported_racy [of h] assms(7) by (auto simp: racy_def)
  then have "\<not> reported (h @ [r])" using assms(5,6,8) by (simp add: reported_snoc looks_def)
  with more_racy assms(4,9) show ?thesis
    by (simp add: log_run_status [OF assms(1-3)] racy_def state_of_def)
qed

text \<open>Two threads that write under lock 7 and a third one that writes without it: the detector ends
  without any warning or output.\<close>

theorem third_thread_race_missed_witness:
  "\<exists>d. rfold (offline_detection (example_config False)) third_thread_log init_detector = Inr d \<and>
     racy (accesses third_thread_log 64) \<and> map_of (rw_map d) 64 = Some 3 \<and> warning_count d = 0 \<and> output_text d = []"
proof -
  obtain d where d: "rfold (offline_detection (example_config False)) third_thread_log init_detector = Inr d"
    and quiet: "warning_count d = 0" "output_text d = []"
    using third_thread_run by (auto split: sum.splits)
  let ?h = "[sample 1 11 64 1 [7], sample 2 12 64 1 [7]]" and ?r = "sample 3 13 64 1 []"
  have "accesses third_thread_log 64 = ?h @ [?r]"
    by (simp add: accesses_def third_thread_log_def)
  moreover have "shared ?h" "written ?h" "candidate ?h \<noteq> {}" "thread_id ?r \<notin> thread_id ` set ?h"
    "candidate (?h @ [?r]) = {}"
    by (auto simp: shared_threads written_def candidate_def)
  ultimately show ?thesis
    using third_thread_race_missed [OF log_ok_third_thread_log no_reuse_example d] d quiet by blast
qed

text \<open>C18: On a well-formed log, with or without a second input of added records, the detector
  runs to the end: no assertion fails, no array or iterator leaves its bounds, no null pointer
  is followed.\<close>

theorem detector_never_aborts:
  assumes "log_ok (raws @ news)" and "addr2line_ok cfg"
  shows "(\<exists>d. detect_main cfg raws None = Inr d) \<and> (\<exists>d. detect_main cfg raws (Some news) = Inr d)"
proof -
  have run: "\<exists>d. rfold (offline_detection cfg) rs init_detector = Inr d" if "set rs \<subseteq> set (raws @ news)" for rs
    using run_total [OF sim_init spec_inv_init assms(1) that assms(2)] .
  have "set (schedule raws (set_insert_all record_less news [])) \<subseteq> set (raws @ news)"
    using set_schedule [of raws "set_insert_all record_less news []"] set_new_records [of news "[]"] by auto
  with run [of raws] run show ?thesis
    by (auto simp: detect_main_def detect_merge_schedule split: list.splits)
qed

theorem detector_never_aborts_witness:
  "\<exists>d. detect_main (example_config True) race_log (Some [sample 2 12 64 1 [9]]) = Inr d"
proof -
  have "log_ok (race_log @ [sample 2 12 64 1 [9]])"
    by (simp add: log_ok_def race_log_def record_ok_def access_ok_def)
  from detector_never_aborts [OF this addr2line_ok_example] show ?thesis by blast
qed

text \<open>Without the reuse filter every racy location is reported exactly once: the number of
  warnings is the number of locations in the error state.\<close>

lemma one_warning_per_location:
  assumes "log_ok log" and "\<not> enable_memory_reuse cfg"
    and "rfold (offline_detection cfg) log init_detector = Inr d"
  shows "warning_count d = int (card {a. map_of (rw_map d) a = Some 4})"
  by (simp add: log_run_warnings [OF assms] log_run_reported [OF assms])

lemma one_warning_per_location_example:
  "\<exists>d. rfold (offline_detection (example_config False)) race_log init_detector = Inr d \<and>
     warning_count d = int (card {a. map_of (rw_map d) a = Some 4})"
  using race_run one_warning_per_location [OF log_ok_race_log no_reuse_example] by blast

text \<open>C15: Without the reuse filter (no \<open>-m\<close>), only the order of the accesses to one location
  matters. Two well-formed logs with the same accesses to each location, interleaved in whatever way
  and with whatever allocation records in between (which are ignored without \<open>-m\<close>), leave the
  same states, the same candidate locksets and the same number of warnings. With \<open>-m\<close> a record
  of a \<open>free\<close> changes all three.\<close>

theorem interleaving_of_locations_irrelevant:
  assumes "log_ok log" and "log_ok log'" and "\<forall>a. accesses log a = accesses log' a"
    and "\<not> enable_memory_reuse cfg" and "addr2line_ok cfg"
  shows "\<exists>d d'. rfold (offline_detection cfg) log init_detector = Inr d \<and>
    rfold (offline_detection cfg) log' init_detector = Inr d' \<and>
    rw_map d = rw_map d' \<and> lockset_map d = lockset_map d' \<and> warning_count d = warning_count d'"
proof -
  obtain d where d: "rfold (offline_detection cfg) log init_detector = Inr d"
    using run_total [OF sim_init spec_inv_init assms(1) subset_refl assms(5)] by blast
  obtain d' where d': "rfold (offline_detection cfg) log' init_detector = Inr d'"
    using run_total [OF sim_init spec_inv_init assms(2) subset_refl assms(5)] by blast
  note run = assms(1,4) d and run' = assms(2,4) d'
  have "rw_map d = rw_map d'"
    using log_run_sorted(1) [OF run] log_run_sorted(1) [OF run'] assms(3)
    by (intro sorted_keys_ext) (simp_all add: fun_eq_iff log_run_status [OF run] log_run_status [OF run'])
  moreover have "lockset_map d = lockset_map d'"
    using log_run_sorted(2) [OF run] log_run_sorted(2) [OF run'] assms(3)
    by (intro sorted_keys_ext) (simp_all add: fun_eq_iff log_run_locks [OF run] log_run_locks [OF run'])
  moreover have "warning_count d = warning_count d'"
    using assms(3) by (simp add: log_run_warnings [OF run] log_run_warnings [OF run'])
  ultimately show ?thesis using d d' by blast
qed

text \<open>The accesses of the racy log with an access to another location in front or behind.\<close>

theorem interleaving_of_locations_irrelevant_witness:
  "\<exists>d d'. rfold (offline_detection (example_config False)) (race_log @ [sample 9 13 128 1 [7]]) init_detector = Inr d \<and>
     rfold (offline_detection (example_config False)) (sample 9 13 128 1 [7] # race_log) init_detector = Inr d' \<and>
     rw_map d = rw_map d' \<and> lockset_map d = lockset_map d' \<and> warning_count d = warning_count d'"
proof (rule interleaving_of_locations_irrelevant [OF _ _ _ no_reuse_example addr2line_ok_example])
  show "log_ok (race_log @ [sample 9 13 128 1 [7]])" "log_ok (sample 9 13 128 1 [7] # race_log)"
    by (simp_all add: log_ok_def race_log_def record_ok_def access_ok_def)
  show "\<forall>a. accesses (race_log @ [sample 9 13 128 1 [7]]) a = accesses (sample 9 13 128 1 [7] # race_log) a"
    by (simp add: accesses_def race_log_def)
qed

text \<open>C19: When a step decides to report, the record set handed to the report holds accesses of
  this location only, one per thread, of at least two threads and with at least one write; no lock
  was held at all accesses of the location up to this one, so the lockset is empty, and the location
  is in the error state. The records shown are only the last ones kept for each thread: they may
  still hold a lock in common (\<open>report_may_share_lock\<close>).\<close>

theorem report_shows_conflict:
  assumes "cell_ok h rs st ls" and "access_ok r" and "compatible h r"
    and "core_detection r rs st ls = Inr (True, rs', st', ls')"
  shows "set rs' \<subseteq> set (h @ [r]) \<and> distinct (map thread_id rs') \<and> 1 < length rs' \<and>
    (\<exists>x\<in>set rs'. is_write x = 1) \<and> candidate (h @ [r]) = {} \<and> ls' = [] \<and> st' = 4"
proof -
  obtain rs1 st1 ls1 where run: "core_detection r rs st ls = Inr (reported (h @ [r]) \<and> \<not> reported h, rs1, st1, ls1)"
    and c: "cell_ok (h @ [r]) rs1 st1 ls1" and ok: "reported h \<or> set_ok (h @ [r]) rs1"
    using assms(1-3) by (rule core_detection_step)
  with assms(4) have eq: "rs' = rs1" "st' = st1" "ls' = ls1" and rep: "reported (h @ [r])" "\<not> reported h"
    by auto
  have "racy (h @ [r])" using rep(1) by (rule reported_racy)
  with c ok rep show ?thesis
    unfolding eq by (auto simp: cell_ok_def set_ok_def racy_def written_def)
qed

theorem report_shows_conflict_witness:
  "\<exists>rs' st' ls'. core_detection (sample 2 12 64 1 []) [sample 1 11 64 1 [7]] 1 [7] = Inr (True, rs', st', ls') \<and>
     1 < length rs' \<and> st' = 4"
proof -
  let ?x = "sample 1 11 64 1 [7]" and ?r = "sample 2 12 64 1 []"
  have "cell_ok [?x] [?x] (is_write ?x) (set_insert_all (<) (take (nat (lock_count ?x)) (lockset ?x)) [])"
    by (rule cell_ok_single) (simp add: access_ok_def)
  then have c: "cell_ok [?x] [?x] 1 [7]"
    by (simp add: sample_def zero_record_def set_insert_all_def)
  have "core_detection ?r [?x] 1 [7] = Inr (True, [?x, ?r], 4, [])"
    by code_simp
  with report_shows_conflict [OF c, of ?r "[?x, ?r]" 4 "[]"] show ?thesis
    by (simp add: access_ok_def compatible_def)
qed

text \<open>A thread writes under lock 8, then under lock 7, which replaces its record; when a second
  thread writes under lock 7, the two records of the report share that lock.\<close>

lemma report_may_share_lock:
  "core_detection (sample 3 12 64 1 [7]) [sample 2 11 64 1 [7]] 1 [] =
     Inr (True, [sample 2 11 64 1 [7], sample 3 12 64 1 [7]], 4, [])"
  and "core_detection (sample 2 11 64 1 [7]) [sample 1 11 64 1 [8]] 1 [8] = Inr (False, [sample 2 11 64 1 [7]], 1, [])"
  by code_simp+

text \<open>C20: With the reuse filter on (\<open>-m\<close>), giving back a block makes the detector forget the
  addresses inside the block, and nothing else, in all three maps. The size is the one of the record,
  or, for a record of size 0 as the interposed \<open>free\<close> writes it, the one the allocation of this
  address registered in \<open>heap_map\<close>; it is positive and the block ends below the end of the
  address space. The range is half open: the address just behind the block is kept, although the
  comment in the code writes the range as \<open>[start_address, start_address+size]\<close>.\<close>

theorem free_forgets_block:
  assumes "maps_sorted d" and "enable_memory_reuse cfg" and "record_type r = MEMORY_ALLOC"
    and "is_alloc r = 0" and "start_address r \<noteq> 0"
    and "sz = (if alloc_size r \<noteq> 0 then alloc_size r
               else case map_of (heap_map d) (start_address r) of None \<Rightarrow> 0 | Some z \<Rightarrow> z)"
    and "0 < sz" and "uint (start_address r) + sz < 2 ^ 64"
  shows "\<exists>d'. offline_detection cfg r d = Inr d' \<and> heap_map d' = heap_map d \<and>
    (\<forall>a. let inside = (uint (start_address r) \<le> uint a \<and> uint a < uint (start_address r) + sz) in
       map_of (lockset_map d') a = (if inside then None else map_of (lockset_map d) a) \<and>
       map_of (rw_map d') a = (if inside then None else map_of (rw_map d) a) \<and>
       map_of (global_record_set_map d') a = (if inside then None else map_of (global_record_set_map d) a))"
proof -
  let ?lo = "start_address r" and ?hi = "start_address r + word_of_int sz"
  have hi: "uint ?hi = uint ?lo + sz"
    using assms(7,8) by (simp add: uint_word_ariths uint_word_of_int mod_simps)
  have le: "?lo \<le> ?hi" using assms(7,8) by (intro ptr_add_no_wrap) simp_all
  have inside: "(uint ?lo \<le> uint a \<and> uint a < uint ?lo + sz) \<longleftrightarrow> ?lo \<le> a \<and> a < ?hi" for a
    by (simp add: word_le_def word_less_def hi)
  have s: "sorted_keys (lockset_map d)" "sorted_keys (global_record_set_map d)" "sorted_keys (rw_map d)"
    using assms(1) by (auto simp: maps_sorted_def)
  obtain lm gm rm where m: "map_erase_range ?lo ?hi (lockset_map d) = Inr lm"
    "map_erase_range ?lo ?hi (global_record_set_map d) = Inr gm" "map_erase_range ?lo ?hi (rw_map d) = Inr rm"
    using s le pm.erase_total by metis
  have "offline_detection cfg r d = delete_map_entries ?lo ?hi d"
    using assms(1-7) by (auto simp: offline_detection_def detect_alloc_def maps_sorted_def
        pm.try_insert_present Let_def split: if_splits option.splits)
  with m have "offline_detection cfg r d = Inr (d\<lparr>lockset_map := lm, global_record_set_map := gm, rw_map := rm\<rparr>)"
    by (simp add: delete_map_entries_def Let_def)
  then show ?thesis
    using pm.look_erase [OF s(1) m(1)] pm.look_erase [OF s(2) m(2)] pm.look_erase [OF s(3) m(3)]
    unfolding inside by (simp add: Let_def)
qed

definition free_record :: "ptr \<Rightarrow> int \<Rightarrow> Record" where
  "free_record a sz = set_is_alloc 0 (set_alloc_size sz
     (set_start_address a (zero_record\<lparr>record_type := MEMORY_ALLOC\<rparr>)))"

lemma free_record_simps [simp]:
  "record_type (free_record a sz) = MEMORY_ALLOC"
  "is_alloc (free_record a sz) = 0"
  "start_address (free_record a sz) = a"
  "int32 sz \<Longrightarrow> alloc_size (free_record a sz) = sz"
  "\<not> is_access (free_record a sz)"
  unfolding free_record_def alloc_members
  by (simp_all add: set_start_address_def set_alloc_size_def set_is_alloc_def start_address_def
      to_int32_id is_access_def)

definition tracked :: detector where
  "tracked = init_detector\<lparr>global_record_set_map := [(64, [sample 1 11 64 1 []])], rw_map := [(64, 1)],
     lockset_map := [(64, [])], heap_map := [(32, 64)]\<rparr>"

text \<open>A record as the interposed \<open>free\<close> writes it, of a block whose allocation was seen.\<close>

theorem free_forgets_block_witness:
  "\<exists>d'. offline_detection (example_config True) (free_record 32 0) tracked = Inr d' \<and>
     map_of (rw_map d') 64 = None"
proof -
  let ?r = "free_record 32 0"
  have r: "alloc_size ?r = 0" by (simp add: int32_def)
  have "maps_sorted tracked" by (simp add: maps_sorted_def tracked_def init_detector_def)
  from free_forgets_block [OF this, of "example_config True" ?r 64] obtain d' where
    "offline_detection (example_config True) ?r tracked = Inr d'" and
    "map_of (rw_map d') 64 = (if uint (32 :: ptr) \<le> uint (64 :: ptr) \<and> uint (64 :: ptr) < uint (32 :: ptr) + 64
        then None else map_of (rw_map tracked) 64)"
    by (auto simp: r example_config_def tracked_def Let_def)
  then show ?thesis by simp
qed

text \<open>A block of negative size (the log stores sizes as a 32-bit \<open>int\<close>) makes the
  deletion loop run past the end of the map as soon as a sampled address lies below the block's
  start but not below its computed end.\<close>

lemma negative_free_runs_off:
  assumes "maps_sorted d" and "enable_memory_reuse cfg" and "record_type r = MEMORY_ALLOC"
    and "is_alloc r = 0" and "start_address r \<noteq> 0" and "alloc_size r < 0"
    and "- alloc_size r \<le> uint (start_address r)"
    and "map_of (lockset_map d) a = Some ls"
    and "uint (start_address r) + alloc_size r \<le> uint a" and "uint a < uint (start_address r)"
  shows "offline_detection cfg r d = Inl Bad_iterator"
proof -
  let ?lo = "start_address r" and ?hi = "start_address r + word_of_int (alloc_size r)"
  have hi: "uint ?hi = uint ?lo + alloc_size r"
    using assms(6,7) uint_lt2p [of ?lo] by (simp add: uint_word_ariths uint_word_of_int mod_simps)
  have "(a, ls) \<in> set (lockset_map d)" using assms(8) by (rule map_of_SomeD)
  then have "\<exists>k\<in>fst ` set (lockset_map d). ?hi \<le> k \<and> k < ?lo"
    using assms(9,10) by (force simp: word_le_def word_less_def hi)
  moreover have "?hi < ?lo" using assms(6) by (simp add: word_less_def hi)
  ultimately have "map_erase_range ?lo ?hi (lockset_map d) = Inl Bad_iterator"
    using assms(1) by (simp add: map_erase_range_backward maps_sorted_def)
  then show ?thesis
    using assms(2-6) by (simp add: offline_detection_def detect_alloc_def delete_map_entries_def Let_def)
qed

lemma negative_free_runs_off_example:
  "offline_detection (example_config True) (free_record 96 (- 64)) tracked = Inl Bad_iterator"
proof -
  have r: "alloc_size (free_record 96 (- 64)) = - 64" by (simp add: int32_def)
  show ?thesis
    by (rule negative_free_runs_off [of _ _ _ 64 "[]"])
      (simp_all add: r example_config_def maps_sorted_def tracked_def init_detector_def)
qed

text \<open>C21: With a second input, the main loop processes each added record just before the raw
  record with its number, and stops at the last added record: raw records from that number on are
  never looked at.\<close>

theorem merge_order:
  assumes "raws \<noteq> []" and "news \<noteq> []" and "sorted_wrt (<) (map record_no raws)"
    and "record_no ` set news \<subseteq> record_no ` set raws"
  shows "let added = set_insert_all record_less news [] in
    detect_main cfg raws (Some news) =
      rfold (offline_detection cfg)
        (concat (map (merge_block added (record_no (last added))) raws)) init_detector"
proof -
  let ?added = "set_insert_all record_less news []"
  have s: "sorted_wrt record_less ?added"
    by (rule rec_order.sorted_set_insert_all) simp
  then have "sorted_wrt (\<le>) (map record_no ?added)"
    unfolding sorted_wrt_map by (rule sorted_wrt_mono_rel [rotated]) (auto simp: record_less_def split: if_splits)
  moreover have "?added \<noteq> []"
    using assms(2) by (cases news rule: rev_cases) (simp_all add: set_insert_all_def)
  moreover have "record_no ` set ?added \<subseteq> record_no ` set raws"
    using assms(4) set_new_records [of news "[]"] by auto
  ultimately have "schedule raws ?added = concat (map (merge_block ?added (record_no (last ?added))) raws)"
    using assms(3) by (intro schedule_blocks)
  with assms(1,2) show ?thesis
    by (auto simp: detect_main_def detect_merge_schedule Let_def split: list.splits)
qed

theorem merge_order_witness:
  "detect_main (example_config False) race_log (Some [sample 2 12 64 0 [9]]) =
     rfold (offline_detection (example_config False)) [sample 1 11 64 1 [7], sample 2 12 64 0 [9]] init_detector"
  using merge_order [of race_log "[sample 2 12 64 0 [9]]" "example_config False"]
  by (simp add: race_log_def set_insert_all_def merge_block_def Let_def del: rfold.simps)

section \<open>The state machine\<close>

text \<open>C22: The state kept for a location means what the comment in the code says, after every
  well-formed log, with the reuse filter on or off. With \<open>h\<close> the accesses of the location since it
  was last given back (all of them without \<open>-m\<close>): a location without accesses has no state;
  0 stands for reads by one thread, 1 for accesses of one thread with a write, 2 for reads by
  several threads, 3 for accesses by several threads with a write, and 4 for such a location at one
  of whose accesses the lockset was looked at and found empty.\<close>

theorem status_tells_history:
  assumes "log_ok log" and "rfold (offline_detection cfg) log init_detector = Inr d"
    and "h = history (fold (spec_step (enable_memory_reuse cfg)) log init_spec) a"
  shows "map_of (rw_map d) a =
    (if h = [] then None
     else Some (if reported h then 4
                else if shared h then (if written h then 3 else 2)
                else if written h then 1 else 0))"
proof -
  have "sim d (fold (spec_step (enable_memory_reuse cfg)) log init_spec)"
    using assms(1,2) by (intro run_sim [OF sim_init spec_inv_init _ subset_refl])
  then have "cell_sim h (map_of (global_record_set_map d) a) (map_of (rw_map d) a) (map_of (lockset_map d) a)"
    by (simp add: sim_def assms(3))
  then show ?thesis
    by (elim cell_sim_cases) (auto dest: cell_ok_state simp: state_of_def)
qed

text \<open>Two readers, then a block around the location is given back, then a write: with the filter the
  location is in state 1, not 3.\<close>

definition reuse_log :: "Record list" where
  "reuse_log = [sample 1 11 64 0 [], sample 2 12 64 0 [], free_record 32 64, sample 4 12 64 1 []]"

theorem status_tells_history_witness:
  "\<exists>d. rfold (offline_detection (example_config True)) reuse_log init_detector = Inr d \<and>
     map_of (rw_map d) 64 = Some 1"
proof -
  have ok: "log_ok reuse_log"
    by (simp add: log_ok_def reuse_log_def record_ok_def access_ok_def int32_def)
  obtain d where d: "rfold (offline_detection (example_config True)) reuse_log init_detector = Inr d"
    using run_total [OF sim_init spec_inv_init ok subset_refl addr2line_ok_example] by blast
  have "history (fold (spec_step (enable_memory_reuse (example_config True))) reuse_log init_spec) 64 = [sample 4 12 64 1 []]"
    by (simp add: reuse_log_def example_config_def spec_step_def spec_access_def init_spec_def int32_def
        freed_size_def forget_def Let_def)
  from status_tells_history [OF ok d this [symmetric]] d show ?thesis
    by (simp add: not_reported_single shared_def written_def)
qed

end
