(* ===== verification/Racez_Bufferdata.thy ===== *)
theory Racez_Bufferdata
  imports Racez_Record
begin

text \<open>
  The in-memory log (racez_bufferdata.h, racez_bufferdata.cc): one block of \<open>BUFFERSIZE\<close>
  records, a pointer into it that every writer advances with one atomic instruction, and the
  functions that create the block, append a record and write the block to a file.

  A pointer into the block is its distance from \<open>start_\<close> in records. The block is a
  function from positions to records; it has the positions from 0 below \<open>BUFFERSIZE\<close>, and
  before a position is written it holds whatever \<open>malloc\<close> left there. The file is the trace
  of the successful \<open>write\<close> calls, each with its descriptor.
\<close>

section \<open>State\<close>

definition BUFFERSIZE :: int where
  "BUFFERSIZE = 5000000"

record BufferData =
  bd_global :: int
  bd_start :: "int \<Rightarrow> Record"
  bd_fd :: int

record buffer_state =
  global_buffer :: "BufferData option"
  written_out :: "(int \<times> Record) list"

definition init_buffer_state :: buffer_state where
  "init_buffer_state = \<lparr>global_buffer = None, written_out = []\<rparr>"

section \<open>Creating the buffer\<close>

text \<open>
  What the allocations and \<open>open\<close> give: whether the header is allocated, the contents of
  the block (\<open>None\<close> for a null pointer), and the descriptor, negative on failure.
\<close>

record init_env =
  header_allocated :: bool
  block_contents :: "(int \<Rightarrow> Record) option"
  opened_fd :: int

definition InitBuffer :: "init_env \<Rightarrow> buffer_state \<Rightarrow> (bool \<times> buffer_state) result" where
  "InitBuffer env b =
     (if global_buffer b \<noteq> None then Inl Assertion_failed
      else if \<not> header_allocated env then Inl (Exit_program 1)
      else case block_contents env of
        None \<Rightarrow> Inl (Exit_program 1)
      | Some junk \<Rightarrow>
          let bd = \<lparr>bd_global = 0, bd_start = junk, bd_fd = 0\<rparr>
          in if opened_fd env < 0 then Inr (False, b\<lparr>global_buffer := Some bd\<rparr>)
             else Inr (True, b\<lparr>global_buffer := Some (bd\<lparr>bd_fd := opened_fd env\<rparr>)\<rparr>))"

section \<open>Appending a record\<close>

text \<open>The locked \<open>xadd\<close>: advance the shared pointer, return its new value.\<close>

definition atomic_increment_no_barrier :: "BufferData \<Rightarrow> BufferData \<times> int" where
  "atomic_increment_no_barrier bd = (bd\<lparr>bd_global := bd_global bd + 1\<rparr>, bd_global bd + 1)"

text \<open>A loop \<open>dst[i] = src[i]\<close> for the first \<open>cnt\<close> elements.\<close>

definition copy_prefix :: "'a list \<Rightarrow> int \<Rightarrow> 'a list \<Rightarrow> 'a list result" where
  "copy_prefix src cnt dst =
     rbind (array_prefix src cnt) (\<lambda>xs.
       if length xs \<le> length dst then Inr (xs @ drop (length xs) dst) else Inl Out_of_bounds)"

text \<open>The copy of the members that belong to the type of the record.\<close>

definition copy_op :: "Record \<Rightarrow> Record \<Rightarrow> Record result" where
  "copy_op r cur =
     (if record_type cur = MEMORY_OP then
        rbind (copy_prefix (lockset r) (lock_count r) (lockset cur)) (\<lambda>ls.
          Inr ((set_pip (pip r) (set_memory_address (memory_address r) cur))
                 \<lparr>mem_op := mem_op r, sip := sip r, is_write := is_write r,
                  lock_count := lock_count r, lockset := ls\<rparr>))
      else if record_type cur = MEMORY_ALLOC then
        Inr (set_is_alloc (is_alloc r) (set_alloc_size (alloc_size r)
               (set_start_address (start_address r) cur)))
      else Inr cur)"

definition fill_entry :: "int \<Rightarrow> Record \<Rightarrow> Record \<Rightarrow> Record result" where
  "fill_entry no r cur =
     rbind (copy_op r (cur\<lparr>record_no := no, thread_id := thread_id r, record_type := record_type r\<rparr>)) (\<lambda>c.
     rbind (copy_prefix (stack_trace r) (trace_depth r) (stack_trace c)) (\<lambda>st.
       Inr (c\<lparr>trace_depth := trace_depth r, stack_trace := st\<rparr>)))"

text \<open>
  What follows the increment: the guard on the 32-bit number, then the stores through
  \<open>current_entry\<close>, which is a position \<open>cur\<close> that may lie outside the block.
\<close>

definition store_record :: "int \<Rightarrow> Record \<Rightarrow> BufferData \<Rightarrow> BufferData result" where
  "store_record cur r bd =
     (let no = to_int32 cur
      in if no > BUFFERSIZE then Inr bd
         else if 0 \<le> cur \<and> cur < BUFFERSIZE
              then rbind (fill_entry no r (bd_start bd cur)) (\<lambda>e.
                     Inr (bd\<lparr>bd_start := (bd_start bd)(cur := e)\<rparr>))
              else Inl Out_of_bounds)"

definition WriteRecord :: "int \<Rightarrow> Record \<Rightarrow> buffer_state \<Rightarrow> buffer_state result" where
  "WriteRecord racez_write_record r b =
     (if racez_write_record = 0 then Inr b
      else case global_buffer b of
        None \<Rightarrow> Inl Null_pointer
      | Some bd \<Rightarrow>
          let (bd1, cur) = atomic_increment_no_barrier bd
          in rbind (store_record cur r bd1) (\<lambda>bd2. Inr (b\<lparr>global_buffer := Some bd2\<rparr>)))"

section \<open>Writing the buffer to the file\<close>

text \<open>
  The loop over the entries up to and including \<open>global_\<close>. \<open>wr i\<close> tells whether the
  \<open>write\<close> of entry \<open>i\<close> succeeds; a failed one is reported on the terminal and skipped.
\<close>

function write_entries ::
  "(int \<Rightarrow> bool) \<Rightarrow> int \<Rightarrow> BufferData \<Rightarrow> (int \<times> Record) list \<Rightarrow> (int \<times> Record) list result" where
  "write_entries wr entry bd out =
     (if entry \<le> bd_global bd then
        (if 0 \<le> entry \<and> entry < BUFFERSIZE
         then write_entries wr (entry + 1) bd
                (if wr entry then out @ [(bd_fd bd, bd_start bd entry)] else out)
         else Inl Out_of_bounds)
      else Inr out)"
  by pat_completeness auto
termination
  by (relation "measure (\<lambda>(wr, entry, bd, out). nat (bd_global bd + 1 - entry))") auto

declare write_entries.simps [simp del]

definition FlushBuffer :: "(int \<Rightarrow> bool) \<Rightarrow> buffer_state \<Rightarrow> buffer_state result" where
  "FlushBuffer wr b =
     (case global_buffer b of
        None \<Rightarrow> Inl Null_pointer
      | Some bd \<Rightarrow> rbind (write_entries wr 0 bd (written_out b)) (\<lambda>out. Inr (b\<lparr>written_out := out\<rparr>)))"

definition StopBuffer :: "(int \<Rightarrow> bool) \<Rightarrow> buffer_state \<Rightarrow> buffer_state result" where
  "StopBuffer wr b =
     (case global_buffer b of
        None \<Rightarrow> Inl Null_pointer
      | Some bd \<Rightarrow>
          rbind (write_entries wr 0 bd (written_out b)) (\<lambda>out.
            Inr (b\<lparr>written_out := out, global_buffer := None\<rparr>)))"

section \<open>Facts about one write\<close>

lemma copy_prefix_Inr_iff:
  "copy_prefix src cnt dst = Inr ys \<longleftrightarrow>
     cnt \<le> int (length src) \<and> cnt \<le> int (length dst) \<and> ys = take (nat cnt) src @ drop (nat cnt) dst"
proof (cases "cnt \<le> int (length src)")
  case True
  then have "length (take (nat cnt) src) = nat cnt" by simp
  with True show ?thesis by (auto simp: copy_prefix_def array_prefix_def)
qed (simp add: copy_prefix_def array_prefix_def)

lemma copy_prefix_ok:
  "cnt \<le> int (length src) \<Longrightarrow> length dst = length src \<Longrightarrow>
   copy_prefix src cnt dst = Inr (take (nat cnt) src @ drop (nat cnt) dst)"
  by (simp add: copy_prefix_Inr_iff)

text \<open>A record whose counts fit its arrays, as the callers build them.\<close>

definition writable :: "Record \<Rightarrow> bool" where
  "writable r \<longleftrightarrow> layout_ok r \<and> lock_count r \<le> 10 \<and> trace_depth r \<le> 10"

text \<open>
  The entry that a record becomes at position \<open>no\<close> over the old contents \<open>cur\<close>, as a
  relation on members: everything a reader of the log looks at for this type of record.
\<close>

definition logged_as :: "int \<Rightarrow> Record \<Rightarrow> Record \<Rightarrow> bool" where
  "logged_as no r e \<longleftrightarrow>
     record_no e = no \<and> thread_id e = thread_id r \<and> record_type e = record_type r \<and>
     trace_depth e = trace_depth r \<and>
     take (nat (trace_depth r)) (stack_trace e) = take (nat (trace_depth r)) (stack_trace r) \<and>
     (record_type r = MEMORY_OP \<longrightarrow>
        memory_address e = memory_address r \<and> pip e = pip r \<and> sip e = sip r \<and>
        is_write e = is_write r \<and> mem_op e = mem_op r \<and> lock_count e = lock_count r \<and>
        take (nat (lock_count r)) (lockset e) = take (nat (lock_count r)) (lockset r)) \<and>
     (record_type r = MEMORY_ALLOC \<longrightarrow>
        start_address e = start_address r \<and> alloc_size e = alloc_size r \<and> is_alloc e = is_alloc r)"

lemma alloc_size_range: "to_int32 (alloc_size r) = alloc_size r" "to_int32 (is_alloc r) = is_alloc r"
  by (simp_all add: alloc_size_def is_alloc_def low32_def high32_def to_int32_id to_int32_range)

lemma fill_entry_ok:
  assumes "writable r" and "layout_ok cur"
  shows "\<exists>e. fill_entry no r cur = Inr e \<and> layout_ok e \<and> logged_as no r e"
proof -
  have l: "lock_count r \<le> 10" "trace_depth r \<le> 10" "length (lockset r) = 10" "length (stack_trace r) = 10"
    "length (lockset cur) = 10" "length (stack_trace cur) = 10"
    using assms by (auto simp: writable_def layout_ok_def)
  have k: "min 10 (nat k) = nat k" "nat k + (10 - nat k) = 10" if "k \<le> 10" for k
    using that by (simp_all add: min_absorb2 nat_le_iff)
  consider (access) "record_type r = MEMORY_OP" | (alloc) "record_type r = MEMORY_ALLOC"
    | (other) "record_type r \<noteq> MEMORY_OP" "record_type r \<noteq> MEMORY_ALLOC" by blast
  then show ?thesis
  proof cases
    case access
    then show ?thesis
      using l by (simp add: fill_entry_def copy_op_def copy_prefix_ok layout_ok_def logged_as_def
          union_view_defs set_memory_address_def set_pip_def k)
  next
    case alloc
    have "start_address (set_start_address v x) = v" for v x
      by (simp add: start_address_def set_start_address_def)
    with alloc show ?thesis
      using l
      by (simp add: fill_entry_def copy_op_def copy_prefix_ok layout_ok_def logged_as_def union_store_defs
          union_view_defs record_simps alloc_size_range [unfolded alloc_size_def is_alloc_def] to_int32_id to_int32_range k)
  next
    case other
    then show ?thesis
      using l by (simp add: fill_entry_def copy_op_def copy_prefix_ok layout_ok_def logged_as_def k)
  qed
qed

section \<open>The contract of the log\<close>

text \<open>Consecutive entries of the log, numbered from \<open>no\<close>, for a list of records.\<close>

fun log_of :: "int \<Rightarrow> Record list \<Rightarrow> Record list \<Rightarrow> bool" where
  "log_of no [] es = (es = [])"
| "log_of no (r # rs) [] = False"
| "log_of no (r # rs) (e # es) = (logged_as no r e \<and> log_of (no + 1) rs es)"

lemma log_of_length: "log_of no rs es \<Longrightarrow> length es = length rs"
  by (induction no rs es rule: log_of.induct) auto

lemma log_of_nth:
  "log_of no rs es \<Longrightarrow> i < length rs \<Longrightarrow> logged_as (no + int i) (rs ! i) (es ! i)"
proof (induction no rs es arbitrary: i rule: log_of.induct)
  case (3 no r rs e es)
  then show ?case by (cases i) (auto simp: algebra_simps)
qed auto

text \<open>
  What the code that logs relies on: as long as there is room, a write succeeds and appends one
  entry that carries the record and the next number.
\<close>

locale record_sink =
  fixes put :: "Record \<Rightarrow> 'b \<Rightarrow> 'b result"
    and ok :: "'b \<Rightarrow> bool"
    and contents :: "'b \<Rightarrow> Record list"
    and room :: "'b \<Rightarrow> nat"
  assumes write_spec: "ok b \<Longrightarrow> writable r \<Longrightarrow> 0 < room b \<Longrightarrow>
      \<exists>b' e. put r b = Inr b' \<and> ok b' \<and> contents b' = contents b @ [e] \<and>
        logged_as (int (length (contents b)) + 1) r e \<and> room b' = room b - 1"
begin

lemma write_all:
  "ok b \<Longrightarrow> list_all writable rs \<Longrightarrow> length rs \<le> room b \<Longrightarrow>
   \<exists>b' es. rfold put rs b = Inr b' \<and> ok b' \<and> contents b' = contents b @ es \<and>
     log_of (int (length (contents b)) + 1) rs es \<and> room b' = room b - length rs"
proof (induction rs arbitrary: b)
  case (Cons r rs)
  obtain b1 e where b1: "put r b = Inr b1" "ok b1" "contents b1 = contents b @ [e]"
    "logged_as (int (length (contents b)) + 1) r e" "room b1 = room b - 1"
    using write_spec [of b r] Cons.prems by auto
  have le: "length rs \<le> room b1" using Cons.prems(3) b1(5) by simp
  obtain b2 es where "rfold put rs b1 = Inr b2" "ok b2" "contents b2 = contents b1 @ es"
    "log_of (int (length (contents b1)) + 1) rs es" "room b2 = room b1 - length rs"
    using Cons.IH [of b1] Cons.prems b1(2) le by auto
  with b1 show ?case by (auto simp: algebra_simps)
qed simp

end

definition buffer_ok :: "buffer_state \<Rightarrow> bool" where
  "buffer_ok b \<longleftrightarrow>
     (case global_buffer b of
        None \<Rightarrow> False
      | Some bd \<Rightarrow> 0 \<le> bd_global bd \<and> bd_global bd < BUFFERSIZE \<and> (\<forall>i. layout_ok (bd_start bd i)))"

definition buffer_contents :: "buffer_state \<Rightarrow> Record list" where
  "buffer_contents b = (case global_buffer b of None \<Rightarrow> [] | Some bd \<Rightarrow> map (bd_start bd) [1..bd_global bd])"

definition buffer_room :: "buffer_state \<Rightarrow> nat" where
  "buffer_room b = (case global_buffer b of None \<Rightarrow> 0 | Some bd \<Rightarrow> nat (BUFFERSIZE - 1 - bd_global bd))"

lemma buffer_position: "0 \<le> g \<Longrightarrow> g < BUFFERSIZE \<Longrightarrow> to_int32 g = g"
  by (simp add: to_int32_id int32_def BUFFERSIZE_def)

lemma store_record_ok:
  assumes "writable r" and "layout_ok (bd_start bd cur)" and "0 \<le> cur" and "cur < BUFFERSIZE"
  shows "\<exists>e. store_record cur r bd = Inr (bd\<lparr>bd_start := (bd_start bd)(cur := e)\<rparr>) \<and>
    fill_entry cur r (bd_start bd cur) = Inr e \<and> layout_ok e \<and> logged_as cur r e"
  using fill_entry_ok [OF assms(1,2), of cur] assms(3,4)
  by (auto simp: store_record_def buffer_position Let_def)

lemma WriteRecord_ok:
  assumes "w \<noteq> 0" and "global_buffer b = Some bd" and "writable r" and "layout_ok (bd_start bd (bd_global bd + 1))"
    and "0 \<le> bd_global bd" and "bd_global bd + 1 < BUFFERSIZE"
  shows "\<exists>e. WriteRecord w r b = Inr (b\<lparr>global_buffer := Some (bd\<lparr>bd_global := bd_global bd + 1,
      bd_start := (bd_start bd)(bd_global bd + 1 := e)\<rparr>)\<rparr>) \<and>
    fill_entry (bd_global bd + 1) r (bd_start bd (bd_global bd + 1)) = Inr e \<and> layout_ok e \<and>
    logged_as (bd_global bd + 1) r e"
  using store_record_ok [of r "bd\<lparr>bd_global := bd_global bd + 1\<rparr>" "bd_global bd + 1"] assms
  by (auto simp: WriteRecord_def atomic_increment_no_barrier_def)

interpretation sink: record_sink "WriteRecord 1" buffer_ok buffer_contents buffer_room
proof unfold_locales
  fix b r
  assume ok: "buffer_ok b" and r: "writable r" and room: "0 < buffer_room b"
  then obtain bd where bd: "global_buffer b = Some bd" "0 \<le> bd_global bd" "bd_global bd + 1 < BUFFERSIZE"
    "\<And>i. layout_ok (bd_start bd i)"
    by (auto simp: buffer_ok_def buffer_room_def split: option.splits)
  obtain e where "WriteRecord 1 r b = Inr (b\<lparr>global_buffer := Some (bd\<lparr>bd_global := bd_global bd + 1,
      bd_start := (bd_start bd)(bd_global bd + 1 := e)\<rparr>)\<rparr>)" "layout_ok e" "logged_as (bd_global bd + 1) r e"
    using WriteRecord_ok [of 1 b bd r] bd r by auto
  with bd show "\<exists>b' e. WriteRecord 1 r b = Inr b' \<and> buffer_ok b' \<and>
      buffer_contents b' = buffer_contents b @ [e] \<and>
      logged_as (int (length (buffer_contents b)) + 1) r e \<and> buffer_room b' = buffer_room b - 1"
    by (auto simp: buffer_ok_def buffer_contents_def buffer_room_def upto_rec2 nat_diff_distrib')
qed

lemma WriteRecord_nonzero: "w \<noteq> 0 \<Longrightarrow> WriteRecord w = WriteRecord 1"
  by (simp add: fun_eq_iff WriteRecord_def)

text \<open>What a write leaves alone: the entry in front, which nobody fills, and the file.\<close>

definition front :: "buffer_state \<Rightarrow> Record option" where
  "front b = map_option (\<lambda>bd. bd_start bd 0) (global_buffer b)"

definition same_file :: "buffer_state \<Rightarrow> buffer_state \<Rightarrow> bool" where
  "same_file b b' \<longleftrightarrow> front b' = front b \<and> written_out b' = written_out b"

lemma same_file_trans: "same_file a b \<Longrightarrow> same_file b c \<Longrightarrow> same_file a c"
  by (simp add: same_file_def)

lemma WriteRecord_same_file:
  assumes "buffer_ok b" and "0 < buffer_room b" and "writable r" and "WriteRecord 1 r b = Inr b'"
  shows "same_file b b'"
proof -
  obtain bd where bd: "global_buffer b = Some bd" "0 \<le> bd_global bd" "bd_global bd + 1 < BUFFERSIZE" "\<And>i. layout_ok (bd_start bd i)"
    using assms(1,2) by (auto simp: buffer_ok_def buffer_room_def split: option.splits)
  then show ?thesis
    using WriteRecord_ok [of 1 b bd r] assms(3,4) by (auto simp: same_file_def front_def)
qed

section \<open>Writing the file\<close>

lemma write_entries_all:
  "0 \<le> k \<Longrightarrow> bd_global bd < BUFFERSIZE \<Longrightarrow>
   write_entries (\<lambda>_. True) k bd out = Inr (out @ map (\<lambda>i. (bd_fd bd, bd_start bd i)) [k..bd_global bd])"
proof (induction "\<lambda>_::int. True" k bd out rule: write_entries.induct)
  case (1 k bd out)
  show ?case
  proof (cases "k \<le> bd_global bd")
    case True
    then have "[k..bd_global bd] = k # [k + 1..bd_global bd]" by (rule upto_rec1)
    with True 1 show ?thesis by (subst write_entries.simps) simp
  qed (simp add: write_entries.simps)
qed

lemma write_entries_overrun:
  "0 \<le> k \<Longrightarrow> BUFFERSIZE \<le> bd_global bd \<Longrightarrow> k \<le> BUFFERSIZE \<Longrightarrow> write_entries wr k bd out = Inl Out_of_bounds"
proof (induction wr k bd out rule: write_entries.induct)
  case (1 wr k bd out)
  then show ?case by (cases "k < BUFFERSIZE") (subst write_entries.simps, simp)+
qed

end
