(* ===== verification/Buffer_Properties.thy ===== *)
theory Buffer_Properties
  imports Racez_Bufferdata
begin

text \<open>
  Properties of the log buffer: concurrent writers behave as if each write were one step, every
  record written reaches the file once and in order, and what happens at the end of the block.
\<close>

section \<open>Concurrent writers\<close>

text \<open>
  A write is two steps: the atomic increment, which reserves a position, and the stores through
  the reserved position. \<open>pending\<close> holds what a thread has reserved and not yet stored.
\<close>

datatype write_event = Reserve int Record | Store int

record writers =
  shared_buffer :: BufferData
  pending :: "int \<Rightarrow> (int \<times> Record) option"

inductive write_step :: "writers \<Rightarrow> write_event \<Rightarrow> writers \<Rightarrow> bool" where
  reserve: "pending s t = None \<Longrightarrow> atomic_increment_no_barrier (shared_buffer s) = (bd, cur) \<Longrightarrow>
    write_step s (Reserve t r) (s\<lparr>shared_buffer := bd, pending := (pending s)(t \<mapsto> (cur, r))\<rparr>)"
| store: "pending s t = Some (cur, r) \<Longrightarrow> store_record cur r (shared_buffer s) = Inr bd \<Longrightarrow>
    write_step s (Store t) (s\<lparr>shared_buffer := bd, pending := (pending s)(t := None)\<rparr>)"

inductive_cases write_stepE: "write_step s e s'"

inductive interleaved :: "writers \<Rightarrow> write_event list \<Rightarrow> writers \<Rightarrow> bool" where
  nothing: "interleaved s [] s"
| another: "interleaved s evs s' \<Longrightarrow> write_step s' e s'' \<Longrightarrow> interleaved s (evs @ [e]) s''"

fun reserved :: "write_event list \<Rightarrow> Record list" where
  "reserved [] = []"
| "reserved (Reserve t r # evs) = r # reserved evs"
| "reserved (Store t # evs) = reserved evs"

lemma reserved_append: "reserved (xs @ ys) = reserved xs @ reserved ys"
  by (induction xs rule: reserved.induct) simp_all

definition holding :: "BufferData \<Rightarrow> buffer_state" where
  "holding bd = \<lparr>global_buffer = Some bd, written_out = []\<rparr>"

text \<open>
  \<open>seq\<close> is the buffer that writing the reserved records one after the other gives. The real
  buffer differs from it at the reserved positions only, and each pending store closes the
  difference at its own position.
\<close>

definition behind :: "writers \<Rightarrow> BufferData \<Rightarrow> bool" where
  "behind s seq \<longleftrightarrow>
     bd_global (shared_buffer s) = bd_global seq \<and> bd_fd (shared_buffer s) = bd_fd seq \<and>
     (\<forall>t cur r. pending s t = Some (cur, r) \<longrightarrow>
        0 \<le> cur \<and> cur < BUFFERSIZE \<and> cur \<le> bd_global seq \<and>
        fill_entry cur r (bd_start (shared_buffer s) cur) = Inr (bd_start seq cur)) \<and>
     (\<forall>t t' cur r r'. pending s t = Some (cur, r) \<longrightarrow> pending s t' = Some (cur, r') \<longrightarrow> t = t') \<and>
     (\<forall>i. (\<forall>t r. pending s t \<noteq> Some (i, r)) \<longrightarrow> bd_start (shared_buffer s) i = bd_start seq i)"

lemma behind_idle: "pending s = (\<lambda>_. None) \<Longrightarrow> behind s seq \<Longrightarrow> shared_buffer s = seq"
  by (auto simp: behind_def intro!: BufferData.equality)

lemma behindD:
  assumes "behind s seq"
  shows "bd_global (shared_buffer s) = bd_global seq" and "bd_fd (shared_buffer s) = bd_fd seq"
    and "pending s t = Some (cur, r) \<Longrightarrow> 0 \<le> cur \<and> cur < BUFFERSIZE \<and> cur \<le> bd_global seq"
    and "pending s t = Some (cur, r) \<Longrightarrow> fill_entry cur r (bd_start (shared_buffer s) cur) = Inr (bd_start seq cur)"
    and "pending s t = Some (cur, r) \<Longrightarrow> pending s t' = Some (cur, r') \<Longrightarrow> t = t'"
    and "(\<And>t r. pending s t \<noteq> Some (cur, r)) \<Longrightarrow> bd_start (shared_buffer s) cur = bd_start seq cur"
  using assms unfolding behind_def by blast+

lemma behind_reserve:
  assumes "behind s seq" and "pending s t = None" and "writable r" and "\<forall>i. layout_ok (bd_start seq i)"
    and "0 \<le> bd_global seq" and "bd_global seq + 1 < BUFFERSIZE"
  shows "\<exists>seq'. WriteRecord 1 r (holding seq) = Inr (holding seq') \<and> (\<forall>i. layout_ok (bd_start seq' i)) \<and>
    bd_global seq' = bd_global seq + 1 \<and>
    behind (s\<lparr>shared_buffer := (shared_buffer s)\<lparr>bd_global := bd_global (shared_buffer s) + 1\<rparr>,
      pending := (pending s)(t \<mapsto> (bd_global (shared_buffer s) + 1, r))\<rparr>) seq'"
    (is "\<exists>seq'. _ \<and> _ \<and> _ \<and> behind ?s' seq'")
proof -
  let ?g = "bd_global seq + 1"
  obtain e where e: "fill_entry ?g r (bd_start seq ?g) = Inr e" "layout_ok e" and w: "WriteRecord 1 r (holding seq) =
      Inr (holding (seq\<lparr>bd_global := ?g, bd_start := (bd_start seq)(?g := e)\<rparr>))" (is "_ = Inr (holding ?seq')")
    using WriteRecord_ok [of 1 "holding seq" seq r] assms(3-6) by (auto simp: holding_def)
  note b = behindD [OF assms(1)]
  have below: "cur \<noteq> ?g" if "pending s t' = Some (cur, r')" for t' cur r'
    using b(3) [OF that] by simp
  have g: "bd_start (shared_buffer s) ?g = bd_start seq ?g" using below by (intro b(6)) blast
  have pend: "pending ?s' t' = Some (cur, r') \<longleftrightarrow>
      (if t' = t then cur = ?g \<and> r' = r else pending s t' = Some (cur, r'))" for t' cur r'
    by (auto simp: b(1))
  have "behind ?s' ?seq'"
    unfolding behind_def
  proof (intro conjI allI impI)
    fix t' cur r' assume p: "pending ?s' t' = Some (cur, r')"
    then have "t' = t \<and> cur = ?g \<and> r' = r \<or> pending s t' = Some (cur, r')" unfolding pend by (auto split: if_splits)
    then show "0 \<le> cur" "cur < BUFFERSIZE" "cur \<le> bd_global ?seq'"
      "fill_entry cur r' (bd_start (shared_buffer ?s') cur) = Inr (bd_start ?seq' cur)"
      using b(3,4) [of t' cur r'] below [of t' cur r'] assms(5,6) e(1) g by auto
    fix t'' r'' assume q: "pending ?s' t'' = Some (cur, r'')"
    show "t' = t''" using p q below b(5) unfolding pend by (metis (full_types))
  next
    fix i assume free: "\<forall>t r. pending ?s' t \<noteq> Some (i, r)"
    then have "i \<noteq> ?g" unfolding pend by metis
    moreover have "pending s t' \<noteq> Some (i, r')" for t' r' using free assms(2) unfolding pend by (metis option.discI)
    ultimately show "bd_start (shared_buffer ?s') i = bd_start ?seq' i" using b(6) by simp
  qed (simp_all add: b(1,2))
  with w e(2) assms(4) show ?thesis by (intro exI [of _ ?seq']) simp
qed

lemma behind_store:
  assumes "behind s seq" and "pending s t = Some (cur, r)"
    and "store_record cur r (shared_buffer s) = Inr bd"
  shows "behind (s\<lparr>shared_buffer := bd, pending := (pending s)(t := None)\<rparr>) seq" (is "behind ?s' seq")
proof -
  note b = behindD [OF assms(1)]
  have bd: "bd = (shared_buffer s)\<lparr>bd_start := (bd_start (shared_buffer s))(cur := bd_start seq cur)\<rparr>"
    using assms(3) b(3,4) [OF assms(2)] by (simp add: store_record_def buffer_position Let_def)
  have pend: "pending ?s' t' = Some (i, r') \<longleftrightarrow> t' \<noteq> t \<and> pending s t' = Some (i, r')" for t' i r'
    by auto
  show ?thesis
    unfolding behind_def
  proof (intro conjI allI impI)
    fix t' i r' assume p: "pending ?s' t' = Some (i, r')"
    then have q: "t' \<noteq> t" "pending s t' = Some (i, r')" unfolding pend by simp_all
    then have "i \<noteq> cur" using b(5) [OF assms(2)] by blast
    then show "0 \<le> i" "i < BUFFERSIZE" "i \<le> bd_global seq"
      "fill_entry i r' (bd_start (shared_buffer ?s') i) = Inr (bd_start seq i)"
      using b(3,4) [OF q(2)] by (simp_all add: bd)
    fix t'' r'' assume "pending ?s' t'' = Some (i, r'')"
    then show "t' = t''" using q(2) b(5) unfolding pend by blast
  next
    fix i assume free: "\<forall>t r. pending ?s' t \<noteq> Some (i, r)"
    show "bd_start (shared_buffer ?s') i = bd_start seq i"
    proof (cases "i = cur")
      case False
      then have "pending s t' \<noteq> Some (i, r')" for t' r' using free assms(2) unfolding pend by (metis option.inject prod.inject)
      then show ?thesis using False b(6) by (simp add: bd)
    qed (simp add: bd)
  qed (simp_all add: bd b(1,2))
qed

lemma writers_behind:
  assumes "interleaved s evs s'" and "pending s = (\<lambda>_. None)" and "0 \<le> bd_global (shared_buffer s)"
    and "\<forall>i. layout_ok (bd_start (shared_buffer s) i)"
    and "list_all writable (reserved evs)"
    and "bd_global (shared_buffer s) + int (length (reserved evs)) < BUFFERSIZE"
  shows "\<exists>seq. rfold (WriteRecord 1) (reserved evs) (holding (shared_buffer s)) = Inr (holding seq) \<and>
    behind s' seq \<and> (\<forall>i. layout_ok (bd_start seq i)) \<and>
    bd_global seq = bd_global (shared_buffer s) + int (length (reserved evs))"
  using assms
proof (induction rule: interleaved.induct)
  case (nothing s)
  then show ?case by (auto simp: behind_def)
next
  case (another s evs s' e s'')
  have "reserved evs = take (length (reserved evs)) (reserved (evs @ [e]))"
    by (simp add: reserved_append)
  moreover have "length (reserved evs) \<le> length (reserved (evs @ [e]))" by (simp add: reserved_append)
  ultimately obtain seq where seq: "rfold (WriteRecord 1) (reserved evs) (holding (shared_buffer s)) = Inr (holding seq)"
    "behind s' seq" "\<forall>i. layout_ok (bd_start seq i)"
    "bd_global seq = bd_global (shared_buffer s) + int (length (reserved evs))"
    using another.IH another.prems by (auto simp: reserved_append)
  from another.hyps(2) show ?case
  proof cases
    case (reserve t bd cur r)
    have room: "0 \<le> bd_global seq" "bd_global seq + 1 < BUFFERSIZE" "writable r"
      using seq(4) another.prems reserve(1) by (simp_all add: reserved_append)
    obtain seq' where "WriteRecord 1 r (holding seq) = Inr (holding seq')" "\<forall>i. layout_ok (bd_start seq' i)"
      "bd_global seq' = bd_global seq + 1" "behind s'' seq'"
      using behind_reserve [OF seq(2) reserve(3) room(3) seq(3) room(1,2)] reserve
      by (auto simp: atomic_increment_no_barrier_def)
    with seq reserve(1) show ?thesis by (auto simp: reserved_append rfold_append)
  next
    case (store t cur r bd)
    with seq behind_store [OF seq(2) store(3,4)] show ?thesis by (auto simp: reserved_append)
  qed
qed

section \<open>Properties\<close>

text \<open>C26: Writers that interleave their reservations and stores in any order leave, once all
  are done, exactly the buffer that writing the records one after the other gives, in the order
  of the reservations: no two writers share a position and none is lost.\<close>

theorem concurrent_writes_are_atomic:
  assumes "interleaved s evs s'" and "pending s = (\<lambda>_. None)" and "pending s' = (\<lambda>_. None)"
    and "0 \<le> bd_global (shared_buffer s)" and "\<forall>i. layout_ok (bd_start (shared_buffer s) i)"
    and "list_all writable (reserved evs)"
    and "bd_global (shared_buffer s) + int (length (reserved evs)) < BUFFERSIZE"
  shows "rfold (WriteRecord 1) (reserved evs) (holding (shared_buffer s)) = Inr (holding (shared_buffer s'))"
  using writers_behind [OF assms(1,2,4-7)] behind_idle [OF assms(3)] by auto

definition example_buffer :: BufferData where
  "example_buffer = \<lparr>bd_global = 0, bd_start = (\<lambda>_. zero_record), bd_fd = 5\<rparr>"

definition example_record :: "int \<Rightarrow> Record" where
  "example_record tid = zero_record\<lparr>thread_id := tid, record_type := MEMORY_OP, op_word0 := 64\<rparr>"

lemma example_record_writable: "writable (example_record tid)"
  by (simp add: writable_def layout_ok_def example_record_def zero_record_def)

lemma example_store:
  "store_record cur (example_record t) bd = Inr (bd\<lparr>bd_start := (bd_start bd)(cur := example_record t\<lparr>record_no := cur\<rparr>)\<rparr>)"
  if "bd_start bd cur = zero_record" "0 \<le> cur" "cur < BUFFERSIZE"
  using that
  by (simp add: store_record_def buffer_position fill_entry_def copy_op_def copy_prefix_def array_prefix_def
      example_record_def zero_record_def union_view_defs union_store_defs Let_def)

theorem concurrent_writes_are_atomic_witness:
  "\<exists>bd. rfold (WriteRecord 1) [example_record 1, example_record 2] (holding example_buffer) = Inr (holding bd) \<and>
     thread_id (bd_start bd 1) = 1 \<and> thread_id (bd_start bd 2) = 2"
proof -
  let ?e = "\<lambda>t. example_record t\<lparr>record_no := t\<rparr>"
  define s0 where "s0 = \<lparr>shared_buffer = example_buffer, pending = (\<lambda>_. None)\<rparr>"
  define s1 where "s1 = s0\<lparr>shared_buffer := example_buffer\<lparr>bd_global := 1\<rparr>, pending := [1 \<mapsto> (1, example_record 1)]\<rparr>"
  define s2 where "s2 = s1\<lparr>shared_buffer := example_buffer\<lparr>bd_global := 2\<rparr>,
    pending := [1 \<mapsto> (1, example_record 1), 2 \<mapsto> (2, example_record 2)]\<rparr>"
  define s3 where "s3 = s2\<lparr>shared_buffer := example_buffer\<lparr>bd_global := 2, bd_start := (\<lambda>_. zero_record)(2 := ?e 2)\<rparr>,
    pending := (pending s2)(2 := None)\<rparr>"
  define s4 where "s4 = s3\<lparr>shared_buffer := example_buffer\<lparr>bd_global := 2,
    bd_start := (\<lambda>_. zero_record)(2 := ?e 2, 1 := ?e 1)\<rparr>, pending := (pending s3)(1 := None)\<rparr>"
  have 1: "write_step s0 (Reserve 1 (example_record 1)) s1"
    using write_step.reserve [of s0 1 "example_buffer\<lparr>bd_global := 1\<rparr>" 1 "example_record 1"]
    by (simp add: s0_def s1_def atomic_increment_no_barrier_def example_buffer_def)
  have 2: "write_step s1 (Reserve 2 (example_record 2)) s2"
    using write_step.reserve [of s1 2 "example_buffer\<lparr>bd_global := 2\<rparr>" 2 "example_record 2"]
    by (simp add: s0_def s1_def s2_def atomic_increment_no_barrier_def example_buffer_def)
  have 3: "write_step s2 (Store 2) s3"
    using write_step.store [of s2 2 2 "example_record 2"] example_store [of "shared_buffer s2" 2 2]
    by (simp add: s0_def s1_def s2_def s3_def example_buffer_def BUFFERSIZE_def)
  have 4: "write_step s3 (Store 1) s4"
    using write_step.store [of s3 1 1 "example_record 1"] example_store [of "shared_buffer s3" 1 1]
    by (simp add: s0_def s1_def s2_def s3_def s4_def example_buffer_def BUFFERSIZE_def)
  have run: "interleaved s0 [Reserve 1 (example_record 1), Reserve 2 (example_record 2), Store 2, Store 1] s4"
    using interleaved.another [OF interleaved.another [OF interleaved.another [OF interleaved.another
          [OF interleaved.nothing 1] 2] 3] 4] by simp
  have "pending s4 = (\<lambda>_. None)" by (simp add: fun_eq_iff s4_def s3_def s2_def)
  then have "rfold (WriteRecord 1) [example_record 1, example_record 2] (holding example_buffer) = Inr (holding (shared_buffer s4))"
    using concurrent_writes_are_atomic [OF run]
    by (simp add: s0_def s4_def example_buffer_def example_record_writable layout_ok_zero BUFFERSIZE_def
        del: rfold.simps)
  then show ?thesis
    by (intro exI [of _ "shared_buffer s4"]) (simp add: s4_def example_record_def del: rfold.simps)
qed

lemma log_run_entries:
  assumes "InitBuffer env b = Inr (True, b0)" and "block_contents env = Some junk"
    and "\<forall>i. layout_ok (junk i)" and "list_all writable rs" and "int (length rs) < BUFFERSIZE" and "w \<noteq> 0"
  shows "\<exists>b1 es. rfold (WriteRecord w) rs b0 = Inr b1 \<and> log_of 1 rs es \<and> list_all layout_ok es \<and>
    StopBuffer (\<lambda>_. True) b1 =
      Inr (b\<lparr>written_out := written_out b @ (opened_fd env, junk 0) # map (Pair (opened_fd env)) es\<rparr>)"
proof -
  have b0: "b0 = b\<lparr>global_buffer := Some \<lparr>bd_global = 0, bd_start = junk, bd_fd = opened_fd env\<rparr>\<rparr>"
    and none: "global_buffer b = None"
    using assms(1,2) by (auto simp: InitBuffer_def Let_def split: if_splits)
  have "buffer_ok b0" "buffer_contents b0 = []" "length rs \<le> buffer_room b0"
    using assms(3,5) by (auto simp: b0 buffer_ok_def buffer_contents_def buffer_room_def BUFFERSIZE_def)
  then obtain b1 es where b1: "rfold (WriteRecord 1) rs b0 = Inr b1" "buffer_ok b1" "buffer_contents b1 = es"
    "log_of 1 rs es"
    using sink.write_all [of b0 rs] assms(4) by auto
  have "\<exists>bd. global_buffer b1 = Some bd \<and> bd_start bd 0 = junk 0 \<and> bd_fd bd = opened_fd env \<and> 0 \<le> bd_global bd \<and>
      b1\<lparr>global_buffer := None\<rparr> = b"
    using b1(1) by (rule rfold_invariant)
      (auto simp: b0 none WriteRecord_def atomic_increment_no_barrier_def store_record_def Let_def split: if_splits)
  then obtain bd where bd: "global_buffer b1 = Some bd" "bd_start bd 0 = junk 0" "bd_fd bd = opened_fd env"
    "0 \<le> bd_global bd" "b1\<lparr>global_buffer := None\<rparr> = b" by blast
  have wo: "written_out b1 = written_out b" using bd(5) by (metis buffer_state.select_convs(2) buffer_state.surjective buffer_state.update_convs(1))
  have "bd_global bd < BUFFERSIZE" using b1(2) bd(1) by (simp add: buffer_ok_def)
  moreover have "[0..bd_global bd] = 0 # [1..bd_global bd]" using bd(4) by (simp add: upto_rec1)
  ultimately have "write_entries (\<lambda>_. True) 0 bd (written_out b1) =
      Inr (written_out b @ (opened_fd env, junk 0) # map (Pair (opened_fd env)) es)"
    using b1(3) [symmetric] bd by (simp add: write_entries_all wo buffer_contents_def comp_def)
  then have "StopBuffer (\<lambda>_. True) b1 =
      Inr (b\<lparr>written_out := written_out b @ (opened_fd env, junk 0) # map (Pair (opened_fd env)) es\<rparr>)"
    using bd(1) bd(5) by (auto simp: StopBuffer_def)
  moreover have "list_all layout_ok es"
    using b1(2,3) bd(1) by (auto simp: buffer_ok_def buffer_contents_def list_all_iff)
  ultimately show ?thesis using b1 WriteRecord_nonzero [OF assms(6)] by auto
qed

text \<open>C27: From the creation of the buffer to its end, as long as fewer than \<open>BUFFERSIZE\<close>
  records are written, record writing is on, no record claims more than ten locks or stack frames
  and every \<open>write()\<close> of the final flush succeeds: every record written is in the file once, in
  the order of the writes, numbered from 1, with the members that belong to its type. The file
  starts with one entry nobody wrote: position 0, whatever the allocation left there. (What becomes
  of records beyond the end of the buffer is the subject of \<open>write_by_position\<close>.)\<close>

theorem log_keeps_every_record:
  assumes "InitBuffer env b = Inr (True, b0)" and "block_contents env = Some junk"
    and "\<forall>i. layout_ok (junk i)" and "list_all writable rs" and "int (length rs) < BUFFERSIZE" and "w \<noteq> 0"
  shows "\<exists>b1 es. rfold (WriteRecord w) rs b0 = Inr b1 \<and> log_of 1 rs es \<and>
    StopBuffer (\<lambda>_. True) b1 =
      Inr (b\<lparr>written_out := written_out b @ (opened_fd env, junk 0) # map (Pair (opened_fd env)) es\<rparr>)"
  using log_run_entries [OF assms] by blast

definition example_init :: init_env where
  "example_init = \<lparr>header_allocated = True, block_contents = Some (\<lambda>_. zero_record), opened_fd = 5\<rparr>"

theorem log_keeps_every_record_witness:
  "\<exists>b0 b1 e. InitBuffer example_init init_buffer_state = Inr (True, b0) \<and>
     rfold (WriteRecord 1) [example_record 7] b0 = Inr b1 \<and> logged_as 1 (example_record 7) e \<and>
     StopBuffer (\<lambda>_. True) b1 = Inr (init_buffer_state\<lparr>written_out := [(5, zero_record), (5, e)]\<rparr>)"
proof -
  obtain b0 where b0: "InitBuffer example_init init_buffer_state = Inr (True, b0)"
    by (simp add: InitBuffer_def example_init_def init_buffer_state_def)
  obtain b1 es where "rfold (WriteRecord 1) [example_record 7] b0 = Inr b1" "log_of 1 [example_record 7] es"
    "StopBuffer (\<lambda>_. True) b1 = Inr (init_buffer_state\<lparr>written_out := written_out init_buffer_state @
       (5, zero_record) # map (Pair 5) es\<rparr>)"
    using log_keeps_every_record [OF b0, of "\<lambda>_. zero_record" "[example_record 7]" 1]
    by (auto simp: example_init_def example_record_writable layout_ok_zero BUFFERSIZE_def simp del: rfold.simps)
  moreover from this(2) obtain e where "es = [e]" "logged_as 1 (example_record 7) e"
    by (cases es) auto
  ultimately show ?thesis using b0 by (auto simp: init_buffer_state_def simp del: rfold.simps)
qed

text \<open>C28: What a write does depends on the position it gets: inside the block the record is
  stored there; at the position just behind the block the guard, which compares with \<open>>\<close>,
  lets it through and it is stored outside; further on it is dropped; and once the position no
  longer fits an \<open>int\<close> the truncated number is negative and the record is again stored
  outside the block.\<close>

theorem write_by_position:
  assumes "w \<noteq> 0" and "global_buffer b = Some bd" and "writable r" and "\<forall>i. layout_ok (bd_start bd i)"
    and "cur = bd_global bd + 1" and "0 < cur" and "cur < 2 ^ 32"
  shows "if cur < BUFFERSIZE then
      \<exists>e. logged_as cur r e \<and> WriteRecord w r b =
        Inr (b\<lparr>global_buffer := Some (bd\<lparr>bd_global := cur, bd_start := (bd_start bd)(cur := e)\<rparr>)\<rparr>)
    else if cur = BUFFERSIZE \<or> 2 ^ 31 \<le> cur then WriteRecord w r b = Inl Out_of_bounds
    else WriteRecord w r b = Inr (b\<lparr>global_buffer := Some (bd\<lparr>bd_global := cur\<rparr>)\<rparr>)"
proof -
  consider "cur < BUFFERSIZE" | "BUFFERSIZE \<le> cur" "cur < 2 ^ 31" | "2 ^ 31 \<le> cur" by linarith
  then show ?thesis
  proof cases
    case 1
    then show ?thesis using WriteRecord_ok [OF assms(1-3)] assms(4-6) by auto
  next
    case 2
    then have "to_int32 cur = cur" by (intro to_int32_id) (simp add: int32_def BUFFERSIZE_def)
    with 2 assms(1,2,5) show ?thesis
      by (auto simp: WriteRecord_def atomic_increment_no_barrier_def store_record_def Let_def)
  next
    case 3
    then have "to_int32 cur < 0" and "BUFFERSIZE < cur"
      using assms(7) by (simp_all add: to_int32_def BUFFERSIZE_def)
    with assms(1,2,5) 3 show ?thesis
      by (simp add: WriteRecord_def atomic_increment_no_barrier_def store_record_def BUFFERSIZE_def)
  qed
qed

theorem write_by_position_witness:
  "WriteRecord 1 (example_record 7) (holding (example_buffer\<lparr>bd_global := 4999999\<rparr>)) = Inl Out_of_bounds"
  using write_by_position [of 1 "holding (example_buffer\<lparr>bd_global := 4999999\<rparr>)"
      "example_buffer\<lparr>bd_global := 4999999\<rparr>" "example_record 7" 5000000]
  by (simp add: holding_def example_record_writable layout_ok_zero BUFFERSIZE_def example_buffer_def)

text \<open>Dropped records still advance the shared pointer, and the loop that writes the file
  follows that pointer: once as many records as the block has positions were offered, ending the
  run (or flushing) reads behind the block.\<close>

lemma full_buffer_overreads:
  assumes "global_buffer b = Some bd" and "BUFFERSIZE \<le> bd_global bd"
  shows "StopBuffer wr b = Inl Out_of_bounds \<and> FlushBuffer wr b = Inl Out_of_bounds"
proof -
  have "write_entries wr 0 bd (written_out b) = Inl Out_of_bounds"
    using assms(2) by (intro write_entries_overrun) (simp_all add: BUFFERSIZE_def)
  with assms(1) show ?thesis by (simp add: StopBuffer_def FlushBuffer_def)
qed

lemma full_buffer_overreads_example:
  "StopBuffer (\<lambda>_. True) (holding (example_buffer\<lparr>bd_global := 5000001\<rparr>)) = Inl Out_of_bounds"
  using full_buffer_overreads [of "holding (example_buffer\<lparr>bd_global := 5000001\<rparr>)" "example_buffer\<lparr>bd_global := 5000001\<rparr>" "\<lambda>_. True"]
  by (simp add: holding_def BUFFERSIZE_def)

end
