(* ===== verification/Racez_Mutex.thy ===== *)
theory Racez_Mutex
  imports Racez_Prelude
begin

text \<open>
  The locks a thread holds (racez_lockset.h, racez_lockset.cc, racez_mutex.cc): a fixed array of
  ten mutex addresses with a count and an overflow flag, one per thread, found through a
  thread-specific key. \<open>add_one_mutex\<close> and \<open>remove_one_mutex\<close> are called by the
  interposed locking functions and, since libunwind locks too, from inside the signal handler. The
  functions are therefore also given as the sequence of stores the code makes, so that an
  interruption between two stores can be stated.

  The delay loops that \<open>racez_sample_skid\<close> turns on change no state and are left out.
\<close>

section \<open>The lockset of a thread\<close>

record LOCKSET =
  ls_n :: int
  ls_overflow :: bool
  ls_lockset :: "ptr list"

text \<open>Thread-specific data: whether the key exists, and its value in each thread.\<close>

record tls_state =
  tls_created :: bool
  tls_value :: "int \<Rightarrow> LOCKSET option"

definition init_tls :: tls_state where
  "init_tls = \<lparr>tls_created = False, tls_value = (\<lambda>_. None)\<rparr>"

definition Create_Tls_Key :: "tls_state \<Rightarrow> tls_state" where
  "Create_Tls_Key st =
     (if tls_created st then st else st\<lparr>tls_created := True, tls_value := (\<lambda>_. None)\<rparr>)"

text \<open>
  The code reads the value before it has created the key. POSIX leaves that undefined; the model
  takes a null pointer, which is what the usual implementation gives as long as the zero that the
  variable of the key then holds is no key of another library.
\<close>

definition GetPerThreadLockset :: "int \<Rightarrow> tls_state \<Rightarrow> LOCKSET option" where
  "GetPerThreadLockset tid st = (if tls_created st then tls_value st tid else None)"

text \<open>
  The parameter is what \<open>malloc\<close> returns: \<open>None\<close> for a null pointer, otherwise the
  ten words the fresh array happens to hold.
\<close>

definition SetPerThreadLockset :: "ptr list option \<Rightarrow> int \<Rightarrow> tls_state \<Rightarrow> tls_state result" where
  "SetPerThreadLockset fresh tid st =
     (case fresh of
        None \<Rightarrow> Inl Null_pointer
      | Some junk \<Rightarrow>
          Inr (st\<lparr>tls_value := (tls_value st)
                   (tid \<mapsto> \<lparr>ls_n = 0, ls_overflow = False, ls_lockset = junk\<rparr>)\<rparr>))"

section \<open>Adding and removing a mutex\<close>

text \<open>The three stores of \<open>add_one_mutex\<close>, in the order of the code.\<close>

definition add_count :: "LOCKSET \<Rightarrow> LOCKSET" where
  "add_count l = l\<lparr>ls_n := ls_n l + 1\<rparr>"

definition add_entry :: "ptr \<Rightarrow> LOCKSET \<Rightarrow> LOCKSET result" where
  "add_entry m l = rbind (array_write (ls_lockset l) (ls_n l - 1) m) (\<lambda>arr. Inr (l\<lparr>ls_lockset := arr\<rparr>))"

definition add_flag :: "LOCKSET \<Rightarrow> LOCKSET" where
  "add_flag l = (if ls_n l = 10 then l\<lparr>ls_overflow := True\<rparr> else l)"

definition lockset_add :: "ptr \<Rightarrow> LOCKSET \<Rightarrow> LOCKSET result" where
  "lockset_add m l =
     (if ls_overflow l = False then rbind (add_entry m (add_count l)) (\<lambda>l'. Inr (add_flag l')) else Inr l)"

text \<open>The search loop of \<open>remove_one_mutex\<close>: the first index below the count with the mutex.\<close>

function remove_scan :: "int \<Rightarrow> int \<Rightarrow> ptr \<Rightarrow> ptr list \<Rightarrow> int option result" where
  "remove_scan i lock_count m arr =
     (if i < lock_count
      then rbind (array_read arr i)
             (\<lambda>x. if x = m then Inr (Some i) else remove_scan (i + 1) lock_count m arr)
      else Inr None)"
  by pat_completeness auto
termination
  by (relation "measure (\<lambda>(i, lock_count, m, arr). nat (lock_count - i))") auto

declare remove_scan.simps [simp del]

text \<open>The three stores once the mutex is found at \<open>i\<close>.\<close>

definition remove_count :: "LOCKSET \<Rightarrow> LOCKSET" where
  "remove_count l = l\<lparr>ls_n := ls_n l - 1\<rparr>"

definition remove_entry :: "int \<Rightarrow> int \<Rightarrow> LOCKSET \<Rightarrow> LOCKSET result" where
  "remove_entry i lock_count l =
     rbind (array_read (ls_lockset l) (lock_count - 1)) (\<lambda>x.
     rbind (array_write (ls_lockset l) i x) (\<lambda>arr. Inr (l\<lparr>ls_lockset := arr\<rparr>)))"

definition remove_flag :: "LOCKSET \<Rightarrow> LOCKSET" where
  "remove_flag l = (if ls_overflow l = True then l\<lparr>ls_overflow := False\<rparr> else l)"

definition lockset_remove :: "ptr \<Rightarrow> LOCKSET \<Rightarrow> LOCKSET result" where
  "lockset_remove m l =
     (let lock_count = ls_n l in
      rbind (remove_scan 0 lock_count m (ls_lockset l)) (\<lambda>found.
        case found of
          None \<Rightarrow> Inr l
        | Some i \<Rightarrow> rbind (remove_entry i lock_count (remove_count l)) (\<lambda>l'. Inr (remove_flag l'))))"

text \<open>The functions of racez_mutex.cc: find or create the lockset of the thread, then change it.\<close>

definition ensure_lockset :: "ptr list option \<Rightarrow> int \<Rightarrow> tls_state \<Rightarrow> tls_state result" where
  "ensure_lockset fresh tid st =
     (if GetPerThreadLockset tid st = None then SetPerThreadLockset fresh tid (Create_Tls_Key st) else Inr st)"

definition update_lockset ::
  "(LOCKSET \<Rightarrow> LOCKSET result) \<Rightarrow> ptr list option \<Rightarrow> int \<Rightarrow> tls_state \<Rightarrow> tls_state result" where
  "update_lockset f fresh tid st =
     rbind (ensure_lockset fresh tid st) (\<lambda>st'.
       case GetPerThreadLockset tid st' of
         None \<Rightarrow> Inl Null_pointer
       | Some l \<Rightarrow> rbind (f l) (\<lambda>l'. Inr (st'\<lparr>tls_value := (tls_value st')(tid \<mapsto> l')\<rparr>)))"

definition add_one_mutex :: "ptr list option \<Rightarrow> int \<Rightarrow> ptr \<Rightarrow> tls_state \<Rightarrow> tls_state result" where
  "add_one_mutex fresh tid mutex st = update_lockset (lockset_add mutex) fresh tid st"

definition remove_one_mutex :: "ptr list option \<Rightarrow> int \<Rightarrow> ptr \<Rightarrow> tls_state \<Rightarrow> tls_state result" where
  "remove_one_mutex fresh tid mutex st = update_lockset (lockset_remove mutex) fresh tid st"

section \<open>Interruption by the signal handler\<close>

text \<open>
  A signal handler that runs in the thread locks and unlocks mutexes in pairs, each pair
  complete before the handler returns. \<open>add_interrupted\<close> and \<open>remove_interrupted\<close> are
  the functions above with such a handler between the change of the count and the change of
  the array.
\<close>

definition handler_pair :: "ptr \<Rightarrow> LOCKSET \<Rightarrow> LOCKSET result" where
  "handler_pair m l = rbind (lockset_add m l) (lockset_remove m)"

definition handler_locks :: "ptr list \<Rightarrow> LOCKSET \<Rightarrow> LOCKSET result" where
  "handler_locks ms l = rfold handler_pair ms l"

definition add_interrupted :: "ptr list \<Rightarrow> ptr \<Rightarrow> LOCKSET \<Rightarrow> LOCKSET result" where
  "add_interrupted ms m l =
     (if ls_overflow l = False
      then rbind (handler_locks ms (add_count l)) (\<lambda>l1.
           rbind (add_entry m l1) (\<lambda>l2. Inr (add_flag l2)))
      else Inr l)"

definition remove_interrupted :: "ptr list \<Rightarrow> ptr \<Rightarrow> LOCKSET \<Rightarrow> LOCKSET result" where
  "remove_interrupted ms m l =
     (let lock_count = ls_n l in
      rbind (remove_scan 0 lock_count m (ls_lockset l)) (\<lambda>found.
        case found of
          None \<Rightarrow> Inr l
        | Some i \<Rightarrow>
            rbind (handler_locks ms (remove_count l)) (\<lambda>l1.
            rbind (remove_entry i lock_count l1) (\<lambda>l2. Inr (remove_flag l2)))))"

section \<open>Invariant and contents\<close>

definition lockset_ok :: "LOCKSET \<Rightarrow> bool" where
  "lockset_ok l \<longleftrightarrow> length (ls_lockset l) = 10 \<and> 0 \<le> ls_n l \<and> ls_n l \<le> 10 \<and> (ls_overflow l \<longleftrightarrow> ls_n l = 10)"

definition entries :: "LOCKSET \<Rightarrow> ptr list" where
  "entries l = take (nat (ls_n l)) (ls_lockset l)"

definition recorded :: "LOCKSET \<Rightarrow> ptr multiset" where
  "recorded l = mset (entries l)"

lemma length_entries: "lockset_ok l \<Longrightarrow> length (entries l) = nat (ls_n l)"
  by (auto simp: lockset_ok_def entries_def min_def)

lemma size_recorded: "lockset_ok l \<Longrightarrow> size (recorded l) = nat (ls_n l)"
  by (simp add: recorded_def length_entries)

lemma lockset_add_open:
  assumes "length (ls_lockset l) = 10" and "0 \<le> ls_n l" and "ls_n l < 10" and "\<not> ls_overflow l"
  shows "\<exists>l'. lockset_add m l = Inr l' \<and> lockset_ok l' \<and> entries l' = entries l @ [m]"
proof -
  let ?k = "nat (ls_n l)"
  have k: "?k < 10" "nat (ls_n l + 1) = Suc ?k" using assms by simp_all
  have "lockset_add m l = Inr (add_flag (l\<lparr>ls_n := ls_n l + 1, ls_lockset := (ls_lockset l)[?k := m]\<rparr>))"
    using assms by (simp add: lockset_add_def add_entry_def add_count_def array_write_def)
  moreover have "take (Suc ?k) ((ls_lockset l)[?k := m]) = take ?k (ls_lockset l) @ [m]"
    using k assms(1) by (simp add: take_Suc_conv_app_nth)
  ultimately show ?thesis
    using assms k by (auto simp: lockset_ok_def entries_def add_flag_def)
qed

lemma lockset_add_ok:
  assumes "lockset_ok l"
  shows "\<exists>l'. lockset_add m l = Inr l' \<and> lockset_ok l' \<and>
    recorded l' = (if size (recorded l) < 10 then add_mset m (recorded l) else recorded l)"
proof (cases "ls_overflow l")
  case True
  with assms have "\<not> size (recorded l) < 10"
    by (simp add: size_recorded) (simp add: lockset_ok_def)
  with True assms show ?thesis by (simp add: lockset_add_def)
next
  case False
  with assms obtain l' where "lockset_add m l = Inr l'" "lockset_ok l'" "entries l' = entries l @ [m]"
    using lockset_add_open [of l m] by (auto simp: lockset_ok_def)
  moreover have "size (recorded l) < 10"
    using False assms by (simp add: size_recorded) (auto simp: lockset_ok_def)
  ultimately show ?thesis by (simp add: recorded_def)
qed

lemma remove_scan_index:
  assumes "0 \<le> i" and "n \<le> int (length arr)"
  shows "remove_scan i n m arr =
    (let rest = drop (nat i) (take (nat n) arr); j = find_index (\<lambda>x. x = m) rest
     in Inr (if j = length rest then None else Some (i + int j)))"
  using assms
proof (induction i n m arr rule: remove_scan.induct)
  case (1 i n m arr)
  show ?case
  proof (cases "i < n")
    case False
    then have "drop (nat i) (take (nat n) arr) = []" by simp
    with False show ?thesis
      by (subst remove_scan.simps) (simp add: find_index_def)
  next
    case True
    then have i: "nat i < length (take (nat n) arr)" and r: "array_read arr i = Inr (arr ! nat i)"
      using "1.prems" by (auto simp: array_read_def)
    have d: "drop (nat i) (take (nat n) arr) = arr ! nat i # drop (nat (i + 1)) (take (nat n) arr)"
      using Cons_nth_drop_Suc [OF i] "1.prems"(1) i by (simp add: nat_add_distrib)
    show ?thesis
    proof (cases "arr ! nat i = m")
      case hit: True
      then show ?thesis
        using True r by (subst remove_scan.simps) (simp add: d find_index_def)
    next
      case miss: False
      have "remove_scan (i + 1) n m arr =
        (let rest = drop (nat (i + 1)) (take (nat n) arr); j = find_index (\<lambda>x. x = m) rest
         in Inr (if j = length rest then None else Some (i + 1 + int j)))"
        using "1.prems" True r miss by (intro "1.IH") auto
      then show ?thesis
        using True r miss by (subst remove_scan.simps) (simp add: d find_index_def Let_def)
    qed
  qed
qed

lemma scan_entries:
  assumes "lockset_ok l"
  shows "remove_scan 0 (ls_n l) m (ls_lockset l) =
    (let j = find_index (\<lambda>x. x = m) (entries l)
     in Inr (if j = length (entries l) then None else Some (int j)))"
  using assms by (simp add: remove_scan_index lockset_ok_def entries_def Let_def)

lemma lockset_remove_missing:
  assumes "lockset_ok l" and "m \<notin> set (entries l)"
  shows "lockset_remove m l = Inr l"
proof -
  have "find_index (\<lambda>x. x = m) (entries l) = length (entries l)"
    using assms(2) by (auto simp: find_index_eq_length)
  then have "remove_scan 0 (ls_n l) m (ls_lockset l) = Inr None"
    using assms(1) by (simp add: scan_entries)
  then show ?thesis by (simp add: lockset_remove_def)
qed

lemma lockset_remove_run:
  assumes "lockset_ok l" and "entries l = us @ m # vs" and "m \<notin> set us"
  shows "lockset_remove m l = Inr (l\<lparr>ls_n := ls_n l - 1,
    ls_lockset := (ls_lockset l)[length us := ls_lockset l ! (nat (ls_n l) - 1)], ls_overflow := False\<rparr>)"
proof -
  let ?n = "nat (ls_n l)" and ?i = "length us" and ?arr = "ls_lockset l"
  have len: "length ?arr = 10" "?n \<le> 10" "?n = length us + Suc (length vs)" "ls_n l = int ?n"
    using assms(1,2) length_entries [OF assms(1)] by (auto simp: lockset_ok_def)
  have "find_index (\<lambda>x. x = m) (entries l) = ?i"
    unfolding assms(2) using assms(3) by (auto simp: find_index_def takeWhile_append)
  then have scan: "remove_scan 0 (ls_n l) m ?arr = Inr (Some (int ?i))"
    using assms(1,2) by (simp add: scan_entries)
  have "0 \<le> ls_n l - 1" "ls_n l - 1 < 10" "nat (ls_n l - 1) = ?n - 1" using len by simp_all
  with len(1) have rd: "array_read ?arr (ls_n l - 1) = Inr (?arr ! (?n - 1))"
    by (simp add: array_read_def)
  have "array_write ?arr (int ?i) x = Inr (?arr[?i := x])" for x
    using len by (simp add: array_write_def)
  then show ?thesis
    by (auto simp: lockset_remove_def scan remove_count_def remove_entry_def rd remove_flag_def Let_def
        intro!: LOCKSET.equality)
qed

lemma last_entry:
  assumes "lockset_ok l" and "entries l \<noteq> []"
  shows "ls_lockset l ! (nat (ls_n l) - 1) = last (entries l)"
proof -
  obtain k where "nat (ls_n l) = Suc k" "Suc k \<le> length (ls_lockset l)"
    using assms length_entries [OF assms(1)] by (cases "nat (ls_n l)") (auto simp: lockset_ok_def)
  then show ?thesis by (simp add: entries_def take_Suc_conv_app_nth)
qed

lemma lockset_remove_found:
  assumes "lockset_ok l" and "entries l = us @ m # vs" and "m \<notin> set us"
  shows "\<exists>l'. lockset_remove m l = Inr l' \<and> lockset_ok l' \<and>
    entries l' = (if vs = [] then us else us @ last vs # butlast vs)"
proof -
  let ?n = "nat (ls_n l)" and ?i = "length us" and ?arr = "ls_lockset l"
  have len: "length ?arr = 10" "?n \<le> 10" "?n = length us + Suc (length vs)" "ls_n l = int ?n"
    using assms(1,2) length_entries [OF assms(1)] by (auto simp: lockset_ok_def)
  have "take (?n - 1) (?arr[?i := x]) = (butlast (entries l))[?i := x]" for x
    using len by (simp add: entries_def take_update_swap butlast_take)
  moreover have "nat (ls_n l - 1) = ?n - 1" by simp
  ultimately have "take (nat (ls_n l - 1)) (?arr[?i := ?arr ! (?n - 1)]) = (butlast (entries l))[?i := last (entries l)]"
    using last_entry [OF assms(1)] assms(2) by simp
  also have "\<dots> = (if vs = [] then us else us @ last vs # butlast vs)"
    by (simp add: assms(2) butlast_append list_update_append)
  finally show ?thesis
    using lockset_remove_run [OF assms] len by (auto simp: lockset_ok_def entries_def)
qed

lemma lockset_remove_ok:
  assumes "lockset_ok l"
  shows "\<exists>l'. lockset_remove m l = Inr l' \<and> lockset_ok l' \<and> recorded l' = recorded l - {#m#}"
proof (cases "m \<in> set (entries l)")
  case False
  then show ?thesis
    using lockset_remove_missing [OF assms] assms by (simp add: recorded_def diff_single_trivial)
next
  case True
  then obtain us vs where e: "entries l = us @ m # vs" "m \<notin> set us"
    by (meson split_list_first)
  obtain l' where "lockset_remove m l = Inr l'" "lockset_ok l'"
    "entries l' = (if vs = [] then us else us @ last vs # butlast vs)"
    using lockset_remove_found [OF assms e] by blast
  moreover have "mset (if vs = [] then us else us @ last vs # butlast vs) = mset us + mset vs"
    by (cases vs rule: rev_cases) simp_all
  ultimately show ?thesis
    by (auto simp: recorded_def e(1))
qed

section \<open>The contract of the tracker\<close>

datatype lock_op = Acquire ptr | Release ptr

fun held_step :: "lock_op \<Rightarrow> ptr multiset \<Rightarrow> ptr multiset" where
  "held_step (Acquire m) h = add_mset m h"
| "held_step (Release m) h = h - {#m#}"

text \<open>The locks really held after a sequence of operations; at most \<open>c\<close> held at any time.\<close>

definition held_after :: "lock_op list \<Rightarrow> ptr multiset" where
  "held_after ops = fold held_step ops {#}"

definition within :: "nat \<Rightarrow> lock_op list \<Rightarrow> bool" where
  "within c ops \<longleftrightarrow> list_all (\<lambda>k. size (held_after (take k ops)) \<le> c) [0..<Suc (length ops)]"

fun track_step :: "(ptr \<Rightarrow> 'l \<Rightarrow> 'l result) \<Rightarrow> (ptr \<Rightarrow> 'l \<Rightarrow> 'l result) \<Rightarrow> lock_op \<Rightarrow> 'l \<Rightarrow> 'l result" where
  "track_step add remove (Acquire m) l = add m l"
| "track_step add remove (Release m) l = remove m l"

lemma held_after_snoc: "held_after (ops @ [e]) = held_step e (held_after ops)"
  by (simp add: held_after_def)

lemma within_snoc: "within c (ops @ [e]) \<longleftrightarrow> within c ops \<and> size (held_after (ops @ [e])) \<le> c"
  by (auto simp: within_def list_all_iff less_Suc_eq)

text \<open>
  A tracker of bounded capacity: what it records after an acquisition and a release. Clients
  learn that it never records a lock that is not held, and records all of them as long as no
  more than its capacity are held.
\<close>

locale lock_tracker =
  fixes add :: "ptr \<Rightarrow> 'l \<Rightarrow> 'l result"
    and remove :: "ptr \<Rightarrow> 'l \<Rightarrow> 'l result"
    and contents :: "'l \<Rightarrow> ptr multiset"
    and ok :: "'l \<Rightarrow> bool"
    and capacity :: nat
  assumes add_spec: "ok l \<Longrightarrow> \<exists>l'. add m l = Inr l' \<and> ok l' \<and>
      contents l' = (if size (contents l) < capacity then add_mset m (contents l) else contents l)"
    and remove_spec: "ok l \<Longrightarrow> \<exists>l'. remove m l = Inr l' \<and> ok l' \<and> contents l' = contents l - {#m#}"
begin

lemma step_total:
  assumes "ok l" and "contents l \<subseteq># h"
  shows "\<exists>l'. track_step add remove e l = Inr l' \<and> ok l' \<and> contents l' \<subseteq># held_step e h \<and>
    (contents l = h \<and> size (held_step e h) \<le> capacity \<longrightarrow> contents l' = held_step e h)"
proof (cases e)
  case (Acquire m)
  obtain l' where "add m l = Inr l'" "ok l'"
    "contents l' = (if size (contents l) < capacity then add_mset m (contents l) else contents l)"
    using add_spec [OF assms(1)] by blast
  moreover have "contents l \<subseteq># add_mset m h"
    using assms(2) by (rule subset_mset.order_trans) simp
  ultimately show ?thesis using Acquire assms(2) by auto
next
  case (Release m)
  obtain l' where "remove m l = Inr l'" "ok l'" "contents l' = contents l - {#m#}"
    using remove_spec [OF assms(1)] by blast
  with Release assms(2) show ?thesis by (auto simp: mset_diff_mono)
qed

lemma run_spec:
  assumes "ok l0" and "contents l0 = {#}"
  shows "\<exists>l. rfold (track_step add remove) ops l0 = Inr l \<and> ok l \<and> contents l \<subseteq># held_after ops \<and>
    (within capacity ops \<longrightarrow> contents l = held_after ops)"
proof (induction ops rule: rev_induct)
  case Nil
  with assms show ?case by (simp add: held_after_def)
next
  case (snoc e ops)
  then obtain l where l: "rfold (track_step add remove) ops l0 = Inr l" "ok l" "contents l \<subseteq># held_after ops"
    "within capacity ops \<longrightarrow> contents l = held_after ops" by blast
  with step_total [of l "held_after ops" e] show ?case
    by (auto simp: rfold_append within_snoc held_after_snoc)
qed

end

interpretation lt: lock_tracker lockset_add lockset_remove recorded lockset_ok 10
  by unfold_locales (auto simp: lockset_add_ok lockset_remove_ok)

end
