(* ===== verification/Racez_Runtime.thy ===== *)
theory Racez_Runtime
  imports Racez_Bufferdata Racez_Mutex
begin

text \<open>
  The state of the preloaded library (the global variables of racez_preload.c and
  racez_pmuprofiler.cc together with the buffer and the locksets), shared by the interposed
  functions and the profiler. The performance counters are reached through libpfm and the kernel;
  the calls that configure them are kept as a trace.
\<close>

section \<open>Flags\<close>

record racez_flags =
  racez_enable :: int
  racez_lockset :: int
  racez_signal_wait :: int
  racez_memory_allocator :: int
  racez_stacktrace :: int
  racez_sampling_adjust :: int
  racez_sample_skid :: int
  racez_signal_sample :: int
  racez_write_record :: int

definition default_flags :: racez_flags where
  "default_flags = \<lparr>racez_enable = 0, racez_lockset = 1, racez_signal_wait = 0,
     racez_memory_allocator = 0, racez_stacktrace = 0, racez_sampling_adjust = 0,
     racez_sample_skid = 0, racez_signal_sample = 0, racez_write_record = 0\<rparr>"

section \<open>Performance counters\<close>

text \<open>The PMU types the code tells apart; before the first query the variable is zero.\<close>

datatype pmu_type =
    PFMLIB_INTEL_CORE_PMU
  | PFMLIB_INTEL_NHM_PMU
  | PFMLIB_AMD64_PMU
  | OTHER_PMU int

text \<open>
  The registers the code hands to libpfm. The flag \<open>PFM_REGFL_OVFL_NOTIFY\<close> of a data
  register and \<open>PFM_REGFL_NO_EMUL64\<close> of a control register are booleans.
\<close>

record pmd =
  pmd_num :: int
  pmd_notify :: bool
  pmd_value :: ptr
  pmd_long_reset :: ptr
  pmd_short_reset :: ptr
  pmd_smpl_pmds :: ptr

record pmc =
  pmc_num :: int
  pmc_value :: ptr
  pmc_no_emul64 :: bool

definition zero_pmd :: pmd where
  "zero_pmd = \<lparr>pmd_num = 0, pmd_notify = False, pmd_value = 0, pmd_long_reset = 0,
     pmd_short_reset = 0, pmd_smpl_pmds = 0\<rparr>"

definition zero_pmc :: pmc where
  "zero_pmc = \<lparr>pmc_num = 0, pmc_value = 0, pmc_no_emul64 = False\<rparr>"

datatype pmu_call =
    Create_context
  | Write_pmcs int "pmc list"
  | Write_pmds int "pmd list"
  | Load_context int int
  | Set_async int
  | Set_owner int int
  | Set_signal int
  | Self_start int
  | Restart int
  | Stop_context int

text \<open>
  The mapped sampling buffer of a thread: the header members the code reads, and the entries
  that lie behind the header at steps of the entry size.
\<close>

record smpl_hdr =
  hdr_version :: int
  hdr_count :: nat
  hdr_entries :: "pebs_entry list"

datatype sig_action = Default_action | Ignore_signal | Call_handler

section \<open>The library state\<close>

record runtime =
  rt_flags :: racez_flags
  rt_initialized :: bool
  rt_buffer :: buffer_state
  rt_tls :: tls_state
  hdr_key_created :: bool
  tls_hdr :: "int \<Rightarrow> smpl_hdr option"
  rt_type :: pmu_type
  sig_enable :: bool
  sigio_action :: sig_action
  tid_fd_map :: "(int, int) omap"
  num_stat :: int
  pmu_calls :: "pmu_call list"

definition init_runtime :: runtime where
  "init_runtime = \<lparr>rt_flags = default_flags, rt_initialized = False, rt_buffer = init_buffer_state,
     rt_tls = init_tls, hdr_key_created = False, tls_hdr = (\<lambda>_. None), rt_type = OTHER_PMU 0,
     sig_enable = False, sigio_action = Default_action, tid_fd_map = [], num_stat = 0, pmu_calls = []\<rparr>"

text \<open>A call of \<open>WriteRecord\<close> from the library.\<close>

definition log_record :: "Record \<Rightarrow> runtime \<Rightarrow> runtime result" where
  "log_record r rt =
     rbind (WriteRecord (racez_write_record (rt_flags rt)) r (rt_buffer rt)) (\<lambda>b. Inr (rt\<lparr>rt_buffer := b\<rparr>))"

definition pmu_trace :: "pmu_call \<Rightarrow> runtime \<Rightarrow> runtime" where
  "pmu_trace c rt = rt\<lparr>pmu_calls := pmu_calls rt @ [c]\<rparr>"

text \<open>What a call of \<open>log_record\<close> leaves alone: everything but the buffer.\<close>

definition same_but_buffer :: "runtime \<Rightarrow> runtime \<Rightarrow> bool" where
  "same_but_buffer rt rt' \<longleftrightarrow> rt' = rt\<lparr>rt_buffer := rt_buffer rt'\<rparr>"

lemma log_record_frame: "log_record r rt = Inr rt' \<Longrightarrow> same_but_buffer rt rt'"
  by (auto simp: log_record_def same_but_buffer_def)

lemma same_but_buffer_trans: "same_but_buffer a b \<Longrightarrow> same_but_buffer b c \<Longrightarrow> same_but_buffer a c"
  unfolding same_but_buffer_def by (metis runtime.surjective runtime.update_convs(3))

lemma same_but_buffer_refl: "same_but_buffer a a"
  by (simp add: same_but_buffer_def)

text \<open>The library is logging and the buffer has room for \<open>k\<close> more records.\<close>

definition logging :: "nat \<Rightarrow> runtime \<Rightarrow> bool" where
  "logging k rt \<longleftrightarrow> racez_write_record (rt_flags rt) \<noteq> 0 \<and> buffer_ok (rt_buffer rt) \<and> k \<le> buffer_room (rt_buffer rt)"

definition logged :: "runtime \<Rightarrow> Record list" where
  "logged rt = buffer_contents (rt_buffer rt)"

lemma log_record_ok:
  assumes "logging (Suc k) rt" and "writable r"
  shows "\<exists>rt' e. log_record r rt = Inr rt' \<and> logging k rt' \<and> same_but_buffer rt rt' \<and>
    logged rt' = logged rt @ [e] \<and> logged_as (int (length (logged rt)) + 1) r e \<and> same_file (rt_buffer rt) (rt_buffer rt')"
proof -
  have w: "WriteRecord (racez_write_record (rt_flags rt)) = WriteRecord 1"
    using assms(1) by (intro WriteRecord_nonzero) (simp add: logging_def)
  obtain b e where b: "WriteRecord 1 r (rt_buffer rt) = Inr b" "buffer_ok b" "buffer_contents b = buffer_contents (rt_buffer rt) @ [e]"
      "logged_as (int (length (buffer_contents (rt_buffer rt))) + 1) r e" "buffer_room b = buffer_room (rt_buffer rt) - 1"
    using sink.write_spec [of "rt_buffer rt" r] assms by (auto simp: logging_def)
  have "same_file (rt_buffer rt) b"
    using WriteRecord_same_file [OF _ _ assms(2) b(1)] assms(1) by (simp add: logging_def)
  with b w assms(1) show ?thesis
    by (auto simp: log_record_def logging_def logged_def same_but_buffer_def)
qed

end
