(* ===== verification/Racez_Sampling.thy ===== *)
theory Racez_Sampling
  imports Racez_Runtime
begin

text \<open>
  The signal handler of racez_pmuprofiler.cc: what it makes of a counter overflow. The kernel,
  libpfm and libunwind are parameters: the interrupted context, the contents of the sampling
  buffer, the values of the IBS registers and the frames the unwinder finds.

  Messages on the terminal are left out. libunwind locks mutexes of its own; its effect on the
  lockset of the interrupted thread is the subject of the theory on mutexes.
\<close>

section \<open>Records of a sample\<close>

text \<open>The general registers of the interrupted context, by their index in \<open>gregs\<close>.\<close>

type_synonym gregs = "nat \<Rightarrow> ptr"

definition pebs_record :: "Record \<Rightarrow> int \<Rightarrow> pebs_entry \<Rightarrow> ptr \<Rightarrow> Record" where
  "pebs_record r tid entry user_ip =
     (set_pip (pebs_ip entry) (set_memory_address 0 (r\<lparr>thread_id := tid, record_type := MEMORY_OP\<rparr>)))
       \<lparr>is_write := 0, sip := user_ip, mem_op := entry\<rparr>"

definition user_entry :: "gregs \<Rightarrow> ptr \<Rightarrow> pebs_entry" where
  "user_entry g user_ip = \<lparr>pebs_eflags = g 17, pebs_ip = user_ip, pebs_eax = g 13, pebs_ebx = g 11,
     pebs_ecx = g 14, pebs_edx = g 12, pebs_esi = g 9, pebs_edi = g 8, pebs_ebp = g 10,
     pebs_esp = g 15, pebs_r8 = g 0, pebs_r9 = g 1, pebs_r10 = g 2, pebs_r11 = g 3, pebs_r12 = g 4,
     pebs_r13 = g 5, pebs_r14 = g 6, pebs_r15 = g 7\<rparr>"

definition user_record :: "int \<Rightarrow> gregs \<Rightarrow> ptr \<Rightarrow> Record" where
  "user_record tid g user_ip =
     (set_pip user_ip (set_memory_address 0 (zero_record\<lparr>thread_id := tid, record_type := MEMORY_OP\<rparr>)))
       \<lparr>is_write := 0, sip := user_ip, mem_op := user_entry g user_ip\<rparr>"

text \<open>The copy of the thread's lockset into the record; nothing when there is none.\<close>

definition take_lockset :: "LOCKSET option \<Rightarrow> Record \<Rightarrow> Record result" where
  "take_lockset ls r =
     (case ls of
        None \<Rightarrow> Inr r
      | Some l \<Rightarrow>
          rbind (copy_prefix (ls_lockset l) (ls_n l) (lockset r)) (\<lambda>arr.
            Inr (r\<lparr>lock_count := ls_n l, lockset := arr\<rparr>)))"

definition write_pebs_info ::
  "Record \<Rightarrow> int \<Rightarrow> pebs_entry \<Rightarrow> ptr \<Rightarrow> gregs \<Rightarrow> runtime \<Rightarrow> runtime result" where
  "write_pebs_info r tid entry user_ip g rt =
     (let ls = (if racez_lockset (rt_flags rt) \<noteq> 0 then GetPerThreadLockset tid (rt_tls rt) else None)
      in rbind (take_lockset ls (pebs_record r tid entry user_ip)) (\<lambda>r1.
         rbind (log_record r1 rt) (\<lambda>rt1.
           if racez_signal_sample (rt_flags rt) \<noteq> 0 \<and> rt_type rt = PFMLIB_INTEL_CORE_PMU
           then rbind (take_lockset ls (user_record tid g user_ip)) (\<lambda>u. log_record u rt1)
           else Inr rt1)))"

definition ibs_record :: "Record \<Rightarrow> int \<Rightarrow> ptr \<Rightarrow> ptr \<Rightarrow> bool \<Rightarrow> ptr \<Rightarrow> Record" where
  "ibs_record r tid ip m_addr is_read user_ip =
     (set_pip ip (set_memory_address m_addr (r\<lparr>thread_id := tid, record_type := MEMORY_OP\<rparr>)))
       \<lparr>is_write := (if is_read then 0 else 1), sip := user_ip\<rparr>"

definition write_ibs_info ::
  "Record \<Rightarrow> int \<Rightarrow> ptr \<Rightarrow> ptr \<Rightarrow> bool \<Rightarrow> ptr \<Rightarrow> runtime \<Rightarrow> runtime result" where
  "write_ibs_info r tid ip m_addr is_read user_ip rt =
     rbind (take_lockset (GetPerThreadLockset tid (rt_tls rt)) (ibs_record r tid ip m_addr is_read user_ip))
       (\<lambda>r1. log_record r1 rt)"

section \<open>PEBS\<close>

text \<open>
  The loop \<open>while(count--)\<close> over the entries: \<open>f\<close> is called for the last one only.
\<close>

fun process_entries :: "(nat \<Rightarrow> 's \<Rightarrow> 's result) \<Rightarrow> nat \<Rightarrow> nat \<Rightarrow> 's \<Rightarrow> 's result" where
  "process_entries f 0 ent s = Inr s"
| "process_entries f (Suc cnt) ent s =
     rbind (if cnt = 0 then f ent s else Inr s) (process_entries f cnt (ent + 1))"

definition process_smpl_buf_pebs ::
  "Record \<Rightarrow> int \<Rightarrow> smpl_hdr \<Rightarrow> ptr \<Rightarrow> gregs \<Rightarrow> runtime \<Rightarrow> runtime result" where
  "process_smpl_buf_pebs r tid hdr user_ip g rt =
     (if hdr_count hdr = 0 then Inr rt
      else process_entries (\<lambda>ent rt'.
             rbind (array_read (hdr_entries hdr) (int ent)) (\<lambda>entry.
               write_pebs_info r tid entry user_ip g rt')) (hdr_count hdr) 0 rt)"

text \<open>As for the locksets, reading a key that was not created is taken to give a null pointer.\<close>

definition GetPerThreadHdr :: "int \<Rightarrow> runtime \<Rightarrow> smpl_hdr option" where
  "GetPerThreadHdr tid rt = (if hdr_key_created rt then tls_hdr rt tid else None)"

definition signal_handler_pebs :: "Record \<Rightarrow> int \<Rightarrow> gregs \<Rightarrow> runtime \<Rightarrow> runtime result" where
  "signal_handler_pebs r tid g rt =
     (case GetPerThreadHdr tid rt of
        None \<Rightarrow> Inr rt
      | Some hdr \<Rightarrow> process_smpl_buf_pebs r tid hdr (g 16) g rt)"

section \<open>IBS\<close>

text \<open>
  \<open>read_msg\<close>: the overflow message could be read. \<open>read_pmd\<close>: the value of a data
  register, \<open>None\<close> when reading it fails. \<open>ibsldop\<close> and \<open>ibsstop\<close> are the bits
  of the third operation data register that mark a load and a store.
\<close>

record ibs_env =
  read_msg :: bool
  read_pmd :: "nat \<Rightarrow> ptr option"
  ibsldop :: "ptr \<Rightarrow> bool"
  ibsstop :: "ptr \<Rightarrow> bool"

definition pfm_read_pmd :: "ibs_env \<Rightarrow> nat \<Rightarrow> ptr result" where
  "pfm_read_pmd env n = (case read_pmd env n of None \<Rightarrow> Inl (Exit_program 1) | Some v \<Rightarrow> Inr v)"

definition signal_handler_amd_ibs :: "ibs_env \<Rightarrow> Record \<Rightarrow> int \<Rightarrow> gregs \<Rightarrow> runtime \<Rightarrow> runtime result" where
  "signal_handler_amd_ibs env r tid g rt =
     (if \<not> read_msg env then Inl (Exit_program 1)
      else rbind (pfm_read_pmd env 11) (\<lambda>opdata3.
        if ibsldop env opdata3 \<or> ibsstop env opdata3 then
          rbind (pfm_read_pmd env 8) (\<lambda>ip.
          rbind (pfm_read_pmd env 12) (\<lambda>m_addr.
            if ibsldop env opdata3 then write_ibs_info r tid ip m_addr True (g 16) rt
            else write_ibs_info r tid ip m_addr False (g 16) rt))
        else Inr rt))"

section \<open>The handler\<close>

text \<open>
  The unwinder finds the return addresses \<open>frames\<close>, the innermost first; the loop stores at
  most \<open>n\<close> of them and returns their number.
\<close>

fun get_backtrace :: "ptr list \<Rightarrow> int \<Rightarrow> ptr list \<Rightarrow> int \<Rightarrow> (ptr list \<times> int) result" where
  "get_backtrace [] n buf i = Inr (buf, i)"
| "get_backtrace (ip # frames) n buf i =
     (if i < n then rbind (array_write buf i ip) (\<lambda>buf'. get_backtrace frames n buf' (i + 1))
      else Inr (buf, i))"

text \<open>The loop \<open>record.stack_trace_[i] = stack_trace[i+2]\<close> below \<open>cnt\<close>.\<close>

function shift_trace :: "int \<Rightarrow> int \<Rightarrow> ptr list \<Rightarrow> ptr list \<Rightarrow> ptr list result" where
  "shift_trace i cnt src dst =
     (if i < cnt
      then rbind (array_read src (i + 2)) (\<lambda>x.
           rbind (array_write dst i x) (\<lambda>dst'. shift_trace (i + 1) cnt src dst'))
      else Inr dst)"
  by pat_completeness auto
termination
  by (relation "measure (\<lambda>(i, cnt, src, dst). nat (cnt - i))") auto

declare shift_trace.simps [simp del]

record signal_env =
  si_fd :: int
  si_gregs :: gregs
  si_frames :: "ptr list"
  si_ibs :: ibs_env
  rand_value :: int
  write_pmds_ok :: bool

definition SMPL_PERIOD :: int where
  "SMPL_PERIOD = 200001"

definition period_value :: "int \<Rightarrow> ptr" where
  "period_value p = - word_of_int p"

definition adjusted_pmd :: "int \<Rightarrow> pmd" where
  "adjusted_pmd random_value =
     (let v = period_value (SMPL_PERIOD - random_value)
      in zero_pmd\<lparr>pmd_num := 0, pmd_notify := True, pmd_value := v, pmd_long_reset := v, pmd_short_reset := v\<rparr>)"

definition handler_trace :: "signal_env \<Rightarrow> racez_flags \<Rightarrow> Record result" where
  "handler_trace env fl =
     (if racez_stacktrace fl \<noteq> 0 then
        rbind (get_backtrace (si_frames env) 10 (replicate 10 0) 0) (\<lambda>(stack, cnt).
          let backtrace_count = cnt - 2
          in rbind (shift_trace 0 backtrace_count stack (stack_trace zero_record)) (\<lambda>st.
               Inr (zero_record\<lparr>stack_trace := st, trace_depth := backtrace_count\<rparr>)))
      else Inr zero_record)"

definition handler_dispatch :: "signal_env \<Rightarrow> Record \<Rightarrow> int \<Rightarrow> runtime \<Rightarrow> runtime result" where
  "handler_dispatch env r tid rt =
     (if rt_type rt = PFMLIB_INTEL_CORE_PMU \<or> rt_type rt = PFMLIB_INTEL_NHM_PMU then
        rbind (signal_handler_pebs r tid (si_gregs env) rt) (\<lambda>rt1.
          if racez_sampling_adjust (rt_flags rt1) \<noteq> 0 then
            (let rt2 = pmu_trace (Write_pmds (si_fd env) [adjusted_pmd (rand_value env mod 1024)]) rt1
             in if write_pmds_ok env then Inr rt2 else Inl (Exit_program 1))
          else Inr rt1)
      else if rt_type rt = PFMLIB_AMD64_PMU then
        signal_handler_amd_ibs (si_ibs env) r tid (si_gregs env) rt
      else Inl (Exit_program 1))"

text \<open>
  The handler of a signal in thread \<open>tid\<close>. The look-up \<open>tid_fd_map[tid]\<close> inserts the
  descriptor 0 for a thread that is not in the map; a mismatch is only reported.
\<close>

definition signal_handler :: "signal_env \<Rightarrow> int \<Rightarrow> runtime \<Rightarrow> runtime result" where
  "signal_handler env tid rt =
     (let rt0 = rt\<lparr>tid_fd_map := fst (map_insert tid 0 (tid_fd_map rt)), num_stat := to_int32 (num_stat rt + 1)\<rparr>
      in rbind (handler_trace env (rt_flags rt0)) (\<lambda>r.
         rbind (handler_dispatch env r tid rt0) (\<lambda>rt1.
           Inr (pmu_trace (Restart (si_fd env)) rt1))))"

section \<open>Facts about the loops\<close>

lemma process_entries_last: "0 < n \<Longrightarrow> process_entries f n ent s = f (ent + n - 1) s"
proof (induction n arbitrary: ent)
  case (Suc n)
  then show ?case by (cases n; cases "f ent s") simp_all
qed simp

lemma get_backtrace_run:
  assumes "0 \<le> i" and "i \<le> int (length buf)"
  shows "get_backtrace frames (int (length buf)) buf i =
    Inr (take (nat i) buf @ take (length buf - nat i) frames @ drop (nat i + length frames) buf,
         min (int (length buf)) (i + int (length frames)))"
  using assms
proof (induction frames "int (length buf)" buf i rule: get_backtrace.induct)
  case (1 buf i)
  then show ?case by simp
next
  case (2 ip frames buf i)
  show ?case
  proof (cases "i < int (length buf)")
    case True
    let ?k = "nat i" and ?b = "buf[nat i := ip]"
    have k: "?k < length buf" "nat (i + 1) = Suc ?k" "length buf - ?k = Suc (length buf - Suc ?k)"
      using True "2.prems" by simp_all
    have w: "array_write buf i ip = Inr ?b" using True "2.prems" by (simp add: array_write_def)
    have "get_backtrace frames (int (length buf)) ?b (i + 1) =
      Inr (take (Suc ?k) ?b @ take (length buf - Suc ?k) frames @ drop (Suc ?k + length frames) ?b,
         min (int (length buf)) (i + 1 + int (length frames)))"
      using "2.hyps" [OF True w] "2.prems" True k(2) by simp
    moreover have "take (Suc ?k) ?b = take ?k buf @ [ip]" using k(1) by (simp add: take_Suc_conv_app_nth)
    ultimately show ?thesis using True w k by (simp add: algebra_simps)
  next
    case False
    with "2.prems" show ?thesis by simp
  qed
qed

lemma shift_trace_run:
  assumes "0 \<le> i" and "i \<le> cnt" and "cnt + 2 \<le> int (length src)" and "cnt \<le> int (length dst)"
  shows "shift_trace i cnt src dst =
    Inr (take (nat i) dst @ take (nat (cnt - i)) (drop (nat i + 2) src) @ drop (nat cnt) dst)"
  using assms
proof (induction i cnt src dst rule: shift_trace.induct)
  case (1 i cnt src dst)
  show ?case
  proof (cases "i < cnt")
    case True
    let ?k = "nat i" and ?x = "src ! (nat i + 2)"
    have k: "?k < length dst" "?k + 2 < length src" "nat (i + 1) = Suc ?k" "nat (i + 2) = ?k + 2"
      "nat (cnt - i) = Suc (nat (cnt - (i + 1)))" "?k < nat cnt"
      using True "1.prems" by simp_all
    have rw: "array_read src (i + 2) = Inr ?x" "array_write dst i ?x = Inr (dst[?k := ?x])"
      using True "1.prems" k by (simp_all add: array_read_def array_write_def)
    have "shift_trace (i + 1) cnt src (dst[?k := ?x]) =
      Inr (take (Suc ?k) (dst[?k := ?x]) @ take (nat (cnt - (i + 1))) (drop (Suc ?k + 2) src) @ drop (nat cnt) (dst[?k := ?x]))"
      using "1.IH" [OF True rw] "1.prems" True k(3) by simp
    moreover have "take (Suc ?k) (dst[?k := ?x]) = take ?k dst @ [?x]" using k(1) by (simp add: take_Suc_conv_app_nth)
    moreover have "drop (?k + 2) src = ?x # drop (Suc ?k + 2) src" using k(2) Cons_nth_drop_Suc [of "?k + 2" src] by simp
    ultimately show ?thesis
      using True rw k(5,6) by (subst shift_trace.simps) simp
  qed (use "1.prems" in \<open>subst shift_trace.simps, simp\<close>)
qed

text \<open>The record the handler starts from: at most ten frames, without the two innermost ones.\<close>

lemma handler_trace_ok:
  "\<exists>r. handler_trace env fl = Inr r \<and> layout_ok r \<and> trace_depth r \<le> 8 \<and> lock_count r = 0 \<and>
     (if racez_stacktrace fl \<noteq> 0
      then trace_depth r = min 10 (int (length (si_frames env))) - 2 \<and>
           take (nat (trace_depth r)) (stack_trace r) = drop 2 (take 10 (si_frames env))
      else trace_depth r = 0)"
proof (cases "racez_stacktrace fl \<noteq> 0")
  case True
  let ?fr = "si_frames env" and ?n = "min 10 (int (length (si_frames env)))"
  define stack where "stack = take 10 ?fr @ replicate (10 - length ?fr) (0 :: ptr)"
  have bt: "get_backtrace ?fr 10 (replicate 10 0) 0 = Inr (stack, ?n)"
    using get_backtrace_run [of 0 "replicate 10 0" ?fr] by (simp add: stack_def)
  have len: "length stack = 10" by (simp add: stack_def)
  show ?thesis
  proof (cases "2 \<le> ?n")
    case 2: True
    have sh: "shift_trace 0 (?n - 2) stack (replicate 10 0) =
        Inr (take (nat (?n - 2)) (drop 2 stack) @ drop (nat (?n - 2)) (replicate 10 0))"
      using shift_trace_run [of 0 "?n - 2" stack "replicate 10 0"] 2 len by (simp add: numeral_2_eq_2)
    have d: "take (nat (?n - 2)) (drop 2 stack) = drop 2 (take 10 ?fr)"
    proof (cases "length ?fr < 10")
      case True
      then have "?n = int (length ?fr)" by simp
      then have "nat (?n - 2) = length ?fr - 2" using 2 by simp
      with True show ?thesis by (simp add: stack_def)
    next
      case False
      then have "?n = 10" by simp
      then have "nat (?n - 2) = 8" by simp
      with False show ?thesis by (simp add: stack_def)
    qed
    have l: "length (drop 2 (take 10 ?fr)) = nat (?n - 2)" using 2 by (auto simp: min_def)
    show ?thesis
      using True bt sh d l
      by (auto simp: handler_trace_def zero_record_def layout_ok_def Let_def)
  next
    case False
    then have "shift_trace 0 (?n - 2) stack (replicate 10 0) = Inr (replicate 10 0)"
      by (subst shift_trace.simps) simp
    moreover have "drop 2 (take 10 ?fr) = []" using False by (auto simp: min_def split: if_splits)
    ultimately show ?thesis
      using True bt False by (auto simp: handler_trace_def zero_record_def layout_ok_def Let_def)
  qed
next
  case False
  then show ?thesis by (simp add: handler_trace_def zero_record_def layout_ok_def)
qed

section \<open>Facts about the records\<close>

definition tracked_locks :: "LOCKSET option \<Rightarrow> ptr set" where
  "tracked_locks ls = (case ls of None \<Rightarrow> {} | Some l \<Rightarrow> set (entries l))"

definition lockset_opt_ok :: "LOCKSET option \<Rightarrow> bool" where
  "lockset_opt_ok ls = (case ls of None \<Rightarrow> True | Some l \<Rightarrow> lockset_ok l)"

lemma take_lockset_ok:
  assumes "lockset_opt_ok ls" and "layout_ok r" and "lock_count r = 0" and "trace_depth r \<le> 10"
  shows "\<exists>cnt arr. take_lockset ls r = Inr (r\<lparr>lock_count := cnt, lockset := arr\<rparr>) \<and>
    writable (r\<lparr>lock_count := cnt, lockset := arr\<rparr>) \<and> locks (r\<lparr>lock_count := cnt, lockset := arr\<rparr>) = tracked_locks ls"
proof (cases ls)
  case None
  with assms show ?thesis
    by (intro exI [of _ 0] exI [of _ "lockset r"]) (simp add: take_lockset_def writable_def layout_ok_def locks_def tracked_locks_def)
next
  case (Some l)
  with assms(1) have l: "length (ls_lockset l) = 10" "0 \<le> ls_n l" "ls_n l \<le> 10"
    by (simp_all add: lockset_opt_ok_def lockset_ok_def)
  then have k: "nat (ls_n l) \<le> 10" by simp
  have "copy_prefix (ls_lockset l) (ls_n l) (lockset r) =
      Inr (take (nat (ls_n l)) (ls_lockset l) @ drop (nat (ls_n l)) (lockset r))"
    using assms(2) l by (intro copy_prefix_ok) (simp_all add: layout_ok_def)
  then show ?thesis
    using assms l k
    by (intro exI [of _ "ls_n l"] exI [of _ "take (nat (ls_n l)) (ls_lockset l) @ drop (nat (ls_n l)) (lockset r)"])
      (simp add: Some take_lockset_def writable_def layout_ok_def locks_def tracked_locks_def entries_def min_absorb2)
qed

text \<open>What a reader of the log sees of the locks of a record.\<close>

lemma logged_locks: "logged_as no r e \<Longrightarrow> record_type r = MEMORY_OP \<Longrightarrow> locks e = locks r"
  by (simp add: logged_as_def locks_def)

end
