(* ===== verification/Sampling_Properties.thy ===== *)
theory Sampling_Properties
  imports Racez_Sampling
begin

text \<open>
  What one counter overflow adds to the log: the record carries the sampled thread, the locks
  recorded for it, the instruction, the address where the hardware gives it, and the call stack
  without the frames of the handler.
\<close>

section \<open>One access in the log\<close>

definition access_of :: "Record \<Rightarrow> ptr set \<Rightarrow> int \<Rightarrow> Record \<Rightarrow> bool" where
  "access_of r ls no e \<longleftrightarrow>
     record_no e = no \<and> thread_id e = thread_id r \<and> record_type e = MEMORY_OP \<and>
     memory_address e = memory_address r \<and> pip e = pip r \<and> sip e = sip r \<and>
     is_write e = is_write r \<and> mem_op e = mem_op r \<and> locks e = ls \<and>
     trace_depth e = trace_depth r \<and>
     take (nat (trace_depth r)) (stack_trace e) = take (nat (trace_depth r)) (stack_trace r)"

lemma log_access:
  assumes "logging (Suc k) rt" and "lockset_opt_ok ls" and "layout_ok r" and "lock_count r = 0"
    and "trace_depth r \<le> 10" and "record_type r = MEMORY_OP"
  shows "\<exists>r1 rt' e. take_lockset ls r = Inr r1 \<and> log_record r1 rt = Inr rt' \<and> logging k rt' \<and>
    same_but_buffer rt rt' \<and> logged rt' = logged rt @ [e] \<and>
    access_of r (tracked_locks ls) (int (length (logged rt)) + 1) e \<and> same_file (rt_buffer rt) (rt_buffer rt')"
proof -
  obtain r1 cnt arr where r1: "take_lockset ls r = Inr r1" "writable r1" "locks r1 = tracked_locks ls"
    "r1 = r\<lparr>lock_count := cnt, lockset := arr\<rparr>"
    using take_lockset_ok [OF assms(2-5)] by blast
  obtain rt' e where e: "log_record r1 rt = Inr rt'" "logging k rt'" "same_but_buffer rt rt'"
    "logged rt' = logged rt @ [e]" "logged_as (int (length (logged rt)) + 1) r1 e" "same_file (rt_buffer rt) (rt_buffer rt')"
    using log_record_ok [OF assms(1) r1(2)] by blast
  have "access_of r (tracked_locks ls) (int (length (logged rt)) + 1) e"
    using e(5) r1(3,4) assms(6) logged_locks [OF e(5)]
    by (simp add: access_of_def logged_as_def union_view_defs)
  with r1(1) e(1-4,6) show ?thesis by blast
qed

text \<open>The stack of a sample, as the handler passes it on.\<close>

definition trace_of :: "signal_env \<Rightarrow> runtime \<Rightarrow> Record \<Rightarrow> bool" where
  "trace_of env rt e \<longleftrightarrow>
     (if racez_stacktrace (rt_flags rt) \<noteq> 0
      then trace_depth e = min 10 (int (length (si_frames env))) - 2 \<and>
           take (nat (trace_depth e)) (stack_trace e) = drop 2 (take 10 (si_frames env))
      else trace_depth e = 0)"

definition sampled :: "int \<Rightarrow> runtime \<Rightarrow> runtime" where
  "sampled tid rt = rt\<lparr>tid_fd_map := fst (map_insert tid 0 (tid_fd_map rt)), num_stat := to_int32 (num_stat rt + 1)\<rparr>"

lemma sampled_views [simp]:
  "rt_flags (sampled tid rt) = rt_flags rt" "rt_tls (sampled tid rt) = rt_tls rt"
  "rt_type (sampled tid rt) = rt_type rt" "logged (sampled tid rt) = logged rt"
  "logging k (sampled tid rt) = logging k rt" "GetPerThreadHdr t (sampled tid rt) = GetPerThreadHdr t rt"
  by (simp_all add: sampled_def logged_def logging_def GetPerThreadHdr_def)

lemma pmu_trace_views [simp]:
  "logged (pmu_trace c rt) = logged rt" "logging k (pmu_trace c rt) = logging k rt"
  "rt_tls (pmu_trace c rt) = rt_tls rt" "rt_type (pmu_trace c rt) = rt_type rt"
  "rt_flags (pmu_trace c rt) = rt_flags rt" "tid_fd_map (pmu_trace c rt) = tid_fd_map rt"
  by (simp_all add: pmu_trace_def logged_def logging_def)

lemma handler_run:
  assumes "handler_trace env (rt_flags rt) = Inr r" and "handler_dispatch env r tid (sampled tid rt) = Inr rt1"
  shows "signal_handler env tid rt = Inr (pmu_trace (Restart (si_fd env)) rt1)"
proof -
  have "rt\<lparr>tid_fd_map := fst (map_insert tid 0 (tid_fd_map rt)), num_stat := to_int32 (num_stat rt + 1)\<rparr> = sampled tid rt"
    by (simp add: sampled_def)
  with assms show ?thesis by (simp add: signal_handler_def)
qed

text \<open>One overflow on an AMD machine, and what it leaves of the state.\<close>

lemma ibs_overflow:
  assumes "logging (Suc k) rt" and "rt_type rt = PFMLIB_AMD64_PMU" and "read_msg (si_ibs env)"
    and "read_pmd (si_ibs env) 11 = Some opdata3" and "read_pmd (si_ibs env) 8 = Some ip"
    and "read_pmd (si_ibs env) 12 = Some m_addr"
    and "ibsldop (si_ibs env) opdata3 \<or> ibsstop (si_ibs env) opdata3"
    and "lockset_opt_ok (GetPerThreadLockset tid (rt_tls rt))"
  obtains rt' e where "signal_handler env tid rt = Inr rt'" "logging k rt'" "logged rt' = logged rt @ [e]"
    "same_but_buffer (pmu_trace (Restart (si_fd env)) (sampled tid rt)) rt'" "same_file (rt_buffer rt) (rt_buffer rt')"
    "record_no e = int (length (logged rt)) + 1" "thread_id e = tid" "record_type e = MEMORY_OP"
    "memory_address e = m_addr" "pip e = ip" "is_write e = (if ibsldop (si_ibs env) opdata3 then 0 else 1)"
    "locks e = tracked_locks (GetPerThreadLockset tid (rt_tls rt))" "trace_of env rt e"
proof -
  obtain r where r: "handler_trace env (rt_flags rt) = Inr r" "layout_ok r" "trace_depth r \<le> 8" "lock_count r = 0"
    "trace_of env rt r"
    using handler_trace_ok [of env "rt_flags rt"] by (auto simp: trace_of_def)
  let ?ld = "ibsldop (si_ibs env) opdata3"
  let ?r = "ibs_record r tid ip m_addr ?ld (si_gregs env 16)"
  have ok: "layout_ok ?r" "lock_count ?r = 0" "trace_depth ?r \<le> 10" "record_type ?r = MEMORY_OP"
    using r by (simp_all add: ibs_record_def layout_ok_def set_pip_def set_memory_address_def)
  obtain r1 rt1 e where e: "take_lockset (GetPerThreadLockset tid (rt_tls rt)) ?r = Inr r1"
    "log_record r1 (sampled tid rt) = Inr rt1" "logged rt1 = logged rt @ [e]" "logging k rt1" "same_but_buffer (sampled tid rt) rt1"
    "same_file (rt_buffer (sampled tid rt)) (rt_buffer rt1)"
    "access_of ?r (tracked_locks (GetPerThreadLockset tid (rt_tls rt))) (int (length (logged rt)) + 1) e"
    using log_access [of k "sampled tid rt" "GetPerThreadLockset tid (rt_tls rt)" ?r] ok assms(1,8) by auto
  have "handler_dispatch env r tid (sampled tid rt) = Inr rt1"
    using assms(2-7) e(1,2)
    by (auto simp: handler_dispatch_def signal_handler_amd_ibs_def pfm_read_pmd_def write_ibs_info_def)
  note run = handler_run [OF r(1) this]
  have "same_but_buffer (pmu_trace (Restart (si_fd env)) (sampled tid rt)) (pmu_trace (Restart (si_fd env)) rt1)"
    using e(5) by (cases rt1) (simp add: same_but_buffer_def pmu_trace_def)
  moreover have "same_file (rt_buffer rt) (rt_buffer (pmu_trace (Restart (si_fd env)) rt1))"
    using e(6) by (simp add: sampled_def pmu_trace_def)
  moreover have "trace_of env rt e"
    using e(7) r(5) by (auto simp: access_of_def ibs_record_def union_store_defs trace_of_def)
  moreover have "record_no e = int (length (logged rt)) + 1" "thread_id e = tid" "record_type e = MEMORY_OP"
      "memory_address e = m_addr" "pip e = ip" "is_write e = (if ?ld then 0 else 1)"
      "locks e = tracked_locks (GetPerThreadLockset tid (rt_tls rt))"
    using e(7) by (simp_all add: access_of_def ibs_record_def union_view_defs union_store_defs)
  ultimately show ?thesis using that [OF run, of e] e(3,4) by simp
qed

text \<open>An overflow for another operation is not logged.\<close>

lemma ibs_overflow_other:
  assumes "rt_type rt = PFMLIB_AMD64_PMU" and "read_msg (si_ibs env)" and "read_pmd (si_ibs env) 11 = Some opdata3"
    and "\<not> ibsldop (si_ibs env) opdata3" and "\<not> ibsstop (si_ibs env) opdata3"
  shows "signal_handler env tid rt = Inr (pmu_trace (Restart (si_fd env)) (sampled tid rt))"
proof -
  obtain r where "handler_trace env (rt_flags rt) = Inr r" using handler_trace_ok [of env "rt_flags rt"] by blast
  then show ?thesis
    using assms by (intro handler_run) (simp_all add: handler_dispatch_def signal_handler_amd_ibs_def pfm_read_pmd_def)
qed

section \<open>Properties\<close>

text \<open>C31: On an AMD machine, while records are written and the buffer has room, one overflow for a
  load or a store adds exactly one record to the log: the thread, the address and the instruction
  the counters give, the locks recorded for the thread at that moment, and the caller's stack. An
  operation marked both load and store is logged as a read. The comment at the declaration of the
  record says that the address is zero for such samples; the code stores the sampled address, and
  it is the registers in \<open>mem_op_\<close> that are not filled in.\<close>

theorem ibs_sample_is_logged:
  assumes "logging 1 rt" and "rt_type rt = PFMLIB_AMD64_PMU" and "read_msg (si_ibs env)"
    and "read_pmd (si_ibs env) 11 = Some opdata3" and "read_pmd (si_ibs env) 8 = Some ip"
    and "read_pmd (si_ibs env) 12 = Some m_addr"
    and "ibsldop (si_ibs env) opdata3 \<or> ibsstop (si_ibs env) opdata3"
    and "lockset_opt_ok (GetPerThreadLockset tid (rt_tls rt))"
  shows "\<exists>rt' e. signal_handler env tid rt = Inr rt' \<and> logged rt' = logged rt @ [e] \<and>
    record_no e = int (length (logged rt)) + 1 \<and> thread_id e = tid \<and> record_type e = MEMORY_OP \<and>
    memory_address e = m_addr \<and> pip e = ip \<and>
    is_write e = (if ibsldop (si_ibs env) opdata3 then 0 else 1) \<and>
    locks e = tracked_locks (GetPerThreadLockset tid (rt_tls rt)) \<and> trace_of env rt e"
  using ibs_overflow [of 0 rt env opdata3 ip m_addr tid] assms by (metis One_nat_def)

definition example_runtime :: "pmu_type \<Rightarrow> runtime" where
  "example_runtime ty = init_runtime\<lparr>rt_flags := default_flags\<lparr>racez_write_record := 1, racez_stacktrace := 1, racez_signal_sample := 1\<rparr>,
     rt_buffer := \<lparr>global_buffer = Some \<lparr>bd_global = 0, bd_start = (\<lambda>_. zero_record), bd_fd = 5\<rparr>, written_out = []\<rparr>,
     rt_type := ty,
     rt_tls := \<lparr>tls_created = True, tls_value = [7 \<mapsto> \<lparr>ls_n = 1, ls_overflow = False, ls_lockset = 33 # replicate 9 0\<rparr>]\<rparr>,
     hdr_key_created := True,
     tls_hdr := [7 \<mapsto> \<lparr>hdr_version = 65536, hdr_count = 1, hdr_entries = [zero_entry\<lparr>pebs_ip := 99\<rparr>]\<rparr>]\<rparr>"

definition example_signal :: signal_env where
  "example_signal = \<lparr>si_fd = 3, si_gregs = (\<lambda>_. 0), si_frames = [1, 2, 40, 50],
     si_ibs = \<lparr>read_msg = True, read_pmd = [11 \<mapsto> 2, 8 \<mapsto> 99, 12 \<mapsto> 64], ibsldop = (\<lambda>w. bit w 0), ibsstop = (\<lambda>w. bit w 1)\<rparr>,
     rand_value = 5000, write_pmds_ok = True\<rparr>"

lemma example_runtime_logging: "logging 2 (example_runtime ty)" "logging 1 (example_runtime ty)" "logged (example_runtime ty) = []"
  by (simp_all add: example_runtime_def logging_def logged_def buffer_ok_def buffer_room_def buffer_contents_def
      BUFFERSIZE_def layout_ok_zero)

lemma example_runtime_lockset:
  "GetPerThreadLockset 7 (rt_tls (example_runtime ty)) = Some \<lparr>ls_n = 1, ls_overflow = False, ls_lockset = 33 # replicate 9 0\<rparr>"
  by (simp add: example_runtime_def GetPerThreadLockset_def)

theorem ibs_sample_is_logged_witness:
  "\<exists>rt' e. signal_handler example_signal 7 (example_runtime PFMLIB_AMD64_PMU) = Inr rt' \<and> logged rt' = [e] \<and>
     record_no e = 1 \<and> thread_id e = 7 \<and> memory_address e = 64 \<and> pip e = 99 \<and> is_write e = 1 \<and> locks e = {33} \<and>
     take (nat (trace_depth e)) (stack_trace e) = [40, 50]"
proof -
  have ls: "lockset_opt_ok (GetPerThreadLockset 7 (rt_tls (example_runtime ty)))"
    "tracked_locks (GetPerThreadLockset 7 (rt_tls (example_runtime ty))) = {33}" for ty
    by (simp_all add: example_runtime_lockset lockset_opt_ok_def tracked_locks_def lockset_ok_def entries_def)
  have "racez_stacktrace (rt_flags (example_runtime ty)) \<noteq> 0" "rt_type (example_runtime ty) = ty" for ty
    by (simp_all add: example_runtime_def)
  then show ?thesis
    using ibs_sample_is_logged [OF example_runtime_logging(2), of PFMLIB_AMD64_PMU example_signal 2 99 64 7]
    by (auto simp: example_runtime_logging ls trace_of_def example_signal_def bit_numeral_simps)
qed

lemma write_pebs_run:
  assumes "logging 2 rt" and "layout_ok r" and "lock_count r = 0" and "trace_depth r \<le> 10"
    and "lockset_opt_ok (if racez_lockset (rt_flags rt) \<noteq> 0 then GetPerThreadLockset tid (rt_tls rt) else None)"
    and "user = (racez_signal_sample (rt_flags rt) \<noteq> 0 \<and> rt_type rt = PFMLIB_INTEL_CORE_PMU)"
    and "L = tracked_locks (if racez_lockset (rt_flags rt) \<noteq> 0 then GetPerThreadLockset tid (rt_tls rt) else None)"
  shows "\<exists>rt' e u. write_pebs_info r tid entry user_ip g rt = Inr rt' \<and> same_but_buffer rt rt' \<and>
    logged rt' = logged rt @ e # (if user then [u] else []) \<and>
    access_of (pebs_record r tid entry user_ip) L (int (length (logged rt)) + 1) e \<and>
    access_of (user_record tid g user_ip) L (int (length (logged rt)) + 2) u"
proof -
  let ?ls = "if racez_lockset (rt_flags rt) \<noteq> 0 then GetPerThreadLockset tid (rt_tls rt) else None"
  let ?r = "pebs_record r tid entry user_ip" and ?u = "user_record tid g user_ip"
  have ok: "layout_ok ?r" "lock_count ?r = 0" "trace_depth ?r \<le> 10" "record_type ?r = MEMORY_OP"
    "layout_ok ?u" "lock_count ?u = 0" "trace_depth ?u \<le> 10" "record_type ?u = MEMORY_OP"
    using assms(2-4)
    by (simp_all add: pebs_record_def user_record_def layout_ok_def set_pip_def set_memory_address_def zero_record_def)
  obtain r1 rt1 e where e: "take_lockset ?ls ?r = Inr r1" "log_record r1 rt = Inr rt1" "logging 1 rt1"
    "same_but_buffer rt rt1" "logged rt1 = logged rt @ [e]" "access_of ?r L (int (length (logged rt)) + 1) e"
    using log_access [OF _ assms(5) ok(1-4), of 1 rt] assms(1,7) by (auto simp: numeral_2_eq_2)
  obtain u1 rt2 u where u: "take_lockset ?ls ?u = Inr u1" "log_record u1 rt1 = Inr rt2"
    "same_but_buffer rt1 rt2" "logged rt2 = logged rt1 @ [u]" "access_of ?u L (int (length (logged rt1)) + 1) u"
    using log_access [OF _ assms(5) ok(5-8), of 0 rt1] e(3) assms(7) by auto
  have u5: "access_of ?u L (int (length (logged rt)) + 2) u" using u(5) e(5) by (simp add: add.commute)
  show ?thesis
  proof (cases user)
    case True
    with e u have "write_pebs_info r tid entry user_ip g rt = Inr rt2"
      using assms(6) by (simp add: write_pebs_info_def)
    then show ?thesis
      using True e u u5 same_but_buffer_trans [OF e(4) u(3)] by auto
  next
    case False
    with e have "write_pebs_info r tid entry user_ip g rt = Inr rt1"
      using assms(6) by (auto simp: write_pebs_info_def)
    then show ?thesis using False e u5 by auto
  qed
qed

text \<open>C32: On Intel machines an overflow adds the last entry of the sampling buffer, with the
  locks recorded for the thread, as a read of address 0 (the address and the direction are filled
  in offline from the registers); on Core 2, when asked for, a second record follows with the
  registers of the interrupted context and without a stack.\<close>

theorem pebs_sample_is_logged:
  assumes "logging 2 rt" and "rt_type rt = PFMLIB_INTEL_CORE_PMU \<or> rt_type rt = PFMLIB_INTEL_NHM_PMU"
    and "GetPerThreadHdr tid rt = Some hdr" and "0 < hdr_count hdr" and "hdr_count hdr \<le> length (hdr_entries hdr)"
    and "L = tracked_locks (if racez_lockset (rt_flags rt) \<noteq> 0 then GetPerThreadLockset tid (rt_tls rt) else None)"
    and "lockset_opt_ok (if racez_lockset (rt_flags rt) \<noteq> 0 then GetPerThreadLockset tid (rt_tls rt) else None)"
    and "write_pmds_ok env"
  shows "\<exists>rt' e es. signal_handler env tid rt = Inr rt' \<and> logged rt' = logged rt @ e # es \<and>
    thread_id e = tid \<and> memory_address e = 0 \<and> is_write e = 0 \<and> locks e = L \<and> trace_of env rt e \<and>
    mem_op e = hdr_entries hdr ! (hdr_count hdr - 1) \<and> pip e = pebs_ip (mem_op e) \<and>
    (if racez_signal_sample (rt_flags rt) \<noteq> 0 \<and> rt_type rt = PFMLIB_INTEL_CORE_PMU
     then \<exists>u. es = [u] \<and> thread_id u = tid \<and> memory_address u = 0 \<and> is_write u = 0 \<and> locks u = L \<and>
       pip u = si_gregs env 16 \<and> mem_op u = user_entry (si_gregs env) (si_gregs env 16) \<and> trace_depth u = 0
     else es = [])"
proof -
  let ?entry = "hdr_entries hdr ! (hdr_count hdr - 1)" and ?g = "si_gregs env"
  obtain r where r: "handler_trace env (rt_flags rt) = Inr r" "layout_ok r" "trace_depth r \<le> 8" "lock_count r = 0"
    "trace_of env rt r"
    using handler_trace_ok [of env "rt_flags rt"] by (auto simp: trace_of_def)
  define user where "user = (racez_signal_sample (rt_flags rt) \<noteq> 0 \<and> rt_type rt = PFMLIB_INTEL_CORE_PMU)"
  obtain rt1 e u where w: "write_pebs_info r tid ?entry (?g 16) ?g (sampled tid rt) = Inr rt1"
    "same_but_buffer (sampled tid rt) rt1" "logged rt1 = logged rt @ e # (if user then [u] else [])"
    "access_of (pebs_record r tid ?entry (?g 16)) L (int (length (logged rt)) + 1) e"
    "access_of (user_record tid ?g (?g 16)) L (int (length (logged rt)) + 2) u"
    using write_pebs_run [of "sampled tid rt" r tid user L ?entry "?g 16" ?g, unfolded sampled_views,
        OF assms(1) r(2,4) _ assms(7) user_def assms(6)] r(3) by auto
  have "array_read (hdr_entries hdr) (int (hdr_count hdr - 1)) = Inr ?entry"
    using assms(4,5) by (simp add: array_read_def of_nat_diff nat_diff_distrib)
  then have "signal_handler_pebs r tid ?g (sampled tid rt) = Inr rt1"
    using w(1) assms(3,4)
    by (simp add: signal_handler_pebs_def process_smpl_buf_pebs_def process_entries_last)
  then obtain rt2 where "handler_dispatch env r tid (sampled tid rt) = Inr rt2" "logged rt2 = logged rt1"
    using assms(2,8)
    by (cases "racez_sampling_adjust (rt_flags rt1) = 0") (auto simp: handler_dispatch_def Let_def)
  with handler_run [OF r(1)] w r(5) show ?thesis
    by (intro exI [of _ "pmu_trace (Restart (si_fd env)) rt2"] exI [of _ e] exI [of _ "if user then [u] else []"])
      (auto simp: user_def access_of_def pebs_record_def user_record_def union_view_defs set_pip_def
        set_memory_address_def trace_of_def zero_record_def)
qed

theorem pebs_sample_is_logged_witness:
  "\<exists>rt' e u. signal_handler example_signal 7 (example_runtime PFMLIB_INTEL_CORE_PMU) = Inr rt' \<and> logged rt' = [e, u] \<and>
     pip e = 99 \<and> locks e = {33} \<and> locks u = {33}"
proof -
  have "rt_type (example_runtime ty) = ty" "racez_lockset (rt_flags (example_runtime ty)) = 1"
    "racez_signal_sample (rt_flags (example_runtime ty)) = 1" "write_pmds_ok example_signal"
    "GetPerThreadHdr 7 (example_runtime ty) = Some \<lparr>hdr_version = 65536, hdr_count = 1, hdr_entries = [zero_entry\<lparr>pebs_ip := 99\<rparr>]\<rparr>" for ty
    by (simp_all add: example_runtime_def default_flags_def GetPerThreadHdr_def example_signal_def)
  then show ?thesis
    using pebs_sample_is_logged [of "example_runtime PFMLIB_INTEL_CORE_PMU" 7 _ "{33}" example_signal]
    by (fastforce simp: example_runtime_logging example_runtime_lockset lockset_opt_ok_def tracked_locks_def
        lockset_ok_def entries_def)
qed

lemma uint_minus_of_int: "0 < p \<Longrightarrow> p < 2 ^ 64 \<Longrightarrow> uint (- (word_of_int p :: ptr)) = 2 ^ 64 - p"
  by (simp add: uint_word_ariths(4) uint_word_of_int zmod_zminus1_eq_if)

text \<open>The randomised sampling period keeps within 1024 of the fixed one: the counter is set
  to minus a number of events between 198978 and 200001.\<close>

lemma random_period_bounds:
  "\<exists>p. 198978 \<le> p \<and> p \<le> SMPL_PERIOD \<and> uint (pmd_value (adjusted_pmd (n mod 1024))) = 2 ^ 64 - p \<and>
     pmd_long_reset (adjusted_pmd (n mod 1024)) = pmd_value (adjusted_pmd (n mod 1024)) \<and>
     pmd_notify (adjusted_pmd (n mod 1024))"
proof -
  let ?p = "SMPL_PERIOD - n mod 1024"
  have p: "198978 \<le> ?p" "?p \<le> SMPL_PERIOD"
    using pos_mod_bound [of 1024 n] pos_mod_sign [of 1024 n] by (simp_all add: SMPL_PERIOD_def)
  have "uint (- (word_of_int ?p :: ptr)) = 2 ^ 64 - ?p"
    using p by (intro uint_minus_of_int) (simp_all add: SMPL_PERIOD_def)
  with p show ?thesis
    by (intro exI [of _ ?p]) (simp add: adjusted_pmd_def period_value_def Let_def)
qed

end
