(* ===== verification/Racez_Interpose.thy ===== *)
theory Racez_Interpose
  imports Racez_Runtime C_Library
begin

text \<open>
  The functions racez_preload.c puts in front of the C library: locking, condition variables,
  the allocator, and the initialisation that reads the environment. The functions they stand for
  are reached through \<open>dlsym\<close>; their results are parameters.
\<close>

section \<open>Environment\<close>

text \<open>
  \<open>dlsym\<close> tells which functions the next library has. \<open>fresh_lockset\<close> is the block
  the allocator gives for a new lockset, its address and the words it holds.
\<close>

record libc_env =
  getenv :: "string \<Rightarrow> string option"
  dlsym :: "string \<Rightarrow> bool"
  fresh_lockset :: "(ptr \<times> ptr list) option"

definition atoi :: "string \<Rightarrow> int" where
  "atoi s = to_int32 (strtoll s 10)"

definition env_flag :: "libc_env \<Rightarrow> string \<Rightarrow> int \<Rightarrow> int" where
  "env_flag env name dflt = (case getenv env name of Some s \<Rightarrow> atoi s | None \<Rightarrow> dflt)"

definition preload_init :: "libc_env \<Rightarrow> racez_flags \<Rightarrow> racez_flags" where
  "preload_init env fl = fl
     \<lparr>racez_lockset := env_flag env ''RACEZ_LOCKSET'' 1,
      racez_signal_wait := env_flag env ''RACEZ_SIGNAL_WAIT'' 0,
      racez_memory_allocator := env_flag env ''RACEZ_MEMORY_ALLOCATOR'' 0,
      racez_stacktrace := env_flag env ''RACEZ_STACKTRACE'' 0,
      racez_sampling_adjust := env_flag env ''RACEZ_SAMPLING_ADJUST'' 0,
      racez_sample_skid := env_flag env ''RACEZ_SAMPLE_SKID'' 0,
      racez_signal_sample := env_flag env ''RACEZ_SIGNAL_SAMPLE'' 0,
      racez_write_record := env_flag env ''RACEZ_WRITE_RECORD'' 0\<rparr>"

text \<open>\<open>pthread_once(&initializer, preload_init)\<close>.\<close>

definition once_init :: "libc_env \<Rightarrow> runtime \<Rightarrow> runtime" where
  "once_init env rt =
     (if rt_initialized rt then rt else rt\<lparr>rt_flags := preload_init env (rt_flags rt), rt_initialized := True\<rparr>)"

section \<open>The allocator\<close>

definition alloc_record :: "int \<Rightarrow> ptr \<Rightarrow> int \<Rightarrow> int \<Rightarrow> Record" where
  "alloc_record tid start sz alloc =
     set_is_alloc alloc (set_alloc_size sz (set_start_address start
       (zero_record\<lparr>thread_id := tid, record_type := MEMORY_ALLOC\<rparr>)))"

definition racez_log_memory_allocation :: "int \<Rightarrow> ptr \<Rightarrow> int \<Rightarrow> int \<Rightarrow> runtime \<Rightarrow> runtime result" where
  "racez_log_memory_allocation tid start sz alloc rt =
     (if racez_memory_allocator (rt_flags rt) \<noteq> 0 \<and> racez_enable (rt_flags rt) \<noteq> 0
      then log_record (alloc_record tid start sz alloc) rt else Inr rt)"

text \<open>\<open>p\<close> is what the real allocator returns. The size is converted to \<open>int\<close>.\<close>

definition malloc :: "libc_env \<Rightarrow> int \<Rightarrow> int \<Rightarrow> ptr \<Rightarrow> runtime \<Rightarrow> (ptr \<times> runtime) result" where
  "malloc env tid sz p rt =
     (let rt0 = once_init env rt
      in if \<not> dlsym env ''malloc'' then Inl Null_pointer
         else rbind
           (if racez_memory_allocator (rt_flags rt0) \<noteq> 0 \<and> racez_enable (rt_flags rt0) \<noteq> 0
            then log_record (alloc_record tid p (to_int32 sz) 1) rt0 else Inr rt0)
           (\<lambda>rt1. Inr (p, rt1)))"

definition free :: "libc_env \<Rightarrow> int \<Rightarrow> ptr \<Rightarrow> runtime \<Rightarrow> runtime result" where
  "free env tid p rt =
     (let rt0 = once_init env rt
      in if \<not> dlsym env ''free'' then Inl Null_pointer
         else if racez_memory_allocator (rt_flags rt0) \<noteq> 0 \<and> racez_enable (rt_flags rt0) \<noteq> 0
         then log_record (alloc_record tid p 0 0) rt0 else Inr rt0)"

section \<open>Mutexes\<close>

text \<open>
  \<open>add_one_mutex\<close> and \<open>remove_one_mutex\<close> inside the library: a thread without a lockset
  gets one from \<open>malloc\<close>, which is the function above (\<open>sizeof(LOCKSET)\<close> is 88).
\<close>

definition with_lockset ::
  "libc_env \<Rightarrow> (ptr list option \<Rightarrow> tls_state \<Rightarrow> tls_state result) \<Rightarrow> int \<Rightarrow> runtime \<Rightarrow> runtime result" where
  "with_lockset env op tid rt =
     rbind (if GetPerThreadLockset tid (rt_tls rt) = None
            then rbind (malloc env tid 88 (case fresh_lockset env of Some (p, _) \<Rightarrow> p | None \<Rightarrow> 0) rt)
                   (\<lambda>(_, rt1). Inr rt1)
            else Inr rt)
       (\<lambda>rt1. rbind (op (map_option snd (fresh_lockset env)) (rt_tls rt1)) (\<lambda>t. Inr (rt1\<lparr>rt_tls := t\<rparr>)))"

text \<open>\<open>r\<close> is the result of the real function.\<close>

definition pthread_mutex_lock :: "libc_env \<Rightarrow> int \<Rightarrow> int \<Rightarrow> ptr \<Rightarrow> runtime \<Rightarrow> (int \<times> runtime) result" where
  "pthread_mutex_lock env r tid m rt =
     (let rt0 = once_init env rt
      in rbind (if racez_lockset (rt_flags rt0) \<noteq> 0
                then with_lockset env (\<lambda>fresh. add_one_mutex fresh tid m) tid rt0 else Inr rt0)
           (\<lambda>rt1. if dlsym env ''pthread_mutex_lock'' then Inr (r, rt1) else Inl Assertion_failed))"

definition pthread_mutex_unlock :: "libc_env \<Rightarrow> int \<Rightarrow> int \<Rightarrow> ptr \<Rightarrow> runtime \<Rightarrow> (int \<times> runtime) result" where
  "pthread_mutex_unlock env r tid m rt =
     (let rt0 = once_init env rt
      in if \<not> dlsym env ''pthread_mutex_unlock'' then Inl Null_pointer
         else rbind (if racez_lockset (rt_flags rt0) \<noteq> 0 \<and> racez_enable (rt_flags rt0) \<noteq> 0
                     then with_lockset env (\<lambda>fresh. remove_one_mutex fresh tid m) tid rt0 else Inr rt0)
                (\<lambda>rt1. Inr (r, rt1)))"

section \<open>Condition variables\<close>

definition wait_record :: "int \<Rightarrow> ptr \<Rightarrow> ptr \<Rightarrow> Record" where
  "wait_record tid c m =
     set_wait_address2 m (set_wait_address1 c (zero_record\<lparr>thread_id := tid, record_type := SYNC_WAIT\<rparr>))"

definition signal_record :: "int \<Rightarrow> ptr \<Rightarrow> Record" where
  "signal_record tid c = set_signal_address c (zero_record\<lparr>thread_id := tid, record_type := SYNC_SIGNAL\<rparr>)"

definition pthread_cond_wait :: "libc_env \<Rightarrow> int \<Rightarrow> int \<Rightarrow> ptr \<Rightarrow> ptr \<Rightarrow> runtime \<Rightarrow> (int \<times> runtime) result" where
  "pthread_cond_wait env r tid c m rt =
     (let rt0 = once_init env rt
      in if \<not> dlsym env ''pthread_cond_wait'' then Inl Null_pointer
         else if r \<noteq> 0 then Inl Assertion_failed
         else rbind (if racez_signal_wait (rt_flags rt0) \<noteq> 0 \<and> racez_enable (rt_flags rt0) \<noteq> 0
                     then log_record (wait_record tid c m) rt0 else Inr rt0)
                (\<lambda>rt1. Inr (r, rt1)))"

definition pthread_cond_signal :: "libc_env \<Rightarrow> int \<Rightarrow> int \<Rightarrow> ptr \<Rightarrow> runtime \<Rightarrow> (int \<times> runtime) result" where
  "pthread_cond_signal env r tid c rt =
     (let rt0 = once_init env rt
      in if \<not> dlsym env ''pthread_cond_signal'' then Inl Null_pointer
         else if r \<noteq> 0 then Inl Assertion_failed
         else rbind (if racez_signal_wait (rt_flags rt0) \<noteq> 0 \<and> racez_enable (rt_flags rt0) \<noteq> 0
                     then log_record (signal_record tid c) rt0 else Inr rt0)
                (\<lambda>rt1. Inr (r, rt1)))"

definition debug_mutex :: "int \<Rightarrow> runtime \<Rightarrow> unit result" where
  "debug_mutex tid rt =
     (case GetPerThreadLockset tid (rt_tls rt) of
        None \<Rightarrow> Inr ()
      | Some l \<Rightarrow> if ls_n l \<ge> 1 then Inl Assertion_failed else Inr ())"

end
