(* ===== verification/Racez_Pmu.thy ===== *)
theory Racez_Pmu
  imports Racez_Sampling Racez_Interpose
begin

text \<open>
  Setting up and stopping the profiler (racez_pmuprofiler.cc): attaching a counter context to a
  thread on each of the supported machines, starting and stopping. What libpfm, \<open>mmap\<close> and
  \<open>fcntl\<close> answer is a parameter; the calls that reach them are traced. Where the code only
  prints a message about a failed call it goes on, and so does the model. The header line that
  prints the number of entries divides by the entry size the kernel wrote, which is taken to be
  non-zero.

  Several functions that should return a value fall off their end. The value the caller then
  finds is a parameter of the environment (\<open>fall_off\<close>).
\<close>

section \<open>Environment\<close>

record attach_env =
  pfm_initialized :: bool
  found_type :: pmu_type
  found_event :: bool
  context_fd :: int
  second_context_fd :: int
  mapped :: "smpl_hdr option"
  dispatched :: bool
  out_pmcs :: "(int \<times> ptr) list"
  out_pmds :: "int list"
  pmcs_written :: bool
  pmds_written :: bool
  context_loaded :: bool
  async_set :: bool
  signal_set :: bool
  ibs_control :: ptr
  fall_off :: bool
  map_mutex :: ptr
  node_size :: int
  map_node :: ptr

definition require :: "bool \<Rightarrow> runtime \<Rightarrow> runtime result" where
  "require b rt = (if b then Inr rt else Inl (Exit_program 1))"

section \<open>Counter registers\<close>

text \<open>
  The arrays \<open>pc\<close> and \<open>pd\<close> have sixteen elements each. The first data register gets the
  sampling period; only as many registers as libpfm assigned are written.
\<close>

definition control_regs :: "bool \<Rightarrow> (int \<times> ptr) list \<Rightarrow> pmc list result" where
  "control_regs pebs outs =
     (if length outs \<le> 16
      then Inr (map (\<lambda>(n, v). zero_pmc\<lparr>pmc_num := n, pmc_value := v, pmc_no_emul64 := (pebs \<and> n = 0)\<rparr>) outs)
      else Inl Out_of_bounds)"

definition period_pmd :: "pmd \<Rightarrow> pmd" where
  "period_pmd p = (let v = period_value SMPL_PERIOD
     in p\<lparr>pmd_notify := True, pmd_value := v, pmd_long_reset := v, pmd_short_reset := v\<rparr>)"

fun data_regs :: "int list \<Rightarrow> pmd list result" where
  "data_regs [] = Inr []"
| "data_regs (n # ns) =
     (if length (n # ns) \<le> 16
      then Inr (period_pmd (zero_pmd\<lparr>pmd_num := n\<rparr>) # map (\<lambda>k. zero_pmd\<lparr>pmd_num := k\<rparr>) ns)
      else Inl Out_of_bounds)"

section \<open>Attaching a thread\<close>

text \<open>
  The assignment to \<open>tid_fd_map[tid]\<close>. For a thread that is not in the map it allocates a node,
  which passes through the interposed \<open>malloc\<close>; a failure there throws an exception that nobody
  catches, which ends the program like a failed assertion.
\<close>

definition assign_fd :: "libc_env \<Rightarrow> attach_env \<Rightarrow> int \<Rightarrow> int \<Rightarrow> runtime \<Rightarrow> runtime result" where
  "assign_fd libc env tid fd rt =
     rbind (if map_of (tid_fd_map rt) tid = None
            then rbind (malloc libc tid (node_size env) (map_node env) rt)
                   (\<lambda>(p, rt1). if p = 0 then Inl Assertion_failed else Inr rt1)
            else Inr rt)
       (\<lambda>rt1. Inr (rt1\<lparr>tid_fd_map := map_assign tid fd (tid_fd_map rt1)\<rparr>))"

definition register_fd :: "libc_env \<Rightarrow> attach_env \<Rightarrow> int \<Rightarrow> int \<Rightarrow> runtime \<Rightarrow> runtime result" where
  "register_fd libc env tid fd rt =
     rbind (pthread_mutex_lock libc 0 tid (map_mutex env) rt) (\<lambda>(_, rt1).
     rbind (assign_fd libc env tid fd rt1) (\<lambda>rt2.
     rbind (pthread_mutex_unlock libc 0 tid (map_mutex env) rt2) (\<lambda>(_, rt3). Inr rt3)))"

text \<open>\<open>Create_Hdr_Key\<close> followed by \<open>pthread_setspecific\<close>.\<close>

definition Create_Hdr_Key :: "runtime \<Rightarrow> runtime" where
  "Create_Hdr_Key rt = (if hdr_key_created rt then rt else rt\<lparr>hdr_key_created := True, tls_hdr := (\<lambda>_. None)\<rparr>)"

definition set_thread_hdr :: "int \<Rightarrow> smpl_hdr \<Rightarrow> runtime \<Rightarrow> runtime" where
  "set_thread_hdr tid hdr rt = rt\<lparr>tls_hdr := (tls_hdr rt)(tid \<mapsto> hdr)\<rparr>"

text \<open>
  The thread keeps the address of the mapping, and the kernel changes what lies there with every
  sample. So the contents found at the attach are only the first ones; \<open>kernel_fills\<close> is the
  step by which the kernel puts others in their place.
\<close>

definition kernel_fills :: "int \<Rightarrow> smpl_hdr \<Rightarrow> runtime \<Rightarrow> runtime" where
  "kernel_fills tid hdr rt = (if tls_hdr rt tid = None then rt else set_thread_hdr tid hdr rt)"

definition owner_and_signal :: "int \<Rightarrow> int \<Rightarrow> runtime \<Rightarrow> runtime" where
  "owner_and_signal fd tid rt = pmu_trace (Set_signal fd) (pmu_trace (Set_owner fd tid) rt)"

text \<open>
  PEBS: the Core 2 and the Nehalem function make the same calls from the event look-up on. The
  latter first initialises libpfm once more, and a failure there is only reported.
\<close>

definition attach_pebs :: "libc_env \<Rightarrow> attach_env \<Rightarrow> int \<Rightarrow> runtime \<Rightarrow> (bool \<times> runtime) result" where
  "attach_pebs libc env tid rt =
     (let fd = context_fd env in
      rbind (require (found_event env) rt) (\<lambda>rt0.
      rbind (require (0 \<le> fd) (pmu_trace Create_context rt0)) (\<lambda>rt1.
      case mapped env of
        None \<Rightarrow> Inl (Exit_program 1)
      | Some hdr \<Rightarrow>
      rbind (require (1 \<le> (hdr_version hdr div 2 ^ 16) mod 2 ^ 8) (set_thread_hdr tid hdr (Create_Hdr_Key rt1))) (\<lambda>rt2.
      rbind (require (dispatched env) rt2) (\<lambda>rt3.
      rbind (control_regs True (out_pmcs env)) (\<lambda>pcs.
      rbind (data_regs (out_pmds env)) (\<lambda>pds.
      let rt4 = pmu_trace (Set_async fd) (pmu_trace (Load_context fd tid)
                  (pmu_trace (Write_pmds fd pds) (pmu_trace (Write_pmcs fd pcs) rt3)))
      in rbind (register_fd libc env tid fd (owner_and_signal fd tid rt4)) (\<lambda>rt5.
           Inr (fall_off env, pmu_trace (Self_start fd) rt5)))))))))"

definition pmuprofiler_context_attach_core_pebs ::
  "libc_env \<Rightarrow> attach_env \<Rightarrow> int \<Rightarrow> runtime \<Rightarrow> (bool \<times> runtime) result" where
  "pmuprofiler_context_attach_core_pebs libc env tid rt = attach_pebs libc env tid rt"

definition pmuprofiler_context_attach_nhm_pebs ::
  "libc_env \<Rightarrow> attach_env \<Rightarrow> int \<Rightarrow> runtime \<Rightarrow> (bool \<times> runtime) result" where
  "pmuprofiler_context_attach_nhm_pebs libc env tid rt = attach_pebs libc env tid rt"

text \<open>
  IBS: the control register (its enable bit and maximal count are laid out by libpfm,
  \<open>ibs_control\<close>) and one data register, whose overflow also samples the seven operation
  registers. Failures of these calls end the program.
\<close>

definition ibs_pmd :: pmd where
  "ibs_pmd = zero_pmd\<lparr>pmd_num := 7, pmd_value := 0, pmd_notify := True,
     pmd_smpl_pmds := push_bit 7 (push_bit 7 1 - 1)\<rparr>"

definition pmuprofiler_context_attach_amd_ibs ::
  "libc_env \<Rightarrow> attach_env \<Rightarrow> int \<Rightarrow> runtime \<Rightarrow> (bool \<times> runtime) result" where
  "pmuprofiler_context_attach_amd_ibs libc env tid rt =
     (let fd = context_fd env in
      rbind (require (0 \<le> fd) (pmu_trace Create_context rt)) (\<lambda>rt1.
      rbind (require (pmcs_written env)
               (pmu_trace (Write_pmcs fd [zero_pmc\<lparr>pmc_num := 5, pmc_value := ibs_control env\<rparr>]) rt1)) (\<lambda>rt2.
      rbind (require (pmds_written env) (pmu_trace (Write_pmds fd [ibs_pmd]) rt2)) (\<lambda>rt3.
      rbind (require (context_loaded env) (pmu_trace (Load_context fd tid) rt3)) (\<lambda>rt4.
      rbind (require (async_set env) (pmu_trace (Set_async fd) rt4)) (\<lambda>rt5.
      rbind (require (signal_set env) (owner_and_signal fd tid rt5)) (\<lambda>rt6.
      rbind (register_fd libc env tid fd rt6) (\<lambda>rt7.
        Inr (fall_off env, pmu_trace (Self_start fd) rt7)))))))))"

text \<open>
  The experimental variant, which no other function calls: it creates two contexts and uses the
  second without looking at its descriptor, and it starts the counters before it registers the
  thread.
\<close>

definition pmuprofiler_context_attach_experimental ::
  "libc_env \<Rightarrow> attach_env \<Rightarrow> int \<Rightarrow> runtime \<Rightarrow> (bool \<times> runtime) result" where
  "pmuprofiler_context_attach_experimental libc env tid rt =
     (let fd = second_context_fd env in
      rbind (require (0 \<le> context_fd env) (pmu_trace Create_context rt)) (\<lambda>rt1.
      rbind (require (dispatched env) rt1) (\<lambda>rt2.
      rbind (control_regs False (out_pmcs env)) (\<lambda>pcs.
      rbind (data_regs (out_pmds env)) (\<lambda>pds.
      rbind (require (pmcs_written env) (pmu_trace (Write_pmcs fd pcs) (pmu_trace Create_context rt2))) (\<lambda>rt3.
      rbind (require (pmds_written env) (pmu_trace (Write_pmds fd pds) rt3)) (\<lambda>rt4.
      rbind (require (context_loaded env) (pmu_trace (Load_context fd tid) rt4)) (\<lambda>rt5.
      rbind (require (async_set env) (pmu_trace (Set_async fd) rt5)) (\<lambda>rt6.
      rbind (require (signal_set env) (owner_and_signal fd tid rt6)) (\<lambda>rt7.
      rbind (register_fd libc env tid fd (pmu_trace (Self_start fd) rt7)) (\<lambda>rt8.
        Inr (True, rt8))))))))))))"

definition pmuprofiler_context_attach ::
  "libc_env \<Rightarrow> attach_env \<Rightarrow> int \<Rightarrow> runtime \<Rightarrow> (bool \<times> runtime) result" where
  "pmuprofiler_context_attach libc env tid rt =
     rbind (require (pfm_initialized env) rt) (\<lambda>rt0.
       let rt1 = rt0\<lparr>rt_type := found_type env\<rparr>
       in case found_type env of
            PFMLIB_INTEL_CORE_PMU \<Rightarrow> pmuprofiler_context_attach_core_pebs libc env tid rt1
          | PFMLIB_INTEL_NHM_PMU \<Rightarrow> pmuprofiler_context_attach_nhm_pebs libc env tid rt1
          | PFMLIB_AMD64_PMU \<Rightarrow> pmuprofiler_context_attach_amd_ibs libc env tid rt1
          | OTHER_PMU _ \<Rightarrow> Inl Assertion_failed)"

definition pmu_profiler_perthread_attach ::
  "libc_env \<Rightarrow> attach_env \<Rightarrow> int \<Rightarrow> runtime \<Rightarrow> (bool \<times> runtime) result" where
  "pmu_profiler_perthread_attach libc env tid rt =
     (if racez_enable (rt_flags rt) = 0 then Inr (False, rt)
      else rbind (pmuprofiler_context_attach libc env tid rt) (\<lambda>(b, rt1).
        Inr (if \<not> b then False else True, rt1)))"

section \<open>Starting and stopping\<close>

text \<open>\<open>ok\<close> tells whether \<open>sigaction\<close> succeeds.\<close>

definition setup_signal_handler :: "bool \<Rightarrow> runtime \<Rightarrow> bool \<times> runtime" where
  "setup_signal_handler ok rt =
     (if \<not> ok then (False, rt) else (True, rt\<lparr>sigio_action := Call_handler, sig_enable := True\<rparr>))"

text \<open>The callers ignore the value of \<open>disable_signal_handler\<close>, which has none on success.\<close>

definition disable_signal_handler :: "bool \<Rightarrow> runtime \<Rightarrow> runtime" where
  "disable_signal_handler ok rt = (if \<not> ok then rt else rt\<lparr>sigio_action := Ignore_signal\<rparr>)"

record start_env =
  start_initialized :: bool
  start_type :: pmu_type
  start_buffer :: init_env
  start_sigaction :: bool
  start_fall_off :: bool

definition pmu_profiler_start :: "start_env \<Rightarrow> runtime \<Rightarrow> (bool \<times> runtime) result" where
  "pmu_profiler_start env rt =
     rbind (require (start_initialized env) rt) (\<lambda>rt0.
       let rt1 = rt0\<lparr>rt_type := start_type env\<rparr>
       in case start_type env of
            OTHER_PMU _ \<Rightarrow> Inr (False, rt1)
          | _ \<Rightarrow>
              rbind (InitBuffer (start_buffer env) (rt_buffer rt1)) (\<lambda>(_, b).
                if sig_enable rt1 then Inl Assertion_failed
                else Inr (start_fall_off env, snd (setup_signal_handler (start_sigaction env) (rt1\<lparr>rt_buffer := b\<rparr>)))))"

text \<open>The loop over the map, in the order of the thread ids.\<close>

fun stop_contexts :: "(int, int) omap \<Rightarrow> runtime \<Rightarrow> runtime result" where
  "stop_contexts [] rt = Inr rt"
| "stop_contexts ((tid, fd) # m) rt =
     (if fd = 0 then Inl Assertion_failed else stop_contexts m (pmu_trace (Stop_context fd) rt))"

record stop_env =
  stop_mutex :: ptr
  stop_sigaction :: bool
  stop_writes :: "int \<Rightarrow> bool"

definition pmu_profiler_stop :: "libc_env \<Rightarrow> stop_env \<Rightarrow> int \<Rightarrow> runtime \<Rightarrow> (bool \<times> runtime) result" where
  "pmu_profiler_stop libc env tid rt =
     rbind (pthread_mutex_lock libc 0 tid (stop_mutex env) rt) (\<lambda>(_, rt1).
     rbind (stop_contexts (tid_fd_map rt1) rt1) (\<lambda>rt2.
     rbind (pthread_mutex_unlock libc 0 tid (stop_mutex env) rt2) (\<lambda>(_, rt3).
     let rt4 = disable_signal_handler (stop_sigaction env) rt3
     in rbind (StopBuffer (stop_writes env) (rt_buffer rt4)) (\<lambda>b. Inr (True, rt4\<lparr>rt_buffer := b\<rparr>)))))"

end
