(* ===== verification/Racez_Control.thy ===== *)
theory Racez_Control
  imports Racez_Pmu
begin

text \<open>
  The control functions of racez_preload.c: creating threads and switching the profiler on and
  off.
\<close>

section \<open>Threads\<close>

text \<open>
  \<open>start_func\<close> is what the thread does; the value it returns is not passed on, and the value
  of \<open>racez_thread_start_func\<close> itself is indeterminate.
\<close>

definition racez_thread_start_func ::
  "libc_env \<Rightarrow> attach_env \<Rightarrow> (runtime \<Rightarrow> (ptr \<times> runtime) result) \<Rightarrow> int \<Rightarrow> runtime \<Rightarrow> runtime result" where
  "racez_thread_start_func libc env start_func tid rt =
     rbind (if racez_enable (rt_flags rt) \<noteq> 0
            then rbind (pmu_profiler_perthread_attach libc env tid rt) (\<lambda>(_, rt1). Inr rt1) else Inr rt)
       (\<lambda>rt1. rbind (start_func rt1) (\<lambda>(_, rt2). Inr rt2))"

text \<open>
  The pair of the start function and its argument is allocated with \<open>malloc\<close>, which gives
  \<open>p\<close>; \<open>r\<close> is the result of the real function.
\<close>

definition pthread_create :: "libc_env \<Rightarrow> int \<Rightarrow> ptr \<Rightarrow> int \<Rightarrow> runtime \<Rightarrow> (int \<times> runtime) result" where
  "pthread_create libc tid p r rt =
     rbind (malloc libc tid 16 p (once_init libc rt)) (\<lambda>(orig_start, rt1).
       if orig_start = 0 then Inl Null_pointer
       else if \<not> dlsym libc ''pthread_create'' then Inl Null_pointer
       else Inr (r, rt1))"

section \<open>Switching on and off\<close>

definition set_enable :: "int \<Rightarrow> runtime \<Rightarrow> runtime" where
  "set_enable v rt = rt\<lparr>rt_flags := (rt_flags rt)\<lparr>racez_enable := v\<rparr>\<rparr>"

definition racez_start :: "libc_env \<Rightarrow> start_env \<Rightarrow> runtime \<Rightarrow> runtime result" where
  "racez_start libc env rt =
     rbind (pmu_profiler_start env (once_init libc rt)) (\<lambda>(b, rt1).
       if b then (if racez_enable (rt_flags rt1) \<noteq> 0 then Inl Assertion_failed else Inr (set_enable 1 rt1))
       else Inr rt1)"

definition racez_stop :: "libc_env \<Rightarrow> stop_env \<Rightarrow> int \<Rightarrow> runtime \<Rightarrow> runtime result" where
  "racez_stop libc env tid rt =
     (if racez_enable (rt_flags rt) \<noteq> 1 then Inl Assertion_failed
      else rbind (pmu_profiler_stop libc env tid (set_enable 0 rt)) (\<lambda>(_, rt1). Inr rt1))"

section \<open>Without the library\<close>

text \<open>
  The functions of util/util.cc, which a program is linked with and which the preloaded library
  replaces: run without it, they leave the state of the program, whatever it is, alone.
\<close>

definition stub_racez_start :: "'s \<Rightarrow> int \<times> 's" where
  "stub_racez_start s = (0, s)"

definition stub_racez_stop :: "'s \<Rightarrow> int \<times> 's" where
  "stub_racez_stop s = (0, s)"

definition stub_racez_log_memory_allocation :: "ptr \<Rightarrow> int \<Rightarrow> int \<Rightarrow> 's \<Rightarrow> 's" where
  "stub_racez_log_memory_allocation start sz alloc s = s"

definition stub_debug_mutex :: "'s \<Rightarrow> 's" where
  "stub_debug_mutex s = s"

end
