(* ===== verification/Mutex_Properties.thy ===== *)
theory Mutex_Properties
  imports Racez_Mutex
begin

text \<open>
  Properties of the lock tracking: what is recorded under any interleaving of threads, and what
  an interruption by the signal handler does to a lockset that is being changed.
\<close>

section \<open>Interleaved threads\<close>

text \<open>
  Events of several threads, in the order they happen. \<open>lockset_of\<close> is the lockset of a
  thread, the fresh one when the thread has none yet.
\<close>

definition mutex_event :: "ptr list option \<Rightarrow> int \<times> lock_op \<Rightarrow> tls_state \<Rightarrow> tls_state result" where
  "mutex_event fresh ev st =
     (case ev of (tid, Acquire m) \<Rightarrow> add_one_mutex fresh tid m st
               | (tid, Release m) \<Rightarrow> remove_one_mutex fresh tid m st)"

definition empty_lockset :: "ptr list \<Rightarrow> LOCKSET" where
  "empty_lockset junk = \<lparr>ls_n = 0, ls_overflow = False, ls_lockset = junk\<rparr>"

definition lockset_of :: "ptr list \<Rightarrow> tls_state \<Rightarrow> int \<Rightarrow> LOCKSET" where
  "lockset_of junk st tid = (case GetPerThreadLockset tid st of None \<Rightarrow> empty_lockset junk | Some l \<Rightarrow> l)"

definition thread_ops :: "int \<Rightarrow> (int \<times> lock_op) list \<Rightarrow> lock_op list" where
  "thread_ops tid evs = map snd (filter (\<lambda>ev. fst ev = tid) evs)"

lemma update_lockset_fresh:
  "update_lockset f (Some junk) tid st =
     rbind (f (lockset_of junk st tid)) (\<lambda>l'.
       let st' = (if GetPerThreadLockset tid st = None then Create_Tls_Key st else st)
       in Inr (st'\<lparr>tls_value := (tls_value st')(tid \<mapsto> l')\<rparr>))"
proof -
  let ?e = "\<lparr>ls_n = 0, ls_overflow = False, ls_lockset = junk\<rparr>"
  show ?thesis
  proof (cases "GetPerThreadLockset tid st")
    case None
    let ?st = "Create_Tls_Key st"
    have c: "tls_created ?st" by (simp add: Create_Tls_Key_def)
    then have "GetPerThreadLockset tid (?st\<lparr>tls_value := (tls_value ?st)(tid \<mapsto> ?e)\<rparr>) = Some ?e"
      by (simp add: GetPerThreadLockset_def)
    with None show ?thesis
      by (cases "f ?e") (simp_all add: update_lockset_def ensure_lockset_def SetPerThreadLockset_def
          lockset_of_def empty_lockset_def Let_def)
  next
    case (Some l)
    then show ?thesis
      by (cases "f l") (simp_all add: update_lockset_def ensure_lockset_def lockset_of_def)
  qed
qed

lemma update_lockset_other:
  assumes "update_lockset f (Some junk) tid st = Inr st'"
  shows "f (lockset_of junk st tid) = Inr (lockset_of junk st' tid)"
    and "t \<noteq> tid \<Longrightarrow> GetPerThreadLockset t st' = GetPerThreadLockset t st"
    and "GetPerThreadLockset tid st' = Some (lockset_of junk st' tid)"
  using assms
  by (auto simp: update_lockset_fresh Let_def lockset_of_def GetPerThreadLockset_def Create_Tls_Key_def
      split: if_splits option.splits)

lemma track_step_eta:
  "track_step add remove (Acquire m) = add m" "track_step add remove (Release m) = remove m"
  by (simp_all add: fun_eq_iff)

lemma mutex_event_update:
  "mutex_event fresh (tid, e) st = update_lockset (track_step lockset_add lockset_remove e) fresh tid st"
  by (cases e) (simp_all add: mutex_event_def add_one_mutex_def remove_one_mutex_def track_step_eta)

lemma lockset_of_mutex_event:
  assumes "mutex_event (Some junk) (tid, e) st = Inr st'"
  shows "lockset_of junk st' t = (if t = tid then projr (track_step lockset_add lockset_remove e (lockset_of junk st tid))
    else lockset_of junk st t)"
proof -
  have u: "update_lockset (track_step lockset_add lockset_remove e) (Some junk) tid st = Inr st'"
    using assms by (simp only: mutex_event_update)
  show ?thesis
  proof (cases "t = tid")
    case True
    then show ?thesis using update_lockset_other(1) [OF u] by simp
  next
    case False
    then show ?thesis using update_lockset_other(2) [OF u False] by (simp add: lockset_of_def)
  qed
qed

lemma thread_ops_snoc: "thread_ops t (evs @ [(tid, e)]) = thread_ops t evs @ (if t = tid then [e] else [])"
  by (simp add: thread_ops_def)

lemma lockset_ok_empty: "length junk = 10 \<Longrightarrow> lockset_ok (empty_lockset junk) \<and> recorded (empty_lockset junk) = {#}"
  by (simp add: lockset_ok_def recorded_def entries_def empty_lockset_def)

text \<open>
  Under any interleaving, the lockset of each thread is what its own operations make of an
  empty lockset.
\<close>

lemma interleaved_locksets:
  assumes "length junk = 10"
  shows "\<exists>st. rfold (mutex_event (Some junk)) evs init_tls = Inr st \<and>
    (\<forall>t. rfold (track_step lockset_add lockset_remove) (thread_ops t evs) (empty_lockset junk) = Inr (lockset_of junk st t) \<and>
         (GetPerThreadLockset t st = None \<longleftrightarrow> thread_ops t evs = []))"
proof (induction evs rule: rev_induct)
  case Nil
  show ?case
    by (simp add: thread_ops_def lockset_of_def GetPerThreadLockset_def init_tls_def)
next
  case (snoc ev evs)
  obtain tid e where ev: "ev = (tid, e)" by fastforce
  from snoc obtain st where st: "rfold (mutex_event (Some junk)) evs init_tls = Inr st"
    and ls: "\<And>t. rfold (track_step lockset_add lockset_remove) (thread_ops t evs) (empty_lockset junk) = Inr (lockset_of junk st t)"
    and none: "\<And>t. GetPerThreadLockset t st = None \<longleftrightarrow> thread_ops t evs = []"
    by blast
  have "lockset_ok (lockset_of junk st tid)"
    using lt.run_spec [of "empty_lockset junk" "thread_ops tid evs"] lockset_ok_empty [OF assms] ls [of tid]
    by auto
  then obtain l' where l': "track_step lockset_add lockset_remove e (lockset_of junk st tid) = Inr l'"
    using lt.step_total [of "lockset_of junk st tid" "recorded (lockset_of junk st tid)" e] by auto
  then obtain st' where st': "mutex_event (Some junk) (tid, e) st = Inr st'"
    by (auto simp: mutex_event_update update_lockset_fresh Let_def)
  have other: "GetPerThreadLockset t st' = (if t = tid then Some (lockset_of junk st' tid) else GetPerThreadLockset t st)" for t
    using update_lockset_other(2,3) st' by (auto simp: mutex_event_update)
  have "rfold (track_step lockset_add lockset_remove) (thread_ops t (evs @ [ev])) (empty_lockset junk) = Inr (lockset_of junk st' t)" for t
    using ls [of t] l' lockset_of_mutex_event [OF st', of t]
    by (auto simp: ev thread_ops_snoc rfold_append)
  moreover have "GetPerThreadLockset t st' = None \<longleftrightarrow> thread_ops t (evs @ [ev]) = []" for t
    using none [of t] by (auto simp: other ev thread_ops_snoc)
  ultimately show ?case
    using st st' by (auto simp: rfold_append ev)
qed

section \<open>Properties of the tracking\<close>

text \<open>C16: Whatever operations several threads make in whatever order, the tracking never fails,
  the lockset of a thread records only locks that this thread holds, and all of them as long as
  the thread never holds more than ten.\<close>

theorem tracking_is_sound:
  assumes "length junk = 10"
  shows "\<exists>st. rfold (mutex_event (Some junk)) evs init_tls = Inr st \<and>
    (\<forall>t. recorded (lockset_of junk st t) \<subseteq># held_after (thread_ops t evs) \<and>
         (within 10 (thread_ops t evs) \<longrightarrow> recorded (lockset_of junk st t) = held_after (thread_ops t evs)))"
proof -
  obtain st where "rfold (mutex_event (Some junk)) evs init_tls = Inr st"
    and ls: "\<And>t. rfold (track_step lockset_add lockset_remove) (thread_ops t evs) (empty_lockset junk) = Inr (lockset_of junk st t)"
    using interleaved_locksets [OF assms] by blast
  moreover have "recorded (lockset_of junk st t) \<subseteq># held_after (thread_ops t evs) \<and>
      (within 10 (thread_ops t evs) \<longrightarrow> recorded (lockset_of junk st t) = held_after (thread_ops t evs))" for t
    using lt.run_spec [of "empty_lockset junk" "thread_ops t evs"] lockset_ok_empty [OF assms] ls [of t] by auto
  ultimately show ?thesis by blast
qed

theorem tracking_is_sound_witness:
  "\<exists>st. rfold (mutex_event (Some (replicate 10 0))) [(1, Acquire 5), (2, Acquire 6), (1, Acquire 7), (1, Release 5)] init_tls = Inr st \<and>
     recorded (lockset_of (replicate 10 0) st 1) = {#7#}"
proof -
  let ?evs = "[(1, Acquire 5), (2, Acquire 6), (1, Acquire 7), (1, Release 5)]"
  have ops: "thread_ops 1 ?evs = [Acquire 5, Acquire 7, Release 5]" by (simp add: thread_ops_def)
  have "within 10 (thread_ops 1 ?evs)" "held_after (thread_ops 1 ?evs) = {#7#}"
    unfolding ops by (simp_all add: within_def held_after_def upt_rec)
  with tracking_is_sound [of "replicate 10 0" ?evs] show ?thesis by auto
qed

text \<open>One operation leaves the locksets of the other threads as they are.\<close>

lemma threads_are_separate:
  assumes "mutex_event (Some junk) (tid, e) st = Inr st'" and "t \<noteq> tid"
  shows "GetPerThreadLockset t st' = GetPerThreadLockset t st"
  using assms update_lockset_other(2) by (auto simp: mutex_event_update)

lemma threads_are_separate_example:
  "\<exists>st'. mutex_event (Some (replicate 10 0)) (1, Acquire 5) init_tls = Inr st' \<and>
     GetPerThreadLockset 2 st' = GetPerThreadLockset 2 init_tls"
proof -
  obtain st' where "mutex_event (Some (replicate 10 0)) (1, Acquire 5) init_tls = Inr st'"
    using interleaved_locksets [of "replicate 10 0" "[(1, Acquire 5)]"] by auto
  with threads_are_separate [OF this, of 2] show ?thesis by simp
qed

section \<open>Interruptions\<close>

definition open_lockset :: "LOCKSET \<Rightarrow> bool" where
  "open_lockset l \<longleftrightarrow> length (ls_lockset l) = 10 \<and> 0 \<le> ls_n l \<and> ls_n l < 10 \<and> \<not> ls_overflow l"

lemma open_lockset_ok: "open_lockset l \<Longrightarrow> lockset_ok l"
  by (auto simp: open_lockset_def lockset_ok_def)

lemma handler_pair_neutral:
  assumes "open_lockset l"
  shows "\<exists>l'. handler_pair m l = Inr l' \<and> open_lockset l' \<and> entries l' = entries l"
proof -
  obtain l1 where l1: "lockset_add m l = Inr l1" "lockset_ok l1" "entries l1 = entries l @ [m]"
    using assms lockset_add_open [of l m] by (auto simp: open_lockset_def)
  then obtain us vs where split: "entries l1 = us @ m # vs" "m \<notin> set us"
    by (metis in_set_conv_decomp_first last_in_set last_snoc snoc_eq_iff_butlast)
  then obtain l2 where l2: "lockset_remove m l1 = Inr l2" "lockset_ok l2"
    "entries l2 = (if vs = [] then us else us @ last vs # butlast vs)"
    using lockset_remove_found [OF l1(2)] by blast
  have "entries l2 = entries l"
    using l1(3) split(1) l2(3) by (cases vs rule: rev_cases) auto
  moreover from this have "nat (ls_n l2) = nat (ls_n l)"
    using length_entries [OF l2(2)] length_entries [OF open_lockset_ok [OF assms]] by simp
  ultimately show ?thesis
    using l1(1) l2 assms by (auto simp: handler_pair_def open_lockset_def lockset_ok_def)
qed

lemma handler_locks_neutral:
  "open_lockset l \<Longrightarrow> \<exists>l'. handler_locks ms l = Inr l' \<and> open_lockset l' \<and> entries l' = entries l"
proof (induction ms arbitrary: l)
  case (Cons m ms)
  from handler_pair_neutral [OF Cons.prems] obtain l1 where
    "handler_pair m l = Inr l1" "open_lockset l1" "entries l1 = entries l" by blast
  with Cons.IH [of l1] show ?case by (simp add: handler_locks_def)
qed (simp add: handler_locks_def)

lemma add_entry_last:
  assumes "length (ls_lockset l) = 10" and "0 < ls_n l" and "ls_n l \<le> 10"
  shows "\<exists>l'. add_entry m l = Inr l' \<and> ls_n l' = ls_n l \<and> ls_overflow l' = ls_overflow l \<and>
    length (ls_lockset l') = 10 \<and> entries l' = butlast (entries l) @ [m]"
proof -
  obtain k where k: "nat (ls_n l) = Suc k" "k < 10" "nat (ls_n l - 1) = k"
    using assms by (cases "nat (ls_n l)") auto
  then have "take (Suc k) ((ls_lockset l)[k := m]) = take k (ls_lockset l) @ [m]"
    using assms(1) by (simp add: take_Suc_conv_app_nth)
  moreover have "butlast (take (Suc k) (ls_lockset l)) = take k (ls_lockset l)"
    using k assms(1) by (simp add: butlast_take)
  ultimately show ?thesis
    using assms k by (simp add: add_entry_def array_write_def entries_def)
qed

text \<open>C23: A signal handler that locks and unlocks between the two stores of an addition does no
  harm while fewer than nine locks are recorded: the entries afterwards are those of the
  uninterrupted addition.\<close>

theorem interrupted_add_is_atomic:
  assumes "lockset_ok l" and "ls_n l < 9"
  shows "\<exists>l1 l2. lockset_add m l = Inr l1 \<and> add_interrupted ms m l = Inr l2 \<and>
    lockset_ok l2 \<and> entries l2 = entries l1"
proof -
  have o: "\<not> ls_overflow l" and l: "length (ls_lockset l) = 10" "0 \<le> ls_n l"
    using assms by (auto simp: lockset_ok_def)
  obtain l1 where l1: "lockset_add m l = Inr l1" "entries l1 = entries l @ [m]"
    using lockset_add_open [of l m] o l assms(2) by auto
  have "open_lockset (add_count l)"
    using o l assms(2) by (simp add: open_lockset_def add_count_def)
  then obtain h where h: "handler_locks ms (add_count l) = Inr h" "open_lockset h"
    "entries h = entries (add_count l)"
    using handler_locks_neutral by blast
  have len: "nat (ls_n h) = Suc (nat (ls_n l))"
  proof -
    have "nat (ls_n h) = length (entries (add_count l))"
      using h length_entries [OF open_lockset_ok [OF h(2)]] by simp
    also have "\<dots> = Suc (nat (ls_n l))"
      using l assms(2) by (simp add: entries_def add_count_def nat_add_distrib)
    finally show ?thesis .
  qed
  then have "0 < ls_n h" by linarith
  then obtain l2 where l2: "add_entry m h = Inr l2" "ls_n l2 = ls_n h" "ls_overflow l2 = ls_overflow h"
    "length (ls_lockset l2) = 10" "entries l2 = butlast (entries h) @ [m]"
    using add_entry_last [of h m] h(2) by (auto simp: open_lockset_def)
  have "butlast (entries h) = entries l"
    unfolding h(3) using l assms(2) by (simp add: entries_def add_count_def nat_add_distrib butlast_take)
  moreover have "add_flag l2 = l2"
    using l2(2) h(2) by (simp add: add_flag_def open_lockset_def)
  ultimately show ?thesis
    using l1 l2 h o by (auto simp: add_interrupted_def lockset_ok_def open_lockset_def)
qed

definition example_lockset :: "ptr list \<Rightarrow> LOCKSET" where
  "example_lockset ms = \<lparr>ls_n = int (length ms), ls_overflow = (length ms = 10),
     ls_lockset = ms @ replicate (10 - length ms) 0\<rparr>"

theorem interrupted_add_is_atomic_witness:
  "\<exists>l1 l2. lockset_add 7 (example_lockset [5]) = Inr l1 \<and>
     add_interrupted [9, 5] 7 (example_lockset [5]) = Inr l2 \<and> entries l2 = entries l1"
  using interrupted_add_is_atomic [of "example_lockset [5]" 7 "[9, 5]"]
  by (auto simp: lockset_ok_def example_lockset_def)

text \<open>C24: With nine locks recorded the same interruption is fatal: the flag that would stop the
  handler is set only after the second store, and the handler writes behind the array.\<close>

theorem interrupted_tenth_add_overruns:
  assumes "lockset_ok l" and "ls_n l = 9"
  shows "add_interrupted (x # ms) m l = Inl Out_of_bounds"
  using assms
  by (simp add: add_interrupted_def handler_locks_def handler_pair_def lockset_add_def add_entry_def
      add_count_def array_write_def lockset_ok_def)

theorem interrupted_tenth_add_overruns_witness:
  "add_interrupted [20] 10 (example_lockset [1, 2, 3, 4, 5, 6, 7, 8, 9]) = Inl Out_of_bounds"
  by (rule interrupted_tenth_add_overruns) (simp_all add: lockset_ok_def example_lockset_def)

text \<open>A pair on a mutex that is not recorded leaves its address behind in the first free slot.\<close>

lemma handler_pair_fresh:
  assumes "open_lockset r" and "x \<notin> set (entries r)"
  shows "handler_pair x r = Inr (r\<lparr>ls_lockset := (ls_lockset r)[nat (ls_n r) := x]\<rparr>)"
proof -
  let ?k = "nat (ls_n r)" and ?arr = "ls_lockset r"
  have r: "length ?arr = 10" "0 \<le> ls_n r" "ls_n r < 10" "\<not> ls_overflow r"
    using assms(1) by (auto simp: open_lockset_def)
  define r1 where "r1 = add_flag (r\<lparr>ls_n := ls_n r + 1, ls_lockset := ?arr[?k := x]\<rparr>)"
  have add: "lockset_add x r = Inr r1"
    using r by (simp add: lockset_add_def add_entry_def add_count_def array_write_def r1_def)
  then have r1: "lockset_ok r1" "entries r1 = entries r @ [x]"
    using lockset_add_open [of r x] r by auto
  have f: "ls_n r1 = ls_n r + 1" "ls_lockset r1 = ?arr[?k := x]" and k: "length (entries r) = ?k"
    using length_entries [OF open_lockset_ok [OF assms(1)]] by (simp_all add: r1_def add_flag_def)
  have "lockset_remove x r1 = Inr (r1\<lparr>ls_n := ls_n r, ls_overflow := False\<rparr>)"
    using lockset_remove_run [OF r1(1), of "entries r" x "[]"] r1(2) assms(2) f k r
    by (simp add: nat_add_distrib)
  also have "r1\<lparr>ls_n := ls_n r, ls_overflow := False\<rparr> = r\<lparr>ls_lockset := ?arr[?k := x]\<rparr>"
    using r(4) by (auto simp: r1_def add_flag_def intro!: LOCKSET.equality)
  finally show ?thesis using add by (simp add: handler_pair_def)
qed

text \<open>C25: A handler between the two stores of a removal overwrites the last entry before it is
  moved: a lock the thread still holds is lost and the handler's mutex, which is no longer held,
  takes its place.\<close>

theorem interrupted_remove_loses_lock:
  assumes "lockset_ok l" and "ls_n l < 10" and "entries l = us @ m # vs @ [z]" and "m \<notin> set us"
    and "x \<notin> set (us @ m # vs)"
  shows "\<exists>l1 l2. lockset_remove m l = Inr l1 \<and> entries l1 = us @ z # vs \<and>
    remove_interrupted [x] m l = Inr l2 \<and> entries l2 = us @ x # vs"
proof -
  let ?arr = "ls_lockset l" and ?k = "nat (ls_n l - 1)"
  obtain l1 where l1: "lockset_remove m l = Inr l1" "entries l1 = us @ z # vs"
    using lockset_remove_found [OF assms(1), of us m "vs @ [z]"] assms(3,4) by auto
  have n: "nat (ls_n l) = length us + length vs + 2" "length ?arr = 10" "\<not> ls_overflow l"
    using length_entries [OF assms(1)] assms by (auto simp: lockset_ok_def)
  then have k: "?k = length us + length vs + 1" "0 \<le> ls_n l - 1" "ls_n l - 1 < 10"
    using assms(2) by linarith+
  have e: "entries (remove_count l) = us @ m # vs"
  proof -
    have "?k = nat (ls_n l) - 1" by simp
    then have "entries (remove_count l) = butlast (entries l)"
      using n(2) assms(2) by (simp add: remove_count_def entries_def butlast_take)
    then show ?thesis by (simp add: assms(3) butlast_append)
  qed
  have "open_lockset (remove_count l)"
    using n k by (simp add: open_lockset_def remove_count_def)
  then have h: "handler_locks [x] (remove_count l) = Inr ((remove_count l)\<lparr>ls_lockset := ?arr[?k := x]\<rparr>)"
    using handler_pair_fresh [of "remove_count l" x] e assms(5)
    by (simp add: handler_locks_def remove_count_def)
  have "find_index (\<lambda>y. y = m) (entries l) = length us"
    unfolding assms(3) using assms(4) by (auto simp: find_index_def takeWhile_append)
  then have scan: "remove_scan 0 (ls_n l) m ?arr = Inr (Some (int (length us)))"
    using assms(1,3) by (simp add: scan_entries)
  have "array_read (?arr[?k := x]) (ls_n l - 1) = Inr x"
    and "array_write (?arr[?k := x]) (int (length us)) x = Inr (?arr[?k := x, length us := x])"
    using k n by (simp_all add: array_read_def array_write_def)
  with h scan n(3) have "remove_interrupted [x] m l =
      Inr (l\<lparr>ls_n := ls_n l - 1, ls_lockset := ?arr[?k := x, length us := x]\<rparr>)"
    by (simp add: remove_interrupted_def remove_count_def remove_entry_def remove_flag_def Let_def)
  moreover have "take ?k (?arr[?k := x, length us := x]) = us @ x # vs"
    using e unfolding take_update_swap [of _ _ "length us"]
    by (simp add: entries_def remove_count_def list_update_append)
  ultimately show ?thesis using l1 by (auto simp: entries_def)
qed

theorem interrupted_remove_loses_lock_witness:
  "\<exists>l1 l2. lockset_remove 5 (example_lockset [5, 7]) = Inr l1 \<and> entries l1 = [7] \<and>
     remove_interrupted [9] 5 (example_lockset [5, 7]) = Inr l2 \<and> entries l2 = [9]"
  using interrupted_remove_loses_lock [of "example_lockset [5, 7]" "[]" 5 "[]" 7 9]
  by (simp add: lockset_ok_def example_lockset_def entries_def)

end
