(* ===== verification/Runtime_Invariant.thy ===== *)
theory Runtime_Invariant
  imports Racez_Control Mutex_Properties
begin

text \<open>
  The invariant of the library state and that every entry point keeps it: the interposed
  functions, the signal handler, attaching a thread, starting and stopping.
\<close>

section \<open>Invariant\<close>

definition locksets_ok :: "tls_state \<Rightarrow> bool" where
  "locksets_ok st \<longleftrightarrow> (\<forall>t l. GetPerThreadLockset t st = Some l \<longrightarrow> lockset_ok l)"

text \<open>
  What the library puts into a record it logs, and what then stands in the log: the number is
  the position, the counts fit the arrays, an access is a read or a write, and the type is one
  of the four that are logged.
\<close>

definition loggable :: "Record \<Rightarrow> bool" where
  "loggable r \<longleftrightarrow> record_type r \<in> {MEMORY_OP, SYNC_WAIT, SYNC_SIGNAL, MEMORY_ALLOC} \<and>
     (record_type r = MEMORY_OP \<longrightarrow> is_write r \<in> {0, 1})"

definition entry_typed :: "int \<Rightarrow> Record \<Rightarrow> bool" where
  "entry_typed no e \<longleftrightarrow> record_no e = no \<and> layout_ok e \<and> trace_depth e \<le> 10 \<and>
     record_type e \<in> {MEMORY_OP, SYNC_WAIT, SYNC_SIGNAL, MEMORY_ALLOC} \<and>
     (record_type e = MEMORY_OP \<longrightarrow> is_write e \<in> {0, 1} \<and> lock_count e \<le> 10)"

definition buffer_layout :: "buffer_state \<Rightarrow> bool" where
  "buffer_layout b \<longleftrightarrow> (\<forall>bd. global_buffer b = Some bd \<longrightarrow> 0 \<le> bd_global bd \<and> (\<forall>i. layout_ok (bd_start bd i)) \<and>
     (\<forall>i. 1 \<le> i \<and> i \<le> bd_global bd \<and> i < BUFFERSIZE \<longrightarrow> entry_typed i (bd_start bd i)))"

definition map_ok :: "(int, int) omap \<Rightarrow> bool" where
  "map_ok m \<longleftrightarrow> sorted_keys m \<and> 0 \<notin> snd ` set m"

definition runtime_ok :: "runtime \<Rightarrow> bool" where
  "runtime_ok rt \<longleftrightarrow>
     locksets_ok (rt_tls rt) \<and> map_ok (tid_fd_map rt) \<and> buffer_layout (rt_buffer rt) \<and>
     (racez_enable (rt_flags rt) = 0 \<or>
      racez_enable (rt_flags rt) = 1 \<and> rt_initialized rt \<and> global_buffer (rt_buffer rt) \<noteq> None)"

text \<open>The C library behaves: the real functions exist and a new lockset has ten words.\<close>

definition libc_ok :: "libc_env \<Rightarrow> bool" where
  "libc_ok libc \<longleftrightarrow> (\<forall>f. dlsym libc f) \<and> (\<exists>p junk. fresh_lockset libc = Some (p, junk) \<and> length junk = 10)"

section \<open>Calls that only log and track\<close>

text \<open>
  What an interposed function may change: the flags read from the environment, the contents of
  the buffer, the locksets; and it keeps the last two well formed.
\<close>

definition calm :: "runtime \<Rightarrow> runtime \<Rightarrow> bool" where
  "calm rt rt' \<longleftrightarrow>
     tid_fd_map rt' = tid_fd_map rt \<and> racez_enable (rt_flags rt') = racez_enable (rt_flags rt) \<and>
     (rt_initialized rt \<longrightarrow> rt_initialized rt' \<and> rt_flags rt' = rt_flags rt) \<and> pmu_calls rt' = pmu_calls rt \<and>
     sig_enable rt' = sig_enable rt \<and> sigio_action rt' = sigio_action rt \<and> rt_type rt' = rt_type rt \<and>
     written_out (rt_buffer rt') = written_out (rt_buffer rt) \<and>
     (global_buffer (rt_buffer rt') = None \<longleftrightarrow> global_buffer (rt_buffer rt) = None) \<and>
     (buffer_layout (rt_buffer rt) \<longrightarrow> buffer_layout (rt_buffer rt')) \<and>
     (locksets_ok (rt_tls rt) \<longrightarrow> locksets_ok (rt_tls rt'))"

lemma calm_refl: "calm rt rt"
  by (simp add: calm_def)

lemma calm_trans: "calm a b \<Longrightarrow> calm b c \<Longrightarrow> calm a c"
  by (simp add: calm_def)

lemma calm_ok: "runtime_ok rt \<Longrightarrow> calm rt rt' \<Longrightarrow> runtime_ok rt'"
  by (auto simp: runtime_ok_def calm_def)

lemma fill_entry_typed:
  assumes "fill_entry no r cur = Inr e" and "layout_ok cur"
  shows "layout_ok e" and "loggable r \<Longrightarrow> entry_typed no e"
proof -
  have l: "length (lockset cur) = 10" "length (stack_trace cur) = 10" using assms(2) by (simp_all add: layout_ok_def)
  show "layout_ok e"
    using assms l by (auto simp: fill_entry_def copy_op_def layout_ok_def copy_prefix_Inr_iff union_store_defs split: if_splits)
  then show "entry_typed no e" if "loggable r"
    using assms(1) l that
    by (auto simp: fill_entry_def copy_op_def entry_typed_def loggable_def copy_prefix_Inr_iff union_store_defs split: if_splits)
qed

lemma store_record_layout:
  assumes "store_record cur r bd = Inr bd'" and "loggable r" and "1 \<le> cur" and "cur = bd_global bd"
    and "\<forall>i. layout_ok (bd_start bd i)"
    and "\<forall>i. 1 \<le> i \<and> i < cur \<and> i < BUFFERSIZE \<longrightarrow> entry_typed i (bd_start bd i)"
  shows "bd_global bd' = cur \<and> (\<forall>i. layout_ok (bd_start bd' i)) \<and>
    (\<forall>i. 1 \<le> i \<and> i \<le> cur \<and> i < BUFFERSIZE \<longrightarrow> entry_typed i (bd_start bd' i))"
proof (cases "cur < BUFFERSIZE")
  case False
  then have "bd' = bd" using assms(1) by (auto simp: store_record_def Let_def split: if_splits)
  with False assms(4-6) show ?thesis by auto
next
  case True
  then have "to_int32 cur = cur" using assms(3) by (intro buffer_position) simp_all
  then obtain e where e: "fill_entry cur r (bd_start bd cur) = Inr e" "bd' = bd\<lparr>bd_start := (bd_start bd)(cur := e)\<rparr>"
    using assms(1,3) True by (auto simp: store_record_def Let_def)
  have "layout_ok e" "entry_typed cur e" using fill_entry_typed [OF e(1)] assms(2,5) by blast+
  with assms(4-6) e(2) show ?thesis by auto
qed

lemma WriteRecord_frame:
  assumes "WriteRecord w r b = Inr b'"
  shows "written_out b' = written_out b" and "global_buffer b' = None \<longleftrightarrow> global_buffer b = None"
    and "loggable r \<Longrightarrow> buffer_layout b \<Longrightarrow> buffer_layout b'"
proof -
  show "written_out b' = written_out b" and "global_buffer b' = None \<longleftrightarrow> global_buffer b = None"
    using assms by (auto simp: WriteRecord_def atomic_increment_no_barrier_def split: if_splits option.splits)
  assume r: "loggable r" and b: "buffer_layout b"
  show "buffer_layout b'"
  proof (cases "w = 0")
    case True
    with assms b show ?thesis by (simp add: WriteRecord_def)
  next
    case False
    let ?inc = "\<lambda>bd. bd\<lparr>bd_global := bd_global bd + 1\<rparr>"
    obtain bd bd' where bd: "global_buffer b = Some bd" "store_record (bd_global bd + 1) r (?inc bd) = Inr bd'"
      "b' = b\<lparr>global_buffer := Some bd'\<rparr>"
      using assms False by (auto simp: WriteRecord_def atomic_increment_no_barrier_def split: option.splits)
    have "0 \<le> bd_global bd" "\<forall>i. layout_ok (bd_start (?inc bd) i)"
      "\<forall>i. 1 \<le> i \<and> i < bd_global bd + 1 \<and> i < BUFFERSIZE \<longrightarrow> entry_typed i (bd_start (?inc bd) i)"
      using b bd(1) by (simp_all add: buffer_layout_def)
    with store_record_layout [OF bd(2) r] show ?thesis by (simp add: buffer_layout_def bd(3))
  qed
qed

lemma log_record_calm: "log_record r rt = Inr rt' \<Longrightarrow> loggable r \<Longrightarrow> calm rt rt'"
  using WriteRecord_frame [of "racez_write_record (rt_flags rt)" r "rt_buffer rt"]
  by (auto simp: log_record_def calm_def)

lemma loggable_records [simp]:
  "loggable (alloc_record tid p sz a)" "loggable (wait_record tid c m)" "loggable (signal_record tid c)"
  "loggable (pebs_record r tid entry ip)" "loggable (user_record tid g ip)" "loggable (ibs_record r tid ip addr rd sp)"
  by (simp_all add: loggable_def alloc_record_def wait_record_def signal_record_def pebs_record_def user_record_def
      ibs_record_def union_store_defs)

lemma take_lockset_loggable: "take_lockset ls r = Inr r' \<Longrightarrow> loggable r \<Longrightarrow> loggable r'"
  by (auto simp: take_lockset_def loggable_def split: option.splits)

lemma once_init_calm: "calm rt (once_init env rt)"
  by (simp add: once_init_def calm_def preload_init_def)

lemma once_init_initialized: "rt_initialized (once_init env rt)"
  by (simp add: once_init_def)

lemma malloc_calm: "malloc env tid sz p rt = Inr (q, rt') \<Longrightarrow> calm rt rt' \<and> q = p"
  by (auto simp: malloc_def Let_def split: if_splits
      intro: once_init_calm calm_trans [OF once_init_calm log_record_calm])

lemma free_calm: "free env tid p rt = Inr rt' \<Longrightarrow> calm rt rt'"
  by (auto simp: free_def Let_def split: if_splits
      intro: once_init_calm calm_trans [OF once_init_calm log_record_calm])

lemma log_memory_allocation_calm: "racez_log_memory_allocation tid p sz a rt = Inr rt' \<Longrightarrow> calm rt rt'"
  by (auto simp: racez_log_memory_allocation_def calm_refl log_record_calm split: if_splits)

lemma cond_wait_calm: "pthread_cond_wait env r tid c m rt = Inr (x, rt') \<Longrightarrow> calm rt rt'"
  by (auto simp: pthread_cond_wait_def Let_def split: if_splits
      intro: once_init_calm calm_trans [OF once_init_calm log_record_calm])

lemma cond_signal_calm: "pthread_cond_signal env r tid c rt = Inr (x, rt') \<Longrightarrow> calm rt rt'"
  by (auto simp: pthread_cond_signal_def Let_def split: if_splits
      intro: once_init_calm calm_trans [OF once_init_calm log_record_calm])

lemma update_lockset_ok:
  assumes "locksets_ok st" and "length junk = 10" and "\<And>l. lockset_ok l \<Longrightarrow> \<exists>l'. f l = Inr l' \<and> lockset_ok l'"
  shows "\<exists>st'. update_lockset f (Some junk) tid st = Inr st' \<and> locksets_ok st'"
proof -
  have l: "lockset_ok (lockset_of junk st tid)"
    using assms(1) lockset_ok_empty [OF assms(2)]
    by (auto simp: lockset_of_def locksets_ok_def split: option.splits)
  then obtain l' where l': "f (lockset_of junk st tid) = Inr l'" "lockset_ok l'" using assms(3) by blast
  then obtain st' where st': "update_lockset f (Some junk) tid st = Inr st'"
    by (auto simp: update_lockset_fresh Let_def)
  have "lockset_ok lt" if "GetPerThreadLockset t st' = Some lt" for t lt
    using that update_lockset_other [OF st'] l' assms(1) by (cases "t = tid") (auto simp: locksets_ok_def)
  with st' show ?thesis by (auto simp: locksets_ok_def)
qed

lemma add_one_mutex_ok:
  "locksets_ok st \<Longrightarrow> length junk = 10 \<Longrightarrow> \<exists>st'. add_one_mutex (Some junk) tid m st = Inr st' \<and> locksets_ok st'"
  unfolding add_one_mutex_def by (rule update_lockset_ok) (auto dest: lockset_add_ok [of _ m])

lemma remove_one_mutex_ok:
  "locksets_ok st \<Longrightarrow> length junk = 10 \<Longrightarrow> \<exists>st'. remove_one_mutex (Some junk) tid m st = Inr st' \<and> locksets_ok st'"
  unfolding remove_one_mutex_def by (rule update_lockset_ok) (auto dest: lockset_remove_ok [of _ m])

lemma with_lockset_calm:
  assumes "with_lockset env op tid rt = Inr rt'"
    and "\<And>fresh st st'. op fresh st = Inr st' \<Longrightarrow> locksets_ok st \<Longrightarrow> fresh = map_option snd (fresh_lockset env) \<Longrightarrow> locksets_ok st'"
  shows "calm rt rt'"
proof -
  obtain rt1 t where rt1: "(if GetPerThreadLockset tid (rt_tls rt) = None
      then rbind (malloc env tid 88 (case fresh_lockset env of Some (p, _) \<Rightarrow> p | None \<Rightarrow> 0) rt) (\<lambda>(_, rt1). Inr rt1)
      else Inr rt) = Inr rt1"
    and t: "op (map_option snd (fresh_lockset env)) (rt_tls rt1) = Inr t" "rt' = rt1\<lparr>rt_tls := t\<rparr>"
    using assms(1) by (auto simp: with_lockset_def)
  have "calm rt rt1" using rt1 by (auto simp: calm_refl dest: malloc_calm split: if_splits)
  moreover have "calm rt1 rt'" using t assms(2) [OF t(1)] by (auto simp: calm_def)
  ultimately show ?thesis by (rule calm_trans)
qed

lemma mutex_op_keeps:
  assumes "libc_ok libc" and "fresh = map_option snd (fresh_lockset libc)" and "locksets_ok st"
  shows "add_one_mutex fresh tid m st = Inr st' \<Longrightarrow> locksets_ok st'"
    and "remove_one_mutex fresh tid m st = Inr st' \<Longrightarrow> locksets_ok st'"
  using assms add_one_mutex_ok [OF assms(3)] remove_one_mutex_ok [OF assms(3)]
  by (auto simp: libc_ok_def) (metis sum.inject(2))+

lemma mutex_lock_calm:
  assumes "libc_ok libc" and "pthread_mutex_lock libc r tid m rt = Inr (x, rt')"
  shows "calm rt rt'"
proof -
  let ?rt = "once_init libc rt"
  have "calm ?rt rt'"
    using assms(2) mutex_op_keeps(1) [OF assms(1)]
    by (auto simp: pthread_mutex_lock_def Let_def calm_refl split: if_splits intro: with_lockset_calm)
  then show ?thesis by (rule calm_trans [OF once_init_calm])
qed

lemma mutex_unlock_calm:
  assumes "libc_ok libc" and "pthread_mutex_unlock libc r tid m rt = Inr (x, rt')"
  shows "calm rt rt'"
proof -
  let ?rt = "once_init libc rt"
  have "calm ?rt rt'"
    using assms(2) mutex_op_keeps(2) [OF assms(1)]
    by (auto simp: pthread_mutex_unlock_def Let_def calm_refl split: if_splits intro: with_lockset_calm)
  then show ?thesis by (rule calm_trans [OF once_init_calm])
qed

section \<open>Attaching, sampling, starting, stopping\<close>

lemma pmu_trace_ok: "runtime_ok (pmu_trace c rt) = runtime_ok rt"
  by (simp add: runtime_ok_def pmu_trace_def)

lemma owner_and_signal_ok: "runtime_ok (owner_and_signal fd tid rt) = runtime_ok rt"
  by (simp add: owner_and_signal_def pmu_trace_ok)

lemma kernel_fills_ok: "runtime_ok (kernel_fills tid hdr rt) = runtime_ok rt"
  by (simp add: runtime_ok_def kernel_fills_def set_thread_hdr_def)

lemma thread_hdr_ok: "runtime_ok (set_thread_hdr tid hdr (Create_Hdr_Key rt)) = runtime_ok rt"
  by (simp add: runtime_ok_def set_thread_hdr_def Create_Hdr_Key_def)

lemma require_Inr: "require b rt = Inr rt' \<longleftrightarrow> b \<and> rt' = rt"
  by (auto simp: require_def)

lemma set_map_assign: "x \<in> set (map_assign k v m) \<Longrightarrow> snd x = v \<or> x \<in> set m"
  by (induction m) (auto split: if_splits)

lemma map_ok_assign: "map_ok m \<Longrightarrow> fd \<noteq> 0 \<Longrightarrow> map_ok (map_assign tid fd m)"
  by (force simp: map_ok_def container_simps dest: set_map_assign)

lemma assign_fd_cases:
  assumes "assign_fd libc env tid fd rt = Inr rt'"
  obtains rt1 where "calm rt rt1" and "rt' = rt1\<lparr>tid_fd_map := map_assign tid fd (tid_fd_map rt1)\<rparr>"
proof (cases "map_of (tid_fd_map rt) tid = None")
  case True
  with assms that show thesis by (auto simp: assign_fd_def dest: malloc_calm split: if_splits)
next
  case False
  with assms that [OF calm_refl] show thesis by (simp add: assign_fd_def)
qed

lemma register_fd_ok:
  assumes "libc_ok libc" and "runtime_ok rt" and "fd \<noteq> 0" and "register_fd libc env tid fd rt = Inr rt'"
  shows "runtime_ok rt'" and "map_of (tid_fd_map rt') tid = Some fd" and "pmu_calls rt' = pmu_calls rt"
proof -
  obtain x y rt0 rt2 where l: "pthread_mutex_lock libc 0 tid (map_mutex env) rt = Inr (x, rt0)"
    and a: "assign_fd libc env tid fd rt0 = Inr rt2" and u': "pthread_mutex_unlock libc 0 tid (map_mutex env) rt2 = Inr (y, rt')"
    using assms(4) by (auto simp: register_fd_def)
  from a obtain rt1 where c0: "calm rt0 rt1" and rt2: "rt2 = rt1\<lparr>tid_fd_map := map_assign tid fd (tid_fd_map rt1)\<rparr>"
    by (rule assign_fd_cases)
  note u = u' [unfolded rt2]
  let ?rt2 = "rt1\<lparr>tid_fd_map := map_assign tid fd (tid_fd_map rt1)\<rparr>"
  have c1: "calm rt rt1" and c2: "calm ?rt2 rt'"
    using calm_trans [OF mutex_lock_calm [OF assms(1) l] c0] mutex_unlock_calm [OF assms(1) u] by blast+
  have rt1: "runtime_ok rt1" using assms(2) c1 by (rule calm_ok)
  then have "runtime_ok ?rt2" using assms(3) by (simp add: runtime_ok_def map_ok_assign)
  then show "runtime_ok rt'" using c2 by (rule calm_ok)
  have "sorted_keys (tid_fd_map rt1)" using rt1 by (simp add: runtime_ok_def map_ok_def)
  then show "map_of (tid_fd_map rt') tid = Some fd" using c2 by (simp add: calm_def container_simps)
  show "pmu_calls rt' = pmu_calls rt" using c1 c2 by (simp add: calm_def)
qed

lemma attach_pebs_ok:
  assumes "libc_ok libc" and "runtime_ok rt" and "context_fd env \<noteq> 0" and "attach_pebs libc env tid rt = Inr (b, rt')"
  shows "\<exists>rt5. rt' = pmu_trace (Self_start (context_fd env)) rt5 \<and> runtime_ok rt5 \<and>
    map_of (tid_fd_map rt5) tid = Some (context_fd env)"
proof -
  obtain hdr rt3 pcs pds rt5 where rt': "rt' = pmu_trace (Self_start (context_fd env)) rt5"
    and rt3: "rt3 = set_thread_hdr tid hdr (Create_Hdr_Key (pmu_trace Create_context rt))"
    and reg: "register_fd libc env tid (context_fd env) (owner_and_signal (context_fd env) tid
      (pmu_trace (Set_async (context_fd env)) (pmu_trace (Load_context (context_fd env) tid)
        (pmu_trace (Write_pmds (context_fd env) pds) (pmu_trace (Write_pmcs (context_fd env) pcs) rt3))))) = Inr rt5"
    using assms(4) by (auto simp: attach_pebs_def require_Inr Let_def split: option.splits)
  have "runtime_ok rt3" using assms(2) by (simp add: rt3 thread_hdr_ok pmu_trace_ok)
  then show ?thesis
    using register_fd_ok(1,2) [OF assms(1) _ assms(3) reg] rt'
    by (intro exI [of _ rt5]) (simp add: owner_and_signal_ok pmu_trace_ok)
qed

lemma attach_ibs_ok:
  assumes "libc_ok libc" and "runtime_ok rt" and "context_fd env \<noteq> 0"
    and "pmuprofiler_context_attach_amd_ibs libc env tid rt = Inr (b, rt')"
  shows "\<exists>rt7. rt' = pmu_trace (Self_start (context_fd env)) rt7 \<and> runtime_ok rt7 \<and>
    map_of (tid_fd_map rt7) tid = Some (context_fd env)"
proof -
  let ?rt6 = "owner_and_signal (context_fd env) tid (pmu_trace (Set_async (context_fd env))
    (pmu_trace (Load_context (context_fd env) tid) (pmu_trace (Write_pmds (context_fd env) [ibs_pmd])
      (pmu_trace (Write_pmcs (context_fd env) [zero_pmc\<lparr>pmc_num := 5, pmc_value := ibs_control env\<rparr>])
        (pmu_trace Create_context rt)))))"
  obtain rt7 where rt': "rt' = pmu_trace (Self_start (context_fd env)) rt7"
    and reg: "register_fd libc env tid (context_fd env) ?rt6 = Inr rt7"
    using assms(4) by (auto simp: pmuprofiler_context_attach_amd_ibs_def require_Inr Let_def)
  have "runtime_ok ?rt6" using assms(2) by (simp add: pmu_trace_ok owner_and_signal_ok)
  then show ?thesis using register_fd_ok(1,2) [OF assms(1) _ assms(3) reg] rt' by auto
qed

lemma attach_ok:
  assumes "libc_ok libc" and "runtime_ok rt" and "context_fd env \<noteq> 0"
    and "pmuprofiler_context_attach libc env tid rt = Inr (b, rt')"
  shows "\<exists>rt1. rt' = pmu_trace (Self_start (context_fd env)) rt1 \<and> runtime_ok rt1 \<and>
    map_of (tid_fd_map rt1) tid = Some (context_fd env)"
proof -
  have ok: "runtime_ok (rt\<lparr>rt_type := ty\<rparr>)" for ty using assms(2) by (simp add: runtime_ok_def)
  have "\<exists>ty. attach_pebs libc env tid (rt\<lparr>rt_type := ty\<rparr>) = Inr (b, rt') \<or>
      pmuprofiler_context_attach_amd_ibs libc env tid (rt\<lparr>rt_type := ty\<rparr>) = Inr (b, rt')"
    using assms(4)
    by (auto simp: pmuprofiler_context_attach_def require_Inr Let_def pmuprofiler_context_attach_core_pebs_def
        pmuprofiler_context_attach_nhm_pebs_def split: pmu_type.splits)
  then show ?thesis
    using attach_pebs_ok [OF assms(1) ok assms(3)] attach_ibs_ok [OF assms(1) ok assms(3)] by blast
qed

lemma perthread_attach_ok:
  assumes "libc_ok libc" and "runtime_ok rt" and "context_fd env \<noteq> 0"
    and "pmu_profiler_perthread_attach libc env tid rt = Inr (b, rt')"
  shows "runtime_ok rt'"
proof (cases "racez_enable (rt_flags rt) = 0")
  case True
  with assms(2,4) show ?thesis by (simp add: pmu_profiler_perthread_attach_def)
next
  case False
  then obtain b' where "pmuprofiler_context_attach libc env tid rt = Inr (b', rt')"
    using assms(4) by (auto simp: pmu_profiler_perthread_attach_def)
  from attach_ok [OF assms(1-3) this] show ?thesis by (auto simp: pmu_trace_ok)
qed

lemma sample_calm: "take_lockset ls r = Inr r' \<Longrightarrow> log_record r' rt = Inr rt' \<Longrightarrow> loggable r \<Longrightarrow> calm rt rt'"
  using take_lockset_loggable log_record_calm by blast

lemma write_pebs_info_calm: "write_pebs_info r tid entry ip g rt = Inr rt' \<Longrightarrow> calm rt rt'"
proof -
  assume w: "write_pebs_info r tid entry ip g rt = Inr rt'"
  define ls where "ls = (if racez_lockset (rt_flags rt) \<noteq> 0 then GetPerThreadLockset tid (rt_tls rt) else None)"
  obtain r1 rt1 where r1: "take_lockset ls (pebs_record r tid entry ip) = Inr r1" "log_record r1 rt = Inr rt1"
    and last: "rt' = rt1 \<or> (\<exists>u. take_lockset ls (user_record tid g ip) = Inr u \<and> log_record u rt1 = Inr rt')"
    using w by (auto simp: write_pebs_info_def ls_def [symmetric] Let_def split: if_splits)
  have "calm rt rt1" using r1 by (rule sample_calm) simp
  moreover have "calm rt1 rt'" using last by (auto intro: calm_refl sample_calm)
  ultimately show ?thesis by (rule calm_trans)
qed

lemma write_ibs_info_calm: "write_ibs_info r tid ip a rd sp rt = Inr rt' \<Longrightarrow> calm rt rt'"
  by (auto simp: write_ibs_info_def intro: sample_calm)

lemmas write_info_calm = write_pebs_info_calm write_ibs_info_calm

lemma signal_handler_pebs_calm: "signal_handler_pebs r tid g rt = Inr rt' \<Longrightarrow> calm rt rt'"
  by (auto simp: signal_handler_pebs_def process_smpl_buf_pebs_def process_entries_last calm_refl
      split: option.splits if_splits dest: write_info_calm(1))

lemma signal_handler_ibs_calm: "signal_handler_amd_ibs env r tid g rt = Inr rt' \<Longrightarrow> calm rt rt'"
  by (auto simp: signal_handler_amd_ibs_def calm_refl split: if_splits dest: write_info_calm(2))

lemma handler_dispatch_ok:
  assumes "handler_dispatch env r tid rt = Inr rt'" and "runtime_ok rt"
  shows "runtime_ok rt'"
proof -
  have "\<exists>rt1. calm rt rt1 \<and> runtime_ok rt' = runtime_ok rt1"
    using assms(1) signal_handler_pebs_calm signal_handler_ibs_calm
    by (fastforce simp: handler_dispatch_def pmu_trace_ok Let_def split: if_splits)
  with assms(2) show ?thesis by (auto dest: calm_ok)
qed

lemma signal_handler_ok:
  assumes "runtime_ok rt" and "map_of (tid_fd_map rt) tid = Some fd" and "signal_handler env tid rt = Inr rt'"
  shows "runtime_ok rt'"
proof -
  have "fst (map_insert tid 0 (tid_fd_map rt)) = tid_fd_map rt"
    using map_insert_present [OF _ assms(2)] assms(1) by (simp add: runtime_ok_def map_ok_def)
  then have "runtime_ok (rt\<lparr>tid_fd_map := fst (map_insert tid 0 (tid_fd_map rt)), num_stat := to_int32 (num_stat rt + 1)\<rparr>)"
    using assms(1) by (simp add: runtime_ok_def)
  then show ?thesis
    using assms(3) by (auto simp: signal_handler_def Let_def pmu_trace_ok dest: handler_dispatch_ok)
qed

definition block_ok :: "start_env \<Rightarrow> bool" where
  "block_ok env \<longleftrightarrow> (\<forall>junk. block_contents (start_buffer env) = Some junk \<longrightarrow> (\<forall>i. layout_ok (junk i)))"

lemma InitBuffer_layout:
  "InitBuffer env b = Inr (x, b') \<Longrightarrow> (\<And>junk. block_contents env = Some junk \<Longrightarrow> \<forall>i. layout_ok (junk i)) \<Longrightarrow>
   global_buffer b = None \<and> buffer_layout b' \<and> global_buffer b' \<noteq> None"
  by (auto simp: InitBuffer_def buffer_layout_def Let_def split: if_splits option.splits)

lemma profiler_start_cases:
  assumes "pmu_profiler_start env rt = Inr (b, rt')"
  obtains (unsupported) "\<not> b" "rt' = rt\<lparr>rt_type := start_type env\<rparr>"
  | (started) x buf where "InitBuffer (start_buffer env) (rt_buffer rt) = Inr (x, buf)" "\<not> sig_enable rt"
      "b = start_fall_off env"
      "rt' = snd (setup_signal_handler (start_sigaction env) (rt\<lparr>rt_type := start_type env, rt_buffer := buf\<rparr>))"
proof (cases "\<exists>n. start_type env = OTHER_PMU n")
  case True
  with assms unsupported show ?thesis by (auto simp: pmu_profiler_start_def require_Inr)
next
  case False
  then have "\<exists>x buf. InitBuffer (start_buffer env) (rt_buffer rt) = Inr (x, buf) \<and> \<not> sig_enable rt \<and>
      b = start_fall_off env \<and>
      rt' = snd (setup_signal_handler (start_sigaction env) (rt\<lparr>rt_type := start_type env, rt_buffer := buf\<rparr>))"
    using assms by (cases "start_type env") (auto simp: pmu_profiler_start_def require_Inr split: if_splits)
  then show ?thesis using started by blast
qed

lemma setup_signal_handler_ok: "runtime_ok (snd (setup_signal_handler ok rt)) = runtime_ok rt"
  by (simp add: setup_signal_handler_def runtime_ok_def)

lemma racez_start_ok:
  assumes "runtime_ok rt" and "block_ok env" and "racez_start libc env rt = Inr rt'"
  shows "runtime_ok rt'"
proof -
  let ?rt = "once_init libc rt"
  have rt: "runtime_ok ?rt" "rt_initialized ?rt"
    using assms(1) once_init_calm by (rule calm_ok) (rule once_init_initialized)
  have "\<exists>b rt1. pmu_profiler_start env ?rt = Inr (b, rt1) \<and> rt' = (if b then set_enable 1 rt1 else rt1) \<and>
      (b \<longrightarrow> racez_enable (rt_flags rt1) = 0)"
    using assms(3) by (fastforce simp: racez_start_def split: if_splits)
  then obtain b rt1 where s: "pmu_profiler_start env ?rt = Inr (b, rt1)"
    and rt': "rt' = (if b then set_enable 1 rt1 else rt1)" "b \<longrightarrow> racez_enable (rt_flags rt1) = 0" by blast
  from s show ?thesis
  proof (cases rule: profiler_start_cases)
    case unsupported
    with rt rt' show ?thesis by (simp add: runtime_ok_def)
  next
    case (started x buf)
    have "buffer_layout buf" "global_buffer buf \<noteq> None" "global_buffer (rt_buffer ?rt) = None"
      using InitBuffer_layout [OF started(1)] assms(2) by (auto simp: block_ok_def)
    then show ?thesis
      using rt rt' started(4) by (auto simp: runtime_ok_def setup_signal_handler_def set_enable_def)
  qed
qed

lemma stop_contexts_run:
  "0 \<notin> snd ` set m \<Longrightarrow> stop_contexts m rt = Inr (rt\<lparr>pmu_calls := pmu_calls rt @ map (Stop_context \<circ> snd) m\<rparr>)"
  by (induction m rt rule: stop_contexts.induct) (auto simp: pmu_trace_def)

lemma stop_contexts_frame: "stop_contexts m rt = Inr rt' \<Longrightarrow> rt' = rt\<lparr>pmu_calls := pmu_calls rt'\<rparr>"
  by (induction m rt rule: stop_contexts.induct) (auto simp: pmu_trace_def split: if_splits)

end
