(* ===== verification/Runtime_Properties.thy ===== *)
theory Runtime_Properties
  imports Runtime_Invariant
begin

text \<open>
  Properties of the library as a whole, over all sequences of its entry points, and the places
  where its parts do not fit together.
\<close>

section \<open>Runs of the library\<close>

text \<open>
  One call of an entry point by some thread, or the kernel filling the sampling buffer of a thread. A signal reaches a thread only after its counters
  were started; a counter context has a descriptor other than 0; every object of the record type
  has arrays of ten elements, whatever else it holds.
\<close>

inductive lib_step :: "libc_env \<Rightarrow> runtime \<Rightarrow> runtime \<Rightarrow> bool" for libc where
  lock: "pthread_mutex_lock libc r tid m rt = Inr (x, rt') \<Longrightarrow> lib_step libc rt rt'"
| unlock: "pthread_mutex_unlock libc r tid m rt = Inr (x, rt') \<Longrightarrow> lib_step libc rt rt'"
| cond_wait: "pthread_cond_wait libc r tid c m rt = Inr (x, rt') \<Longrightarrow> lib_step libc rt rt'"
| cond_signal: "pthread_cond_signal libc r tid c rt = Inr (x, rt') \<Longrightarrow> lib_step libc rt rt'"
| allocate: "malloc libc tid sz p rt = Inr (q, rt') \<Longrightarrow> lib_step libc rt rt'"
| release: "free libc tid p rt = Inr rt' \<Longrightarrow> lib_step libc rt rt'"
| log_allocation: "racez_log_memory_allocation tid p sz a rt = Inr rt' \<Longrightarrow> lib_step libc rt rt'"
| create: "pthread_create libc tid p r rt = Inr (x, rt') \<Longrightarrow> lib_step libc rt rt'"
| attach: "pmu_profiler_perthread_attach libc env tid rt = Inr (b, rt') \<Longrightarrow> context_fd env \<noteq> 0 \<Longrightarrow> lib_step libc rt rt'"
| sample: "signal_handler senv tid rt = Inr rt' \<Longrightarrow> map_of (tid_fd_map rt) tid = Some fd \<Longrightarrow> lib_step libc rt rt'"
| kernel: "lib_step libc rt (kernel_fills tid hdr rt)"
| start: "racez_start libc tenv rt = Inr rt' \<Longrightarrow> block_ok tenv \<Longrightarrow> lib_step libc rt rt'"
| stop: "racez_stop libc penv tid rt = Inr rt' \<Longrightarrow> lib_step libc rt rt'"

inductive lib_run :: "libc_env \<Rightarrow> runtime \<Rightarrow> bool" for libc where
  loaded: "lib_run libc init_runtime"
| further: "lib_run libc rt \<Longrightarrow> lib_step libc rt rt' \<Longrightarrow> lib_run libc rt'"

lemma create_calm: "pthread_create libc tid p r rt = Inr (x, rt') \<Longrightarrow> calm rt rt'"
  by (auto simp: pthread_create_def split: if_splits dest!: malloc_calm intro: calm_trans [OF once_init_calm])

lemma set_enable_off: "runtime_ok rt \<Longrightarrow> runtime_ok (set_enable 0 rt)"
  by (simp add: runtime_ok_def set_enable_def)

lemma racez_stop_cases:
  assumes "racez_stop libc env tid rt = Inr rt'"
  obtains x y rt1 rt2 rt3 b where "racez_enable (rt_flags rt) = 1"
    "pthread_mutex_lock libc 0 tid (stop_mutex env) (set_enable 0 rt) = Inr (x, rt1)"
    "stop_contexts (tid_fd_map rt1) rt1 = Inr rt2"
    "pthread_mutex_unlock libc 0 tid (stop_mutex env) rt2 = Inr (y, rt3)"
    "StopBuffer (stop_writes env) (rt_buffer (disable_signal_handler (stop_sigaction env) rt3)) = Inr b"
    "rt' = (disable_signal_handler (stop_sigaction env) rt3)\<lparr>rt_buffer := b\<rparr>"
proof -
  have "racez_enable (rt_flags rt) = 1" using assms by (simp add: racez_stop_def split: if_splits)
  moreover from this assms obtain z where "pmu_profiler_stop libc env tid (set_enable 0 rt) = Inr (z, rt')"
    by (auto simp: racez_stop_def)
  ultimately show thesis
    using that by (auto simp: pmu_profiler_stop_def Let_def)
qed

lemma stopped_buffer: "StopBuffer wr b = Inr b' \<Longrightarrow> global_buffer b' = None"
  by (auto simp: StopBuffer_def split: option.splits)

lemma racez_stop_ok:
  assumes "libc_ok libc" and "runtime_ok rt" and "racez_stop libc env tid rt = Inr rt'"
  shows "runtime_ok rt'"
  using assms(3)
proof (cases rule: racez_stop_cases)
  case (1 x y rt1 rt2 rt3 b)
  have c1: "calm (set_enable 0 rt) rt1" and c3: "calm rt2 rt3"
    using mutex_lock_calm [OF assms(1) 1(2)] mutex_unlock_calm [OF assms(1) 1(4)] by blast+
  have "runtime_ok rt1" using set_enable_off [OF assms(2)] c1 by (rule calm_ok)
  then have "runtime_ok rt2"
    by (subst stop_contexts_frame [OF 1(3)]) (simp add: runtime_ok_def)
  then have "runtime_ok rt3" using c3 by (rule calm_ok)
  moreover have "racez_enable (rt_flags rt3) = 0"
  proof -
    have "rt_flags rt2 = rt_flags rt1" by (subst stop_contexts_frame [OF 1(3)]) simp
    then show ?thesis using c1 c3 by (simp add: calm_def set_enable_def)
  qed
  ultimately show ?thesis
    using stopped_buffer [OF 1(5)]
    by (auto simp: 1(6) runtime_ok_def disable_signal_handler_def buffer_layout_def)
qed

lemma lib_step_ok:
  assumes "libc_ok libc"
  shows "lib_step libc rt rt' \<Longrightarrow> runtime_ok rt \<Longrightarrow> runtime_ok rt'"
proof (induction rule: lib_step.induct)
  case (lock r tid m rt x rt')
  then show ?case using mutex_lock_calm [OF assms] calm_ok by blast
next
  case (unlock r tid m rt x rt')
  then show ?case using mutex_unlock_calm [OF assms] calm_ok by blast
next
  case (attach env tid rt b rt')
  then show ?case using perthread_attach_ok [OF assms] by blast
next
  case (stop penv tid rt rt')
  then show ?case using racez_stop_ok [OF assms] by blast
next
  case (kernel rt tid hdr)
  then show ?case by (simp add: kernel_fills_ok)
qed (auto dest: cond_wait_calm cond_signal_calm malloc_calm free_calm log_memory_allocation_calm create_calm
    signal_handler_ok racez_start_ok intro: calm_ok)

lemma init_runtime_ok: "runtime_ok init_runtime"
  by (simp add: runtime_ok_def init_runtime_def locksets_ok_def GetPerThreadLockset_def init_tls_def map_ok_def
      buffer_layout_def init_buffer_state_def default_flags_def)

lemma lib_run_ok: "lib_run libc rt \<Longrightarrow> libc_ok libc \<Longrightarrow> runtime_ok rt"
  by (induction rule: lib_run.induct) (auto simp: init_runtime_ok intro: lib_step_ok)

section \<open>Stopping\<close>

lemma quiet_lock:
  assumes "libc_ok libc" and "locksets_ok (rt_tls rt)" and "racez_enable (rt_flags rt) = 0"
  shows "\<exists>rt'. pthread_mutex_lock libc r tid m rt = Inr (r, rt') \<and> rt_buffer rt' = rt_buffer rt"
proof -
  obtain p junk where f: "fresh_lockset libc = Some (p, junk)" "length junk = 10" and d: "\<And>f. dlsym libc f"
    using assms(1) by (auto simp: libc_ok_def)
  let ?rt = "once_init libc rt"
  have o: "rt_tls ?rt = rt_tls rt" "rt_buffer ?rt = rt_buffer rt" "racez_enable (rt_flags ?rt) = 0" "once_init libc ?rt = ?rt"
    using assms(3) by (simp_all add: once_init_def preload_init_def)
  obtain t where "add_one_mutex (Some junk) tid m (rt_tls rt) = Inr t"
    using add_one_mutex_ok [OF assms(2) f(2)] by blast
  then show ?thesis
    using f(1) d o by (auto simp: pthread_mutex_lock_def with_lockset_def malloc_def Let_def)
qed

lemma racez_stop_run:
  assumes "libc_ok libc" and "runtime_ok rt" and "racez_enable (rt_flags rt) = 1"
    and "global_buffer (rt_buffer rt) = Some bd" and "bd_global bd < BUFFERSIZE" and "stop_writes env = (\<lambda>_. True)"
  shows "\<exists>rt'. racez_stop libc env tid rt = Inr rt' \<and> racez_enable (rt_flags rt') = 0 \<and>
    global_buffer (rt_buffer rt') = None \<and>
    pmu_calls rt' = pmu_calls rt @ map (Stop_context \<circ> snd) (tid_fd_map rt) \<and>
    sigio_action rt' = (if stop_sigaction env then Ignore_signal else sigio_action rt) \<and>
    sig_enable rt' = sig_enable rt \<and>
    written_out (rt_buffer rt') = written_out (rt_buffer rt) @ map (\<lambda>i. (bd_fd bd, bd_start bd i)) [0..bd_global bd]"
proof -
  let ?rt0 = "set_enable 0 rt"
  obtain rt1 where l: "pthread_mutex_lock libc 0 tid (stop_mutex env) ?rt0 = Inr (0, rt1)" "rt_buffer rt1 = rt_buffer ?rt0"
    using quiet_lock [OF assms(1), of ?rt0 0 tid "stop_mutex env"] assms(2) by (auto simp: runtime_ok_def set_enable_def)
  have c: "calm ?rt0 rt1" by (rule mutex_lock_calm [OF assms(1) l(1)])
  define rt2 where "rt2 = rt1\<lparr>pmu_calls := pmu_calls rt1 @ map (Stop_context \<circ> snd) (tid_fd_map rt1)\<rparr>"
  have m: "0 \<notin> snd ` set (tid_fd_map rt1)" and e: "racez_enable (rt_flags rt1) = 0" "tid_fd_map rt1 = tid_fd_map rt"
    using assms(2) c by (simp_all add: runtime_ok_def map_ok_def calm_def set_enable_def)
  have st: "stop_contexts (tid_fd_map rt1) rt1 = Inr rt2" unfolding rt2_def by (rule stop_contexts_run [OF m])
  define rt3 where "rt3 = once_init libc rt2"
  have u: "pthread_mutex_unlock libc 0 tid (stop_mutex env) rt2 = Inr (0, rt3)"
    using assms(1) e by (simp add: pthread_mutex_unlock_def libc_ok_def rt3_def once_init_def preload_init_def rt2_def Let_def)
  have b3: "rt_buffer rt3 = rt_buffer rt" "racez_enable (rt_flags rt3) = 0" "pmu_calls rt3 = pmu_calls rt2"
    "sigio_action rt3 = sigio_action rt1" "sig_enable rt3 = sig_enable rt1"
    using l(2) e by (simp_all add: rt3_def once_init_def rt2_def set_enable_def preload_init_def)
  have w: "write_entries (\<lambda>_. True) 0 bd (written_out (rt_buffer rt)) =
      Inr (written_out (rt_buffer rt) @ map (\<lambda>i. (bd_fd bd, bd_start bd i)) [0..bd_global bd])"
    using assms(5) by (simp add: write_entries_all)
  have "racez_stop libc env tid rt = Inr ((disable_signal_handler (stop_sigaction env) rt3)
      \<lparr>rt_buffer := (rt_buffer rt)\<lparr>written_out := written_out (rt_buffer rt) @ map (\<lambda>i. (bd_fd bd, bd_start bd i)) [0..bd_global bd],
        global_buffer := None\<rparr>\<rparr>)"
    using assms(3,4,6) l(1) st u w b3(1)
    by (auto simp: racez_stop_def pmu_profiler_stop_def StopBuffer_def disable_signal_handler_def Let_def
        intro: exI [of _ True])
  then show ?thesis
    using b3(2-5) c e(2) by (simp add: disable_signal_handler_def calm_def set_enable_def rt2_def)
qed

section \<open>Properties\<close>

text \<open>C29: After any sequence of entry points, by any threads, and of samples that the kernel puts into
  their buffers, from the loading of the library on:
  every lockset is well formed, every registered thread has a counter descriptor that is not 0,
  and while the profiler is on there is a buffer to log into.\<close>

theorem library_invariant:
  assumes "lib_run libc rt" and "libc_ok libc"
  shows "(\<forall>t l. GetPerThreadLockset t (rt_tls rt) = Some l \<longrightarrow> lockset_ok l) \<and>
    sorted_keys (tid_fd_map rt) \<and> 0 \<notin> snd ` set (tid_fd_map rt) \<and> racez_enable (rt_flags rt) \<in> {0, 1} \<and>
    (racez_enable (rt_flags rt) = 1 \<longrightarrow> global_buffer (rt_buffer rt) \<noteq> None)"
  using lib_run_ok [OF assms] by (auto simp: runtime_ok_def locksets_ok_def map_ok_def)

definition example_libc :: libc_env where
  "example_libc = \<lparr>getenv = [''RACEZ_WRITE_RECORD'' \<mapsto> ''1'', ''RACEZ_MEMORY_ALLOCATOR'' \<mapsto> ''1''], dlsym = (\<lambda>_. True),
     fresh_lockset = Some (4096, replicate 10 0)\<rparr>"

definition example_start :: start_env where
  "example_start = \<lparr>start_initialized = True, start_type = PFMLIB_AMD64_PMU,
     start_buffer = \<lparr>header_allocated = True, block_contents = Some (\<lambda>_. zero_record), opened_fd = 5\<rparr>,
     start_sigaction = True, start_fall_off = True\<rparr>"

definition example_started :: runtime where
  "example_started = projr (racez_start example_libc example_start init_runtime)"

lemma example_libc_ok: "libc_ok example_libc"
  by (simp add: libc_ok_def example_libc_def)

lemma example_block_ok: "block_ok example_start"
  by (simp add: block_ok_def example_start_def layout_ok_zero)

lemma example_start_run: "racez_start example_libc example_start init_runtime = Inr example_started"
proof -
  have "isl (racez_start example_libc example_start init_runtime) = False" by code_simp
  then show ?thesis by (cases "racez_start example_libc example_start init_runtime") (auto simp: example_started_def)
qed

lemma example_started_run: "lib_run example_libc example_started"
  using lib_step.start [OF example_start_run example_block_ok] lib_run.loaded by (rule lib_run.further [rotated])

theorem library_invariant_witness:
  "\<exists>rt. lib_run example_libc rt \<and> racez_enable (rt_flags rt) = 1 \<and> global_buffer (rt_buffer rt) \<noteq> None"
proof -
  have "racez_enable (rt_flags example_started) = 1" unfolding example_started_def by code_simp
  then show ?thesis
    using library_invariant [OF example_started_run example_libc_ok] example_started_run by blast
qed

text \<open>C9: Whatever the threads do, each record in the buffer is an object a reader of the log can
  rely on: it carries its position as its number, its arrays have ten elements and its counts do not
  exceed them, its type is one of the four that are logged, and an access is a read or a write.\<close>

theorem log_is_well_typed:
  assumes "lib_run libc rt" and "libc_ok libc" and "global_buffer (rt_buffer rt) = Some bd"
    and "1 \<le> i" and "i \<le> bd_global bd" and "i < BUFFERSIZE"
  shows "record_no (bd_start bd i) = i \<and> layout_ok (bd_start bd i) \<and> trace_depth (bd_start bd i) \<le> 10 \<and>
    record_type (bd_start bd i) \<in> {MEMORY_OP, SYNC_WAIT, SYNC_SIGNAL, MEMORY_ALLOC} \<and>
    (record_type (bd_start bd i) = MEMORY_OP \<longrightarrow> is_write (bd_start bd i) \<in> {0, 1} \<and> lock_count (bd_start bd i) \<le> 10)"
proof -
  have "buffer_layout (rt_buffer rt)" using lib_run_ok [OF assms(1,2)] by (simp add: runtime_ok_def)
  then show ?thesis using assms(3-6) by (simp add: buffer_layout_def entry_typed_def)
qed

definition example_allocated :: runtime where
  "example_allocated = snd (projr (malloc example_libc 1 64 4096 example_started))"

lemma example_allocated_run:
  "malloc example_libc 1 64 4096 example_started = Inr (4096, example_allocated)" "lib_run example_libc example_allocated"
proof -
  have "map_sum (\<lambda>_. ()) fst (malloc example_libc 1 64 4096 example_started) = Inr 4096"
    unfolding example_started_def by code_simp
  then show m: "malloc example_libc 1 64 4096 example_started = Inr (4096, example_allocated)"
    by (cases "malloc example_libc 1 64 4096 example_started") (auto simp: example_allocated_def prod_eq_iff)
  show "lib_run example_libc example_allocated"
    using example_started_run lib_step.allocate [OF m] by (rule lib_run.further)
qed

lemma example_allocated_global: "map_option bd_global (global_buffer (rt_buffer example_allocated)) = Some 1"
  unfolding example_allocated_def example_started_def by code_simp

theorem log_is_well_typed_witness:
  "\<exists>bd. global_buffer (rt_buffer example_allocated) = Some bd \<and> record_no (bd_start bd 1) = 1 \<and> layout_ok (bd_start bd 1)"
proof -
  obtain bd where "global_buffer (rt_buffer example_allocated) = Some bd" "bd_global bd = 1"
    using example_allocated_global by auto
  then show ?thesis
    using log_is_well_typed [OF example_allocated_run(2) example_libc_ok, of bd 1] by (simp add: BUFFERSIZE_def)
qed

text \<open>C30: In every state the library can be in while the profiler is on and the buffer is not
  full, stopping succeeds: each registered counter context is stopped, in the order of the thread
  ids, the signal is ignored from then on, the log is in the file, and the buffer is gone.\<close>

theorem stop_ends_the_run:
  assumes "lib_run libc rt" and "libc_ok libc" and "racez_enable (rt_flags rt) = 1"
    and "global_buffer (rt_buffer rt) = Some bd" and "bd_global bd < BUFFERSIZE"
    and "stop_writes env = (\<lambda>_. True)" and "stop_sigaction env"
  shows "\<exists>rt'. racez_stop libc env tid rt = Inr rt' \<and> racez_enable (rt_flags rt') = 0 \<and>
    global_buffer (rt_buffer rt') = None \<and> sigio_action rt' = Ignore_signal \<and>
    pmu_calls rt' = pmu_calls rt @ map (Stop_context \<circ> snd) (tid_fd_map rt) \<and>
    written_out (rt_buffer rt') = written_out (rt_buffer rt) @ map (\<lambda>i. (bd_fd bd, bd_start bd i)) [0..bd_global bd]"
  using racez_stop_run [OF assms(2) lib_run_ok [OF assms(1,2)] assms(3-6), of tid] assms(7) by auto

definition example_stop :: stop_env where
  "example_stop = \<lparr>stop_mutex = 8192, stop_sigaction = True, stop_writes = (\<lambda>_. True)\<rparr>"

lemma example_started_views:
  "racez_enable (rt_flags example_started) = 1" "sig_enable example_started"
  "global_buffer (rt_buffer example_started) = Some \<lparr>bd_global = 0, bd_start = (\<lambda>_. zero_record), bd_fd = 5\<rparr>"
  "written_out (rt_buffer example_started) = []"
  by (simp_all add: example_started_def racez_start_def pmu_profiler_start_def require_def example_start_def
      InitBuffer_def init_runtime_def once_init_def init_buffer_state_def setup_signal_handler_def set_enable_def
      preload_init_def default_flags_def)

theorem stop_ends_the_run_witness:
  "\<exists>rt'. racez_stop example_libc example_stop 1 example_started = Inr rt' \<and> global_buffer (rt_buffer rt') = None \<and>
     written_out (rt_buffer rt') = [(5, zero_record)]"
  using stop_ends_the_run [OF example_started_run example_libc_ok example_started_views(1,3), of example_stop 1]
  by (auto simp: example_stop_def BUFFERSIZE_def example_started_views)

text \<open>C33: The profiler can be started only once: nothing resets \<open>sig_enable\<close>, so a second
  start, after a stop that went well, fails its assertion.\<close>

theorem restart_aborts:
  assumes "runtime_ok rt" and "libc_ok libc" and "racez_enable (rt_flags rt) = 1" and "sig_enable rt"
    and "global_buffer (rt_buffer rt) = Some bd" and "bd_global bd < BUFFERSIZE" and "stop_writes env = (\<lambda>_. True)"
    and "racez_stop libc env tid rt = Inr rt1"
    and "start_initialized again" and "start_type again \<in> {PFMLIB_INTEL_CORE_PMU, PFMLIB_INTEL_NHM_PMU, PFMLIB_AMD64_PMU}"
    and "header_allocated (start_buffer again)" and "block_contents (start_buffer again) = Some junk"
  shows "racez_start libc again rt1 = Inl Assertion_failed"
proof -
  have rt1: "sig_enable rt1" "global_buffer (rt_buffer rt1) = None"
    using racez_stop_run [OF assms(2,1,3,5-7), of tid] assms(4,8) by auto
  let ?rt = "once_init libc rt1"
  have o: "sig_enable ?rt" "global_buffer (rt_buffer ?rt) = None" using rt1 by (simp_all add: once_init_def)
  have "\<exists>x b. InitBuffer (start_buffer again) (rt_buffer ?rt) = Inr (x, b)"
    using o(2) assms(11,12)
    by (auto simp: InitBuffer_def Let_def intro: exI [of _ True] exI [of _ False])
  then show ?thesis
    using assms(9,10) o by (auto simp: racez_start_def pmu_profiler_start_def require_def)
qed

theorem restart_aborts_witness:
  "\<exists>rt1. racez_stop example_libc example_stop 1 example_started = Inr rt1 \<and>
     racez_start example_libc example_start rt1 = Inl Assertion_failed"
proof -
  have ok: "runtime_ok example_started" by (rule lib_run_ok [OF example_started_run example_libc_ok])
  obtain rt1 where rt1: "racez_stop example_libc example_stop 1 example_started = Inr rt1"
    using racez_stop_run [OF example_libc_ok ok example_started_views(1,3), of example_stop 1]
    by (auto simp: example_stop_def BUFFERSIZE_def)
  then show ?thesis
    using restart_aborts [OF ok example_libc_ok example_started_views(1,2,3) _ _ rt1, of example_start]
    by (auto simp: example_start_def BUFFERSIZE_def example_stop_def)
qed

text \<open>On every supported machine a thread is registered in the map before its counters are
  started: at the moment of the call that starts them the map already holds the thread's
  descriptor, so the first signal finds it.\<close>

lemma attach_registers_before_start:
  assumes "libc_ok libc" and "runtime_ok rt" and "context_fd env \<noteq> 0"
    and "pmuprofiler_context_attach libc env tid rt = Inr (b, rt')"
  shows "\<exists>rt1. rt' = pmu_trace (Self_start (context_fd env)) rt1 \<and>
    map_of (tid_fd_map rt1) tid = Some (context_fd env) \<and> runtime_ok rt1"
  using attach_ok [OF assms] by blast

definition example_attach :: attach_env where
  "example_attach = \<lparr>pfm_initialized = True, found_type = PFMLIB_AMD64_PMU, found_event = True, context_fd = 3,
     second_context_fd = 4, mapped = None, dispatched = True, out_pmcs = [], out_pmds = [], pmcs_written = True,
     pmds_written = True, context_loaded = True, async_set = True, signal_set = True, ibs_control = 9,
     fall_off = False, map_mutex = 8192, node_size = 40, map_node = 16384\<rparr>"

lemma attach_registers_before_start_example:
  "\<exists>rt1. pmuprofiler_context_attach example_libc example_attach 7 init_runtime =
       Inr (False, pmu_trace (Self_start 3) rt1) \<and> map_of (tid_fd_map rt1) 7 = Some 3"
proof -
  have "\<not> isl (pmuprofiler_context_attach example_libc example_attach 7 init_runtime) \<and>
      fst (projr (pmuprofiler_context_attach example_libc example_attach 7 init_runtime)) = False" by code_simp
  then obtain rt' where rt': "pmuprofiler_context_attach example_libc example_attach 7 init_runtime = Inr (False, rt')"
    by (cases "pmuprofiler_context_attach example_libc example_attach 7 init_runtime") auto
  then show ?thesis
    using attach_registers_before_start [OF example_libc_ok init_runtime_ok _ rt'] by (auto simp: example_attach_def)
qed

section \<open>Locks and conditions\<close>

lemma lookup_after_update:
  assumes "GetPerThreadLockset tid st = Some l" and "f l = Inr l'"
  shows "\<exists>st'. update_lockset f fresh tid st = Inr st' \<and> GetPerThreadLockset tid st' = Some l'"
proof -
  have "tls_created st" using assms(1) by (simp add: GetPerThreadLockset_def split: if_splits)
  with assms show ?thesis
    by (simp add: update_lockset_def ensure_lockset_def) (simp add: GetPerThreadLockset_def)
qed

text \<open>While the profiler is off, locking still records the mutex but unlocking does not remove
  it: a thread that locks and unlocks a mutex before the start keeps it in its lockset for good,
  and every later sample of the thread is logged as if the mutex were held.\<close>

lemma disabled_unlock_keeps_lock:
  assumes "libc_ok libc" and "rt_initialized rt" and "racez_lockset (rt_flags rt) \<noteq> 0" and "racez_enable (rt_flags rt) = 0"
    and "GetPerThreadLockset tid (rt_tls rt) = Some l" and "lockset_ok l" and "ls_n l < 10"
  shows "\<exists>rt1 rt2 l'. pthread_mutex_lock libc 0 tid m rt = Inr (0, rt1) \<and> pthread_mutex_unlock libc 0 tid m rt1 = Inr (0, rt2) \<and>
    GetPerThreadLockset tid (rt_tls rt2) = Some l' \<and> entries l' = entries l @ [m]"
proof -
  have d: "\<And>f. dlsym libc f" using assms(1) by (simp add: libc_ok_def)
  have "length (ls_lockset l) = 10" "0 \<le> ls_n l" "\<not> ls_overflow l"
    using assms(6,7) by (auto simp: lockset_ok_def)
  then obtain l' where "lockset_add m l = Inr l'" and e: "entries l' = entries l @ [m]"
    using lockset_add_open [of l m] assms(7) by auto
  then obtain st where st: "add_one_mutex (map_option snd (fresh_lockset libc)) tid m (rt_tls rt) = Inr st"
    "GetPerThreadLockset tid st = Some l'"
    using lookup_after_update [OF assms(5), of "lockset_add m"] by (auto simp: add_one_mutex_def)
  have "pthread_mutex_lock libc 0 tid m rt = Inr (0, rt\<lparr>rt_tls := st\<rparr>)"
    using assms(2,3,5) st(1) d by (simp add: pthread_mutex_lock_def once_init_def with_lockset_def)
  moreover have "pthread_mutex_unlock libc 0 tid m (rt\<lparr>rt_tls := st\<rparr>) = Inr (0, rt\<lparr>rt_tls := st\<rparr>)"
    using assms(2,4) d by (simp add: pthread_mutex_unlock_def once_init_def)
  ultimately show ?thesis using st(2) e by auto
qed

definition example_idle :: runtime where
  "example_idle = (once_init example_libc init_runtime)\<lparr>rt_tls := \<lparr>tls_created = True,
     tls_value = [7 \<mapsto> \<lparr>ls_n = 1, ls_overflow = False, ls_lockset = 64 # replicate 9 0\<rparr>]\<rparr>\<rparr>"

lemma disabled_unlock_keeps_lock_example:
  "\<exists>rt1 rt2 l'. pthread_mutex_lock example_libc 0 7 72 example_idle = Inr (0, rt1) \<and>
     pthread_mutex_unlock example_libc 0 7 72 rt1 = Inr (0, rt2) \<and>
     GetPerThreadLockset 7 (rt_tls rt2) = Some l' \<and> entries l' = [64, 72]"
proof -
  let ?l = "\<lparr>ls_n = 1, ls_overflow = False, ls_lockset = 64 # replicate 9 0\<rparr>"
  have fl: "racez_lockset (rt_flags (once_init example_libc init_runtime)) = 1"
    "racez_enable (rt_flags (once_init example_libc init_runtime)) = 0"
    by code_simp+
  have "rt_initialized example_idle" "racez_lockset (rt_flags example_idle) \<noteq> 0" "racez_enable (rt_flags example_idle) = 0"
    "GetPerThreadLockset 7 (rt_tls example_idle) = Some ?l" "lockset_ok ?l" "ls_n ?l < 10"
    using fl by (simp_all add: example_idle_def once_init_initialized GetPerThreadLockset_def lockset_ok_def)
  from disabled_unlock_keeps_lock [OF example_libc_ok this, of 72] show ?thesis
    by (auto simp: entries_def)
qed

lemma sync_entry_content:
  assumes "record_type r \<noteq> MEMORY_OP" and "record_type r \<noteq> MEMORY_ALLOC"
  shows "fill_entry no (r\<lparr>op_word0 := a, op_word1 := b\<rparr>) cur = fill_entry no r cur"
  using assms by (simp add: fill_entry_def copy_op_def)

lemma sync_log_content:
  assumes "record_type r \<noteq> MEMORY_OP" and "record_type r \<noteq> MEMORY_ALLOC"
  shows "log_record (r\<lparr>op_word0 := a, op_word1 := b\<rparr>) rt = log_record r rt"
proof -
  have "store_record cur (r\<lparr>op_word0 := a, op_word1 := b\<rparr>) bd = store_record cur r bd" for cur bd
    by (simp add: store_record_def sync_entry_content [OF assms] Let_def)
  then show ?thesis
    by (cases "global_buffer (rt_buffer rt)")
      (simp_all add: log_record_def WriteRecord_def atomic_increment_no_barrier_def)
qed

text \<open>The condition variable (and the mutex) of a wait or a signal never reach the log:
  \<open>WriteRecord\<close> copies the members of memory records only, so the log is the same whichever
  condition variable was used.\<close>

lemma condition_not_logged:
  "pthread_cond_signal libc r tid c rt = pthread_cond_signal libc r tid c' rt \<and>
   pthread_cond_wait libc r tid c m rt = pthread_cond_wait libc r tid c' m' rt"
proof -
  define z where "z ty = zero_record\<lparr>thread_id := tid, record_type := ty\<rparr>" for ty
  have "signal_record tid x = (z SYNC_SIGNAL)\<lparr>op_word0 := x, op_word1 := 0\<rparr>"
    "wait_record tid x y = (z SYNC_WAIT)\<lparr>op_word0 := x, op_word1 := y\<rparr>" for x y
    by (simp_all add: signal_record_def set_signal_address_def wait_record_def set_wait_address1_def
        set_wait_address2_def z_def zero_record_def)
  then have "log_record (signal_record tid x) rt = log_record (z SYNC_SIGNAL) rt"
    "log_record (wait_record tid x y) rt = log_record (z SYNC_WAIT) rt" for x y rt
    by (simp_all add: sync_log_content z_def)
  then show ?thesis by (simp add: pthread_cond_signal_def pthread_cond_wait_def Let_def)
qed

end
