(* ===== verification/Pipeline_Properties.thy ===== *)
theory Pipeline_Properties
  imports Detect_Properties Buffer_Properties Sampling_Properties Runtime_Properties
begin

text \<open>
  From the records the library writes to the verdict of the offline detector.
\<close>

section \<open>What the detector reads of a record\<close>

text \<open>The verdict on a history depends on the thread, the direction and the locks of each access only.\<close>

definition view :: "Record \<Rightarrow> int \<times> int \<times> ptr set" where
  "view r = (thread_id r, is_write r, locks r)"

lemma view_racy:
  assumes "map view h = map view h'"
  shows "racy h = racy h'" and "thread_id ` set h = thread_id ` set h'" and "shared h = shared h'" and "written h = written h'"
proof -
  have v: "view ` set h = view ` set h'" using assms by (metis set_map)
  have *: "f ` set h = f ` set h'" if "\<And>r. f r = g (view r)" for f :: "Record \<Rightarrow> 'x" and g
  proof -
    have "f ` set h = g ` view ` set h" "f ` set h' = g ` view ` set h'" by (auto simp: that image_iff)
    with v show ?thesis by simp
  qed
  show t: "thread_id ` set h = thread_id ` set h'" by (rule * [of _ fst]) (simp add: view_def)
  have w: "is_write ` set h = is_write ` set h'" by (rule * [of _ "fst \<circ> snd"]) (simp add: view_def)
  have l: "locks ` set h = locks ` set h'" by (rule * [of _ "snd \<circ> snd"]) (simp add: view_def)
  show s: "shared h = shared h'" unfolding shared_threads t ..
  have "written x \<longleftrightarrow> 1 \<in> is_write ` set x" for x by (auto simp: written_def)
  then show wr: "written h = written h'" by (simp add: w)
  have "candidate h = candidate h'" unfolding candidate_def by (metis l)
  then show "racy h = racy h'" by (simp add: racy_def s wr)
qed

lemma view_reported_imp:
  assumes "map view h = map view h'" and "reported h"
  shows "reported h'"
proof -
  obtain h1 r h2 where h: "h = h1 @ r # h2" "racy (h1 @ [r])" "looks h1 r"
    using assms(2) by (auto simp: reported_def)
  have "map view h' = map view h1 @ view r # map view h2" using assms(1) h(1) by simp
  then obtain g1 g2' where g: "h' = g1 @ g2'" "map view g1 = map view h1" "map view g2' = view r # map view h2"
    by (auto simp: map_eq_append_conv)
  then obtain q g2 where q: "g2' = q # g2" "view q = view r" by auto
  have "map view (g1 @ [q]) = map view (h1 @ [r])" using g(2) q(2) by simp
  then have "racy (g1 @ [q])" using view_racy(1) h(2) by blast
  moreover have "looks g1 q"
    using h(3) view_racy(2-4) [OF g(2)] q(2) by (simp add: looks_def view_def)
  ultimately show ?thesis using g(1) q(1) by (auto simp: reported_def)
qed

lemma view_reported: "map view h = map view h' \<Longrightarrow> reported h = reported h'"
  using view_reported_imp by metis

section \<open>The log and the records written\<close>

lemma logged_as_access:
  assumes "logged_as no r e"
  shows "is_access e = is_access r" and "is_access r \<Longrightarrow> memory_address e = memory_address r \<and> view e = view r"
  using assms logged_locks [OF assms] by (auto simp: logged_as_def is_access_def view_def)

lemma logged_as_record_ok: "logged_as no r e \<Longrightarrow> layout_ok e \<Longrightarrow> record_ok r \<Longrightarrow> record_ok e"
  using logged_as_access(1) [of no r e] by (auto simp: record_ok_def logged_as_def access_ok_def is_access_def)

lemma log_of_accesses: "log_of no rs es \<Longrightarrow> map view (accesses es a) = map view (accesses rs a)"
proof (induction no rs es rule: log_of.induct)
  case (3 no r rs e es)
  then show ?case using logged_as_access [of no r e] by (auto simp: accesses_def)
qed (simp_all add: accesses_def)

lemma log_of_record_ok: "log_of no rs es \<Longrightarrow> list_all layout_ok es \<Longrightarrow> list_all record_ok rs \<Longrightarrow> list_all record_ok es"
  by (induction no rs es rule: log_of.induct) (auto dest: logged_as_record_ok)

lemma log_of_numbers: "log_of no rs es \<Longrightarrow> map record_no es = [no..no + int (length rs) - 1]"
proof (induction no rs es rule: log_of.induct)
  case (3 no r rs e es)
  then show ?case by (simp add: upto_rec1 [of no] logged_as_def algebra_simps)
qed simp_all

lemma distinct_numbers_log_ok:
  assumes "list_all record_ok es" and "distinct (map record_no es)" and "\<not> is_access z" and "record_type z \<noteq> MEMORY_ALLOC"
  shows "log_ok (z # es)"
proof -
  have same: "r = s" if "r \<in> set es" "s \<in> set es" "record_no r = record_no s" for r s
    using that assms(2) by (metis distinct_map inj_on_eq_iff)
  show ?thesis
    unfolding log_ok_def
  proof (intro conjI ballI impI)
    fix r assume "r \<in> set (z # es)"
    then show "record_ok r" using assms(1,3,4) by (auto simp: list_all_iff record_ok_def)
  next
    fix r s assume m: "r \<in> set (z # es)" "s \<in> set (z # es)"
      and h: "is_access r \<and> is_access s \<and> record_no r = record_no s \<and> pip r = pip s"
    have "r \<in> set es" "s \<in> set es" using m h assms(3) by auto
    with same h show "thread_id r = thread_id s" by metis
  qed
qed

section \<open>Properties\<close>

text \<open>C4: From the first record to the verdict, for a detector run without the reuse filter (no
  \<open>-m\<close>). Records written through the buffer, in any number below its size, come out of the
  detector run on the resulting file as they went in: the detector does not abort, and it has
  reported a location exactly when the histories of the records written call for it. The records
  are well formed: a memory access has direction 0 or 1 and at most ten locks and ten stack frames,
  and the size of a block is not negative. The buffer was set up, record writing is on, every
  \<open>write()\<close> succeeds, and the entry in front that nobody wrote must not look like a memory
  access or an allocation; fresh memory is zero.\<close>

theorem verdict_of_written_records:
  assumes "InitBuffer env b = Inr (True, b0)" and "block_contents env = Some junk" and "\<forall>i. layout_ok (junk i)"
    and "record_type (junk 0) \<noteq> MEMORY_OP" and "record_type (junk 0) \<noteq> MEMORY_ALLOC"
    and "list_all writable rs" and "list_all record_ok rs" and "int (length rs) < BUFFERSIZE" and "w \<noteq> 0"
    and "\<not> enable_memory_reuse cfg" and "addr2line_ok cfg"
  shows "\<exists>b1 b2 d. rfold (WriteRecord w) rs b0 = Inr b1 \<and> StopBuffer (\<lambda>_. True) b1 = Inr b2 \<and>
    detect_main cfg (map snd (drop (length (written_out b)) (written_out b2))) None = Inr d \<and>
    (\<forall>a. map_of (rw_map d) a = Some 4 \<longleftrightarrow> reported (accesses rs a))"
proof -
  obtain b1 es where b1: "rfold (WriteRecord w) rs b0 = Inr b1" "log_of 1 rs es" "list_all layout_ok es"
    "StopBuffer (\<lambda>_. True) b1 = Inr (b\<lparr>written_out := written_out b @ (opened_fd env, junk 0) # map (Pair (opened_fd env)) es\<rparr>)"
    using log_run_entries [OF assms(1-3,6,8,9)] by blast
  let ?log = "junk 0 # es"
  have entries_read: "map snd (drop (length (written_out b)) (written_out b @ (opened_fd env, junk 0) # map (Pair (opened_fd env)) es)) = ?log"
    by (simp add: comp_def)
  have ok: "log_ok ?log"
    using log_of_record_ok [OF b1(2,3) assms(7)] assms(4,5) log_of_numbers [OF b1(2)]
    by (intro distinct_numbers_log_ok) (simp_all add: is_access_def)
  obtain d where d: "rfold (offline_detection cfg) ?log init_detector = Inr d"
    using run_total [OF sim_init spec_inv_init ok subset_refl assms(11)] by blast
  have "accesses ?log a = accesses es a" for a
    using assms(4) by (simp add: accesses_def is_access_def)
  then have "map_of (rw_map d) a = Some 4 \<longleftrightarrow> reported (accesses rs a)" for a
    using log_run_reported [OF ok assms(10) d, of a] view_reported [OF log_of_accesses [OF b1(2), of a]] by simp
  then show ?thesis
    using b1 d entries_read by (auto simp: detect_main_def simp del: rfold.simps)
qed

theorem verdict_of_written_records_witness:
  "\<exists>b0 b1 b2 d. InitBuffer example_init init_buffer_state = Inr (True, b0) \<and>
     rfold (WriteRecord 1) race_log b0 = Inr b1 \<and> StopBuffer (\<lambda>_. True) b1 = Inr b2 \<and>
     detect_main (example_config False) (map snd (written_out b2)) None = Inr d \<and>
     (\<forall>a. map_of (rw_map d) a = Some 4 \<longleftrightarrow> reported (accesses race_log a))"
proof -
  obtain b0 where b0: "InitBuffer example_init init_buffer_state = Inr (True, b0)"
    by (simp add: InitBuffer_def example_init_def init_buffer_state_def)
  have "list_all writable race_log" "list_all record_ok race_log" "int (length race_log) < BUFFERSIZE"
    using log_ok_race_log
    by (simp_all add: race_log_def sample_def writable_def layout_ok_def zero_record_def list_all_iff log_ok_def BUFFERSIZE_def)
  moreover have "block_contents example_init = Some (\<lambda>_. zero_record)" "written_out init_buffer_state = []"
    "record_type zero_record \<noteq> MEMORY_OP" "record_type zero_record \<noteq> MEMORY_ALLOC"
    by (simp_all add: example_init_def init_buffer_state_def zero_record_def)
  ultimately show ?thesis
    using verdict_of_written_records [OF b0, of "\<lambda>_. zero_record" race_log 1 "example_config False"] b0
    by (simp add: layout_ok_zero no_reuse_example addr2line_ok_example del: rfold.simps)
qed

text \<open>Records that are no accesses do not matter without the reuse filter.\<close>

lemma rfold_accesses:
  "\<not> enable_memory_reuse cfg \<Longrightarrow> rfold (offline_detection cfg) log d = rfold (offline_detection cfg) (filter is_access log) d"
proof (induction log arbitrary: d)
  case (Cons r log)
  have "offline_detection cfg r d = Inr d" if "\<not> is_access r"
    using that Cons.prems by (auto simp: offline_detection_def is_access_def)
  with Cons show ?case by (cases "is_access r") (auto intro: rbind_cong)
qed simp

lemma typed_log_ok:
  assumes "\<And>i. 1 \<le> i \<Longrightarrow> i \<le> n \<Longrightarrow> entry_typed i (f i)"
  shows "log_ok (filter is_access (map f [1..n]))"
  unfolding log_ok_def
proof (intro conjI ballI impI)
  fix r assume "r \<in> set (filter is_access (map f [1..n]))"
  then show "record_ok r"
    using assms by (fastforce simp: record_ok_def access_ok_def is_access_def entry_typed_def)
next
  fix r s assume rs: "r \<in> set (filter is_access (map f [1..n]))" "s \<in> set (filter is_access (map f [1..n]))"
    and eq: "is_access r \<and> is_access s \<and> record_no r = record_no s \<and> pip r = pip s"
  obtain i j where "r = f i" "s = f j" "1 \<le> i" "i \<le> n" "1 \<le> j" "j \<le> n" using rs by auto
  then show "thread_id r = thread_id s" using assms eq by (metis entry_typed_def)
qed

text \<open>Stopping the profiler and running the detector on the file.\<close>

lemma stop_and_detect:
  assumes "runtime_ok rt" and "libc_ok libc" and "racez_enable (rt_flags rt) = 1"
    and "global_buffer (rt_buffer rt) = Some bd" and "bd_global bd < BUFFERSIZE" and "stop_writes env = (\<lambda>_. True)"
    and "record_type (bd_start bd 0) \<noteq> MEMORY_OP" and "\<not> enable_memory_reuse cfg" and "addr2line_ok cfg"
  shows "\<exists>rt' d. racez_stop libc env tid rt = Inr rt' \<and>
    detect_main cfg (map snd (drop (length (written_out (rt_buffer rt))) (written_out (rt_buffer rt')))) None = Inr d \<and>
    (\<forall>a. map_of (rw_map d) a = Some 4 \<longleftrightarrow> reported (accesses (map (bd_start bd) [1..bd_global bd]) a))"
proof -
  have typed: "entry_typed i (bd_start bd i)" if "1 \<le> i" "i \<le> bd_global bd" for i
    using that assms(1,4,5) by (simp add: runtime_ok_def buffer_layout_def)
  have g: "0 \<le> bd_global bd" using assms(1,4) by (simp add: runtime_ok_def buffer_layout_def)
  let ?log = "map (bd_start bd) [1..bd_global bd]" and ?file = "map (bd_start bd) [0..bd_global bd]"
  obtain rt' where rt': "racez_stop libc env tid rt = Inr rt'"
    "written_out (rt_buffer rt') = written_out (rt_buffer rt) @ map (\<lambda>i. (bd_fd bd, bd_start bd i)) [0..bd_global bd]"
    using racez_stop_run [OF assms(2,1,3-6), of tid] by blast
  have first: "?file = bd_start bd 0 # ?log" using g by (simp add: upto_rec1)
  have acc: "filter is_access ?file = filter is_access ?log" using assms(7) by (simp add: first is_access_def)
  have lok: "log_ok (filter is_access ?log)" by (rule typed_log_ok [OF typed])
  obtain d where d: "rfold (offline_detection cfg) (filter is_access ?log) init_detector = Inr d"
    using run_total [OF sim_init spec_inv_init lok subset_refl assms(9)] by blast
  then have "detect_main cfg ?file None = Inr d"
    using rfold_accesses [OF assms(8), of ?file] acc by (simp add: detect_main_def first del: rfold.simps)
  moreover have "accesses (filter is_access ?log) a = accesses ?log a" for a
    by (simp add: accesses_def)
  ultimately show ?thesis
    using rt' log_run_reported [OF lok assms(8) d] by (auto simp: comp_def)
qed

text \<open>C3: The logs of the library are logs the detector can be run on, without the reuse filter
  (no \<open>-m\<close>; with it a log can stop the detector, see \<open>big_block_breaks_detector\<close>). In
  whatever state the threads have brought the library, as long as the profiler is on, the buffer is
  not full and the entry in front, which nobody writes, does not look like a memory access (fresh
  memory is zero), stopping with every \<open>write()\<close> succeeding writes a file on which the detector
  runs to the end, and it has reported a location exactly when the logged accesses call for it.\<close>

theorem library_logs_are_analysed:
  assumes "lib_run libc rt" and "libc_ok libc" and "racez_enable (rt_flags rt) = 1"
    and "global_buffer (rt_buffer rt) = Some bd" and "bd_global bd < BUFFERSIZE" and "stop_writes env = (\<lambda>_. True)"
    and "record_type (bd_start bd 0) \<noteq> MEMORY_OP" and "\<not> enable_memory_reuse cfg" and "addr2line_ok cfg"
  shows "\<exists>rt' d. racez_stop libc env tid rt = Inr rt' \<and>
    detect_main cfg (map snd (drop (length (written_out (rt_buffer rt))) (written_out (rt_buffer rt')))) None = Inr d \<and>
    (\<forall>a. map_of (rw_map d) a = Some 4 \<longleftrightarrow> reported (accesses (map (bd_start bd) [1..bd_global bd]) a))"
  using lib_run_ok [OF assms(1,2)] assms(2-9) by (rule stop_and_detect)

theorem library_logs_are_analysed_witness:
  "\<exists>rt' d. racez_stop example_libc example_stop 1 example_allocated = Inr rt' \<and>
     detect_main (example_config False) (map snd (written_out (rt_buffer rt'))) None = Inr d"
proof -
  obtain bd where bd: "global_buffer (rt_buffer example_allocated) = Some bd" "bd_global bd = 1"
    using example_allocated_global by auto
  have "map_option (\<lambda>bd. record_type (bd_start bd 0)) (global_buffer (rt_buffer example_allocated)) = Some (OTHER_TYPE 0)"
    unfolding example_allocated_def example_started_def by code_simp
  moreover have "racez_enable (rt_flags example_allocated) = 1" "written_out (rt_buffer example_allocated) = []"
    using malloc_calm [OF example_allocated_run(1)] by (auto simp: calm_def example_started_views)
  ultimately show ?thesis
    using library_logs_are_analysed [OF example_allocated_run(2) example_libc_ok _ bd(1) _ _ _ no_reuse_example addr2line_ok_example,
        of example_stop 1] bd
    by (auto simp: BUFFERSIZE_def example_stop_def)
qed

text \<open>C34: A block whose size does not fit an \<open>int\<close> can break a run of the detector with the
  reuse filter (\<open>-m\<close>). The allocation is logged with the size converted to \<open>int\<close>; when the
  converted size is negative (from 2 GB to just below 4 GB, and again in every second 2 GB from
  there on), the record of the matching \<open>free\<close> sends the deletion loop past the end of a map,
  provided that an address just below the block was sampled in between: below the start of the
  block, and not below the start plus the negative size.\<close>

theorem big_block_breaks_detector:
  assumes "to_int32 sz < 0" and "- to_int32 sz \<le> uint p" and "enable_memory_reuse cfg"
    and "is_access r" and "layout_ok r" and "lock_count r \<le> 10"
    and "uint p + to_int32 sz \<le> uint (memory_address r)" and "uint (memory_address r) < uint p"
  shows "rfold (offline_detection cfg) [alloc_record tid p (to_int32 sz) 1, r, alloc_record tid p 0 0] init_detector = Inl Bad_iterator"
proof -
  have p: "p \<noteq> 0" using assms(1,2) by auto
  have rec: "record_type (alloc_record tid p s a) = MEMORY_ALLOC" "start_address (alloc_record tid p s a) = p"
    "alloc_size (alloc_record tid p s a) = to_int32 s" "is_alloc (alloc_record tid p s a) = to_int32 a" for s a
    by (simp_all add: alloc_record_def alloc_members) (simp_all add: start_address_def union_store_defs)
  have i: "to_int32 (to_int32 sz) = to_int32 sz" "to_int32 1 = 1" "to_int32 0 = 0"
    by (simp add: to_int32_id to_int32_range) (simp_all add: to_int32_def)
  let ?d1 = "init_detector\<lparr>heap_map := [(p, to_int32 sz)]\<rparr>"
  have s1: "offline_detection cfg (alloc_record tid p (to_int32 sz) 1) init_detector = Inr ?d1"
    using assms(3) by (simp add: offline_detection_def detect_alloc_def rec i init_detector_def)
  let ?held = "take (nat (lock_count r)) (lockset r)"
  let ?d2 = "?d1\<lparr>global_record_set_map := [(memory_address r, [r])],
    lockset_map := [(memory_address r, set_insert_all (<) ?held [])], rw_map := [(memory_address r, is_write r)]\<rparr>"
  have "array_prefix (lockset r) (lock_count r) = Inr ?held"
    using assms(5,6) by (intro array_prefix_ok) (simp add: layout_ok_def)
  then have s2: "offline_detection cfg r ?d1 = Inr ?d2"
    using assms(4) by (simp add: offline_detection_def detect_access_def is_access_def init_detector_def Let_def)
  let ?e = "p + word_of_int (to_int32 sz)"
  have e: "uint ?e = uint p + to_int32 sz"
    using assms(1,2) uint_lt2p [of p] by (simp add: uint_word_ariths uint_word_of_int mod_simps)
  have "map_erase_range p ?e (lockset_map ?d2) = Inl Bad_iterator"
    using assms(1,7,8) by (subst map_erase_range_backward) (auto simp: word_le_def word_less_def e)
  then have "offline_detection cfg (alloc_record tid p 0 0) ?d2 = Inl Bad_iterator"
    using assms(1,3) p
    by (simp add: offline_detection_def detect_alloc_def rec i init_detector_def delete_map_entries_def)
  with s1 s2 show ?thesis by simp
qed

theorem big_block_breaks_detector_witness:
  "rfold (offline_detection (example_config True))
     [alloc_record 1 (2 ^ 33) (to_int32 (3 * 2 ^ 30)) 1, sample 1 11 (2 ^ 33 - 8) 1 [], alloc_record 1 (2 ^ 33) 0 0] init_detector =
   Inl Bad_iterator"
  by (rule big_block_breaks_detector)
    (simp_all add: to_int32_def example_config_def sample_def is_access_def union_view_defs layout_ok_def zero_record_def)

end
