(* ===== verification/Racez_Execution.thy ===== *)
theory Racez_Execution
  imports Pipeline_Properties
begin

text \<open>
  Executions: the calls that the threads of a program make into the library, one after the other,
  from the start of the profiler on, and what really happened in them. The model of the library
  is run on the calls; the locks a thread holds and the accesses the counters catch are read off
  the calls themselves.
\<close>

section \<open>Calls\<close>

datatype call =
    Lock ptr
  | Unlock ptr
  | Wait ptr ptr
  | Signal ptr
  | Malloc int ptr
  | Free ptr
  | Create ptr
  | Attach attach_env
  | Overflow signal_env

text \<open>The real functions behind the interposed ones succeed.\<close>

fun perform :: "libc_env \<Rightarrow> int \<times> call \<Rightarrow> runtime \<Rightarrow> runtime result" where
  "perform libc (tid, Lock m) rt = rbind (pthread_mutex_lock libc 0 tid m rt) (\<lambda>(_, rt1). Inr rt1)"
| "perform libc (tid, Unlock m) rt = rbind (pthread_mutex_unlock libc 0 tid m rt) (\<lambda>(_, rt1). Inr rt1)"
| "perform libc (tid, Wait c m) rt = rbind (pthread_cond_wait libc 0 tid c m rt) (\<lambda>(_, rt1). Inr rt1)"
| "perform libc (tid, Signal c) rt = rbind (pthread_cond_signal libc 0 tid c rt) (\<lambda>(_, rt1). Inr rt1)"
| "perform libc (tid, Malloc sz p) rt = rbind (malloc libc tid sz p rt) (\<lambda>(_, rt1). Inr rt1)"
| "perform libc (tid, Free p) rt = free libc tid p rt"
| "perform libc (tid, Create p) rt = rbind (pthread_create libc tid p 0 rt) (\<lambda>(_, rt1). Inr rt1)"
| "perform libc (tid, Attach env) rt = rbind (pmu_profiler_perthread_attach libc env tid rt) (\<lambda>(_, rt1). Inr rt1)"
| "perform libc (tid, Overflow env) rt = signal_handler env tid rt"

section \<open>What really happened\<close>

text \<open>Collecting along a sequence what each element gives after those before it.\<close>

fun collect :: "('e list \<Rightarrow> 'e \<Rightarrow> 'o list) \<Rightarrow> 'e list \<Rightarrow> 'e list \<Rightarrow> 'o list" where
  "collect f past [] = []"
| "collect f past (e # es) = f past e @ collect f (past @ [e]) es"

fun each :: "('e list \<Rightarrow> 'e \<Rightarrow> bool) \<Rightarrow> 'e list \<Rightarrow> 'e list \<Rightarrow> bool" where
  "each P past [] = True"
| "each P past (e # es) \<longleftrightarrow> P past e \<and> each P (past @ [e]) es"

lemma in_collect: "x \<in> set (collect f past es) \<longleftrightarrow> (\<exists>us e vs. es = us @ e # vs \<and> x \<in> set (f (past @ us) e))"
proof (induction es arbitrary: past)
  case (Cons e es)
  show ?case
  proof
    assume "x \<in> set (collect f past (e # es))"
    then consider "x \<in> set (f past e)" | us e' vs where "es = us @ e' # vs" "x \<in> set (f (past @ e # us) e')"
      using Cons.IH [of "past @ [e]"] by auto
    then show "\<exists>us e' vs. e # es = us @ e' # vs \<and> x \<in> set (f (past @ us) e')"
      by cases (metis append_Nil append_Nil2, metis append_Cons)
  next
    assume "\<exists>us e' vs. e # es = us @ e' # vs \<and> x \<in> set (f (past @ us) e')"
    then obtain us e' vs where u: "e # es = us @ e' # vs" "x \<in> set (f (past @ us) e')" by blast
    show "x \<in> set (collect f past (e # es))"
    proof (cases us)
      case (Cons u us')
      with u have "es = us' @ e' # vs" "x \<in> set (f ((past @ [e]) @ us') e')" by auto
      then show ?thesis using Cons.IH [of "past @ [e]"] by auto
    qed (use u in auto)
  qed
qed simp

lemma each_iff: "each P past es \<longleftrightarrow> (\<forall>us e vs. es = us @ e # vs \<longrightarrow> P (past @ us) e)"
proof -
  have "each P past es \<longleftrightarrow> True \<notin> set (collect (\<lambda>p e. [\<not> P p e]) past es)"
    by (induction P past es rule: each.induct) auto
  then show ?thesis by (auto simp: in_collect)
qed

text \<open>
  The lock operations in a call; attaching locks the mutex of the thread map. A wait releases its
  mutex and has it again when it returns.
\<close>

fun lock_ops :: "int \<times> call \<Rightarrow> (int \<times> lock_op) list" where
  "lock_ops (tid, Lock m) = [(tid, Acquire m)]"
| "lock_ops (tid, Unlock m) = [(tid, Release m)]"
| "lock_ops (tid, Attach env) = [(tid, Acquire (map_mutex env)), (tid, Release (map_mutex env))]"
| "lock_ops (tid, _) = []"

definition all_lock_ops :: "(int \<times> call) list \<Rightarrow> (int \<times> lock_op) list" where
  "all_lock_ops evs = concat (map lock_ops evs)"

definition held :: "(int \<times> call) list \<Rightarrow> int \<Rightarrow> ptr set" where
  "held past tid = set_mset (held_after (thread_ops tid (all_lock_ops past)))"

text \<open>The address and the direction of the access the counters have caught.\<close>

definition caught :: "ibs_env \<Rightarrow> (ptr \<times> int) option" where
  "caught env =
     (case (read_pmd env 11, read_pmd env 12) of
        (Some opdata3, Some a) \<Rightarrow> if ibsldop env opdata3 then Some (a, 0) else if ibsstop env opdata3 then Some (a, 1) else None
      | _ \<Rightarrow> None)"

text \<open>An access: its address, and thread, direction and the locks held. A null pointer is not looked at.\<close>

type_synonym seen_access = "ptr \<times> int \<times> int \<times> ptr set"

definition seen :: "(int \<times> call) list \<Rightarrow> int \<times> call \<Rightarrow> seen_access list" where
  "seen past ev =
     (case ev of
        (tid, Overflow env) \<Rightarrow>
          (case caught (si_ibs env) of
             Some (a, wr) \<Rightarrow> if a = 0 then [] else [(a, tid, wr, held past tid)]
           | None \<Rightarrow> [])
      | _ \<Rightarrow> [])"

definition sampled_accesses :: "(int \<times> call) list \<Rightarrow> seen_access list" where
  "sampled_accesses evs = collect seen [] evs"

definition accesses_to :: "ptr \<Rightarrow> seen_access list \<Rightarrow> (int \<times> int \<times> ptr set) list" where
  "accesses_to a obs = map snd (filter (\<lambda>x. fst x = a) obs)"

definition threads_of :: "(int \<times> int \<times> ptr set) list \<Rightarrow> int set" where
  "threads_of h = fst ` set h"

text \<open>A location that two threads accessed, that one of them wrote, and that no lock protected.\<close>

definition unprotected :: "(int \<times> int \<times> ptr set) list \<Rightarrow> bool" where
  "unprotected h \<longleftrightarrow> (\<exists>t\<in>threads_of h. \<exists>u\<in>threads_of h. t \<noteq> u) \<and> (\<exists>(t, wr, ls)\<in>set h. wr = 1) \<and> (\<Inter>(t, wr, ls)\<in>set h. ls) = {}"

section \<open>Conditions\<close>

text \<open>
  A call that can happen: a thread is interrupted only after it was attached. Attaching and the
  interrupt are those of an AMD machine with instruction-based sampling, the only counters that
  give the library the address of an access, and the calls to the kernel succeed.
\<close>

definition attached :: "(int \<times> call) list \<Rightarrow> int \<Rightarrow> bool" where
  "attached past tid \<longleftrightarrow> (\<exists>env. (tid, Attach env) \<in> set past)"

definition attach_works :: "attach_env \<Rightarrow> bool" where
  "attach_works env \<longleftrightarrow> pfm_initialized env \<and> found_type env = PFMLIB_AMD64_PMU \<and> 0 < context_fd env \<and> pmcs_written env \<and>
     pmds_written env \<and> context_loaded env \<and> async_set env \<and> signal_set env \<and> map_node env \<noteq> 0"

definition overflow_works :: "signal_env \<Rightarrow> bool" where
  "overflow_works env \<longleftrightarrow> read_msg (si_ibs env) \<and> read_pmd (si_ibs env) 11 \<noteq> None \<and>
     read_pmd (si_ibs env) 8 \<noteq> None \<and> read_pmd (si_ibs env) 12 \<noteq> None"

fun possible :: "(int \<times> call) list \<Rightarrow> int \<times> call \<Rightarrow> bool" where
  "possible past (tid, Create p) = (p \<noteq> 0)"
| "possible past (tid, Attach env) = attach_works env"
| "possible past (tid, Overflow env) = (attached past tid \<and> overflow_works env)"
| "possible past _ = True"

text \<open>
  The number of records a call can add to the log. Attaching may allocate a lockset and a node of the
  thread map.
\<close>

fun cost :: "racez_flags \<Rightarrow> call \<Rightarrow> nat" where
  "cost fl (Overflow env) = 1"
| "cost fl (Wait c m) = (if racez_signal_wait fl \<noteq> 0 then 1 else 0)"
| "cost fl (Signal c) = (if racez_signal_wait fl \<noteq> 0 then 1 else 0)"
| "cost fl (Attach env) = (if racez_memory_allocator fl \<noteq> 0 then 2 else 0)"
| "cost fl _ = (if racez_memory_allocator fl \<noteq> 0 then 1 else 0)"

definition total_cost :: "racez_flags \<Rightarrow> (int \<times> call) list \<Rightarrow> nat" where
  "total_cost fl evs = sum_list (map (cost fl \<circ> snd) evs)"

section \<open>Runs of an observed program\<close>

text \<open>
  The contract of a profiler: a possible call succeeds as long as there is room for the records it
  may add, and afterwards the profiler shows what it showed before and what the call adds to it.
\<close>

locale observer =
  fixes act :: "'e \<Rightarrow> 's \<Rightarrow> 's result"
    and follows :: "'e list \<Rightarrow> nat \<Rightarrow> 's \<Rightarrow> bool"
    and can :: "'e list \<Rightarrow> 'e \<Rightarrow> bool"
    and needs :: "'e \<Rightarrow> nat"
    and shown :: "'s \<Rightarrow> 'o list"
    and adds_to :: "'e list \<Rightarrow> 'e \<Rightarrow> 'o list"
  assumes act_spec: "follows past (needs e + k) s \<Longrightarrow> can past e \<Longrightarrow>
    \<exists>s'. act e s = Inr s' \<and> follows (past @ [e]) k s' \<and> shown s' = shown s @ adds_to past e"
begin

lemma run_observed:
  "follows past (sum_list (map needs es) + k) s \<Longrightarrow> each can past es \<Longrightarrow>
   \<exists>s'. rfold act es s = Inr s' \<and> follows (past @ es) k s' \<and> shown s' = shown s @ collect adds_to past es"
proof (induction es arbitrary: past s)
  case (Cons e es)
  have "follows past (needs e + (sum_list (map needs es) + k)) s" using Cons.prems(1) by (simp add: add.assoc)
  then obtain s1 where s1: "act e s = Inr s1" "follows (past @ [e]) (sum_list (map needs es) + k) s1"
      "shown s1 = shown s @ adds_to past e"
    using act_spec [of past e "sum_list (map needs es) + k" s] Cons.prems(2) by auto
  with Cons.IH [of "past @ [e]" s1] Cons.prems(2) show ?case by auto
qed simp

end

end
