(* ===== verification/Execution_Properties.thy ===== *)
theory Execution_Properties
  imports Racez_Execution
begin

text \<open>
  From what threads do to what the detector says about it: the run of the library over an execution,
  the log it leaves, and the verdict, against the accesses and locks of the execution itself.
\<close>

section \<open>Single calls\<close>

definition observed :: "runtime \<Rightarrow> seen_access list" where
  "observed rt = map (\<lambda>e. (memory_address e, view e)) (filter is_access (logged rt))"

text \<open>
  What a call does to the state: it makes the given lock operations, adds the given accesses to the
  log and leaves room for \<open>k\<close> records.
\<close>

definition moved :: "libc_env \<Rightarrow> nat \<Rightarrow> (int \<times> lock_op) list \<Rightarrow> seen_access list \<Rightarrow> runtime \<Rightarrow> runtime \<Rightarrow> bool" where
  "moved libc k ops obs rt rt' \<longleftrightarrow> logging k rt' \<and> rt_initialized rt' = rt_initialized rt \<and> rt_flags rt' = rt_flags rt \<and>
     rt_type rt' = rt_type rt \<and> tid_fd_map rt' = tid_fd_map rt \<and> same_file (rt_buffer rt) (rt_buffer rt') \<and>
     rfold (mutex_event (map_option snd (fresh_lockset libc))) ops (rt_tls rt) = Inr (rt_tls rt') \<and>
     observed rt' = observed rt @ obs"

lemma update_views [simp]:
  "logging k (rt\<lparr>rt_tls := t\<rparr>) = logging k rt" "logging k (rt\<lparr>tid_fd_map := m\<rparr>) = logging k rt"
  "observed (rt\<lparr>rt_tls := t\<rparr>) = observed rt" "observed (rt\<lparr>tid_fd_map := m\<rparr>) = observed rt"
  by (simp_all add: observed_def logging_def logged_def)

lemma moved_refl: "logging k rt \<Longrightarrow> moved libc k [] [] rt rt"
  by (simp add: moved_def same_file_def)

lemma moved_trans:
  "moved libc j ops obs a b \<Longrightarrow> moved libc k ops' obs' b c \<Longrightarrow> moved libc k (ops @ ops') (obs @ obs') a c"
  by (auto simp: moved_def rfold_append intro: same_file_trans)

lemma moved_pmu_trace: "moved libc k ops obs a (pmu_trace c b) = moved libc k ops obs a b"
  by (simp add: moved_def observed_def pmu_trace_def logged_def logging_def)

lemma pmu_trace_moved: "moved libc k ops obs (pmu_trace c a) b = moved libc k ops obs a b"
  by (simp add: moved_def observed_def pmu_trace_def logged_def)

lemma logging_weaken: "logging j rt \<Longrightarrow> k \<le> j \<Longrightarrow> logging k rt"
  by (simp add: logging_def)

lemma log_quiet:
  assumes "logging ((if b then 1 else 0) + k) rt" and "writable r" and "record_type r \<noteq> MEMORY_OP"
  shows "\<exists>rt'. (if b then log_record r rt else Inr rt) = Inr rt' \<and> moved libc k [] [] rt rt'"
proof (cases b)
  case False
  with assms(1) show ?thesis by (simp add: moved_refl)
next
  case True
  obtain rt' e where e: "log_record r rt = Inr rt'" "logging k rt'" "same_but_buffer rt rt'" "logged rt' = logged rt @ [e]"
      "logged_as (int (length (logged rt)) + 1) r e" "same_file (rt_buffer rt) (rt_buffer rt')"
    using log_record_ok [of k rt r] assms True by auto
  have "\<not> is_access e" using e(5) assms(3) by (simp add: logged_as_def is_access_def)
  moreover have "rt' = rt\<lparr>rt_buffer := rt_buffer rt'\<rparr>" using e(3) by (simp add: same_but_buffer_def)
  ultimately have "moved libc k [] [] rt rt'"
    using e by (simp add: moved_def observed_def) (metis runtime.ext_inject runtime.surjective runtime.update_convs(3))
  with True e(1) show ?thesis by auto
qed

lemma quiet_records [simp]:
  "writable (alloc_record tid p sz a)" "writable (wait_record tid c m)" "writable (signal_record tid c)"
  "record_type (alloc_record tid p sz a) \<noteq> MEMORY_OP" "record_type (wait_record tid c m) \<noteq> MEMORY_OP"
  "record_type (signal_record tid c) \<noteq> MEMORY_OP"
  by (simp_all add: writable_def layout_ok_def alloc_record_def wait_record_def signal_record_def union_store_defs zero_record_def)

text \<open>A thread that may call: the profiler is on and the functions are there.\<close>

definition on :: "libc_env \<Rightarrow> runtime \<Rightarrow> bool" where
  "on libc rt \<longleftrightarrow> libc_ok libc \<and> rt_initialized rt \<and> racez_enable (rt_flags rt) = 1 \<and> racez_lockset (rt_flags rt) \<noteq> 0"

lemma on_libc: "on libc rt \<Longrightarrow> libc_ok libc"
  by (simp add: on_def)

lemma on_init: "on libc rt \<Longrightarrow> once_init libc rt = rt"
  by (simp add: on_def once_init_def)

lemma on_dlsym: "on libc rt \<Longrightarrow> dlsym libc f"
  by (simp add: on_def libc_ok_def)

lemma on_moved: "on libc rt \<Longrightarrow> moved libc k ops obs rt rt' \<Longrightarrow> on libc rt'"
  by (simp add: on_def moved_def)

abbreviation alloc_cost :: "runtime \<Rightarrow> nat" where
  "alloc_cost rt \<equiv> (if racez_memory_allocator (rt_flags rt) \<noteq> 0 then 1 else 0)"

lemma malloc_moved:
  assumes "on libc rt" and "logging (alloc_cost rt + k) rt"
  shows "\<exists>rt'. malloc libc tid sz p rt = Inr (p, rt') \<and> moved libc k [] [] rt rt'"
  using log_quiet [OF assms(2), of "alloc_record tid p (to_int32 sz) 1" libc] assms(1)
  by (auto simp: malloc_def on_init on_dlsym on_def split: if_splits)

lemma free_moved:
  assumes "on libc rt" and "logging (alloc_cost rt + k) rt"
  shows "\<exists>rt'. free libc tid p rt = Inr rt' \<and> moved libc k [] [] rt rt'"
  using log_quiet [OF assms(2), of "alloc_record tid p 0 0" libc] assms(1)
  by (auto simp: free_def on_init on_dlsym on_def split: if_splits)

lemma cond_moved:
  assumes "on libc rt" and "logging ((if racez_signal_wait (rt_flags rt) \<noteq> 0 then 1 else 0) + k) rt"
  shows "\<exists>rt'. pthread_cond_wait libc 0 tid c m rt = Inr (0, rt') \<and> moved libc k [] [] rt rt'"
    and "\<exists>rt'. pthread_cond_signal libc 0 tid c rt = Inr (0, rt') \<and> moved libc k [] [] rt rt'"
  using log_quiet [OF assms(2), of "wait_record tid c m" libc] log_quiet [OF assms(2), of "signal_record tid c" libc] assms(1)
  by (auto simp: pthread_cond_wait_def pthread_cond_signal_def on_init on_dlsym on_def split: if_splits)

lemma create_moved:
  assumes "on libc rt" and "logging (alloc_cost rt + k) rt" and "p \<noteq> 0"
  shows "\<exists>rt'. pthread_create libc tid p 0 rt = Inr (0, rt') \<and> moved libc k [] [] rt rt'"
  using malloc_moved [OF assms(1,2), of tid 16 p] assms(1,3) by (auto simp: pthread_create_def on_init on_dlsym)

text \<open>The two calls that change the lockset of a thread.\<close>

lemma mutex_event_calls:
  "mutex_event fresh (tid, Acquire m) = add_one_mutex fresh tid m" "mutex_event fresh (tid, Release m) = remove_one_mutex fresh tid m"
  by (simp_all add: fun_eq_iff mutex_event_def)

lemma mutex_event_ok:
  assumes "libc_ok libc" and "locksets_ok st"
  shows "\<exists>st'. mutex_event (map_option snd (fresh_lockset libc)) (tid, e) st = Inr st' \<and> locksets_ok st'"
  using assms add_one_mutex_ok [OF assms(2)] remove_one_mutex_ok [OF assms(2)]
  by (cases e) (fastforce simp: libc_ok_def mutex_event_def)+

lemma with_lockset_moved:
  assumes "on libc rt" and "locksets_ok (rt_tls rt)" and "logging (alloc_cost rt + k) rt"
  shows "\<exists>rt'. with_lockset libc (\<lambda>fresh. mutex_event fresh (tid, e)) tid rt = Inr rt' \<and> moved libc k [(tid, e)] [] rt rt' \<and>
    locksets_ok (rt_tls rt')"
proof -
  obtain t where t: "mutex_event (map_option snd (fresh_lockset libc)) (tid, e) (rt_tls rt) = Inr t" "locksets_ok t"
    using mutex_event_ok [OF on_libc [OF assms(1)] assms(2)] by blast
  define p where "p = (case fresh_lockset libc of Some (p, _) \<Rightarrow> p | None \<Rightarrow> 0)"
  obtain rt1 where rt1: "(if GetPerThreadLockset tid (rt_tls rt) = None
      then rbind (malloc libc tid 88 p rt) (\<lambda>(_, rt1). Inr rt1) else Inr rt) = Inr rt1" "moved libc k [] [] rt rt1"
  proof (cases "GetPerThreadLockset tid (rt_tls rt) = None")
    case True
    with malloc_moved [OF assms(1,3), of tid 88 p] that show ?thesis by auto
  next
    case False
    with moved_refl [OF logging_weaken [OF assms(3)], of k libc] that show ?thesis by simp
  qed
  have "rt_tls rt1 = rt_tls rt" using rt1(2) by (simp add: moved_def)
  then have "with_lockset libc (\<lambda>fresh. mutex_event fresh (tid, e)) tid rt = Inr (rt1\<lparr>rt_tls := t\<rparr>)"
    using t(1) by (simp only: with_lockset_def p_def [symmetric] rt1(1) rbind.simps)
  moreover have "moved libc k [(tid, e)] [] rt (rt1\<lparr>rt_tls := t\<rparr>)"
    using rt1(2) t(1) by (simp add: moved_def)
  ultimately show ?thesis using t(2) by auto
qed

lemma mutex_call_moved:
  assumes "on libc rt" and "locksets_ok (rt_tls rt)" and "logging (alloc_cost rt + k) rt"
  shows "\<exists>rt'. pthread_mutex_lock libc 0 tid m rt = Inr (0, rt') \<and> moved libc k [(tid, Acquire m)] [] rt rt' \<and> locksets_ok (rt_tls rt')"
    and "\<exists>rt'. pthread_mutex_unlock libc 0 tid m rt = Inr (0, rt') \<and> moved libc k [(tid, Release m)] [] rt rt' \<and> locksets_ok (rt_tls rt')"
  using with_lockset_moved [OF assms, of tid "Acquire m"] with_lockset_moved [OF assms, of tid "Release m"] assms(1)
  by (auto simp: pthread_mutex_lock_def pthread_mutex_unlock_def on_init on_dlsym on_def mutex_event_calls)

text \<open>A thread that has a lockset does not allocate.\<close>

lemma with_lockset_again:
  assumes "on libc rt" and "locksets_ok (rt_tls rt)" and "logging k rt" and "GetPerThreadLockset tid (rt_tls rt) \<noteq> None"
  shows "\<exists>rt'. pthread_mutex_unlock libc 0 tid m rt = Inr (0, rt') \<and> moved libc k [(tid, Release m)] [] rt rt'"
proof -
  obtain t where t: "mutex_event (map_option snd (fresh_lockset libc)) (tid, Release m) (rt_tls rt) = Inr t"
    using mutex_event_ok [OF on_libc [OF assms(1)] assms(2)] by blast
  then have "moved libc k [(tid, Release m)] [] rt (rt\<lparr>rt_tls := t\<rparr>)"
    using assms(3) by (simp add: moved_def same_file_def)
  with t assms(1,4) show ?thesis
    by (auto simp: pthread_mutex_unlock_def with_lockset_def on_init on_dlsym on_def mutex_event_calls)
qed

text \<open>The assignment to the map of threads.\<close>

lemma assign_moved:
  assumes "on libc rt" and "logging (alloc_cost rt + k) rt" and "map_node env \<noteq> 0"
  shows "\<exists>rt1. assign_fd libc env tid fd rt = Inr (rt1\<lparr>tid_fd_map := map_assign tid fd (tid_fd_map rt1)\<rparr>) \<and> moved libc k [] [] rt rt1"
proof (cases "map_of (tid_fd_map rt) tid = None")
  case True
  with malloc_moved [OF assms(1,2), of tid "node_size env" "map_node env"] assms(3) show ?thesis
    by (auto simp: assign_fd_def)
next
  case False
  with moved_refl [OF logging_weaken [OF assms(2)], of k libc] show ?thesis by (auto simp: assign_fd_def)
qed

lemma register_moved:
  assumes "on libc rt" and "locksets_ok (rt_tls rt)" and "logging (alloc_cost rt + (alloc_cost rt + k)) rt" and "map_node env \<noteq> 0"
  shows "\<exists>rt'. register_fd libc env tid fd rt = Inr rt' \<and> tid_fd_map rt' = map_assign tid fd (tid_fd_map rt) \<and>
    moved libc k [(tid, Acquire (map_mutex env)), (tid, Release (map_mutex env))] [] rt (rt'\<lparr>tid_fd_map := tid_fd_map rt\<rparr>)"
proof -
  obtain rt0 where rt0: "pthread_mutex_lock libc 0 tid (map_mutex env) rt = Inr (0, rt0)"
      "moved libc (alloc_cost rt + k) [(tid, Acquire (map_mutex env))] [] rt rt0" "locksets_ok (rt_tls rt0)"
    using mutex_call_moved(1) [OF assms(1-3)] by blast
  have "on libc rt0" "logging (alloc_cost rt0 + k) rt0"
    using on_moved [OF assms(1) rt0(2)] rt0(2) by (simp_all add: moved_def)
  then obtain rt1 where a: "assign_fd libc env tid fd rt0 = Inr (rt1\<lparr>tid_fd_map := map_assign tid fd (tid_fd_map rt1)\<rparr>)"
      "moved libc k [] [] rt0 rt1"
    using assign_moved [OF _ _ assms(4)] by blast
  have rt1: "moved libc k [(tid, Acquire (map_mutex env))] [] rt rt1" "locksets_ok (rt_tls rt1)"
    using moved_trans [OF rt0(2) a(2)] rt0(3) a(2) by (simp_all add: moved_def)
  let ?rt2 = "rt1\<lparr>tid_fd_map := map_assign tid fd (tid_fd_map rt1)\<rparr>"
  have "GetPerThreadLockset tid (rt_tls rt1) \<noteq> None"
    using rt1(1) assms(1) update_lockset_other(3) by (fastforce simp: moved_def mutex_event_update on_def libc_ok_def)
  moreover have "on libc ?rt2" "logging k ?rt2" "locksets_ok (rt_tls ?rt2)"
    using on_moved [OF assms(1) rt1(1)] rt1 by (simp_all add: on_def moved_def)
  ultimately obtain rt3 where rt3: "pthread_mutex_unlock libc 0 tid (map_mutex env) ?rt2 = Inr (0, rt3)"
      "moved libc k [(tid, Release (map_mutex env))] [] ?rt2 rt3"
    using with_lockset_again [of libc ?rt2 k tid "map_mutex env"] by auto
  have "moved libc k [(tid, Release (map_mutex env))] [] rt1 (rt3\<lparr>tid_fd_map := tid_fd_map rt1\<rparr>)"
    using rt3(2) by (simp add: moved_def)
  from moved_trans [OF rt1(1) this] have "moved libc k [(tid, Acquire (map_mutex env)), (tid, Release (map_mutex env))] [] rt
      (rt3\<lparr>tid_fd_map := tid_fd_map rt\<rparr>)"
    using rt1(1) by (simp add: moved_def)
  moreover have "tid_fd_map rt3 = map_assign tid fd (tid_fd_map rt)" using rt3(2) rt1(1) by (simp add: moved_def)
  ultimately show ?thesis using rt0(1) a(1) rt3(1) by (simp add: register_fd_def)
qed

text \<open>Attaching on an AMD machine.\<close>

lemma attach_moved:
  assumes "on libc rt" and "locksets_ok (rt_tls rt)" and "logging (alloc_cost rt + (alloc_cost rt + k)) rt" and "rt_type rt = PFMLIB_AMD64_PMU"
    and "attach_works env"
  shows "\<exists>b rt'. pmu_profiler_perthread_attach libc env tid rt = Inr (b, rt') \<and>
    tid_fd_map rt' = map_assign tid (context_fd env) (tid_fd_map rt) \<and>
    moved libc k (lock_ops (tid, Attach env)) [] rt (rt'\<lparr>tid_fd_map := tid_fd_map rt\<rparr>)"
proof -
  let ?fd = "context_fd env"
  define rt6 where "rt6 = owner_and_signal ?fd tid (pmu_trace (Set_async ?fd) (pmu_trace (Load_context ?fd tid)
    (pmu_trace (Write_pmds ?fd [ibs_pmd]) (pmu_trace (Write_pmcs ?fd [zero_pmc\<lparr>pmc_num := 5, pmc_value := ibs_control env\<rparr>])
      (pmu_trace Create_context rt)))))"
  have m6: "moved libc j ops obs rt6 x = moved libc j ops obs rt x" for j ops obs x
    by (simp add: rt6_def owner_and_signal_def pmu_trace_moved)
  have v6: "rt_flags rt6 = rt_flags rt" "rt_tls rt6 = rt_tls rt" "tid_fd_map rt6 = tid_fd_map rt" "rt_initialized rt6 = rt_initialized rt"
      "logging j rt6 = logging j rt" for j
    by (simp_all add: rt6_def owner_and_signal_def) (simp add: pmu_trace_def)
  obtain rt7 where rt7: "register_fd libc env tid ?fd rt6 = Inr rt7" "tid_fd_map rt7 = map_assign tid ?fd (tid_fd_map rt)"
      "moved libc k (lock_ops (tid, Attach env)) [] rt (rt7\<lparr>tid_fd_map := tid_fd_map rt\<rparr>)"
    using register_moved [of libc rt6 k env tid ?fd] assms(1-3,5) by (auto simp: v6 m6 on_def attach_works_def)
  have type: "rt\<lparr>rt_type := PFMLIB_AMD64_PMU\<rparr> = rt" using assms(4) by (cases rt) simp
  have fd: "0 \<le> ?fd" using assms(5) by (simp add: attach_works_def)
  have "pmu_profiler_perthread_attach libc env tid rt = Inr (fall_off env, pmu_trace (Self_start ?fd) rt7)"
    using assms(1,5) rt7(1) type fd
    by (simp add: pmu_profiler_perthread_attach_def pmuprofiler_context_attach_def pmuprofiler_context_attach_amd_ibs_def require_def
        attach_works_def on_def Let_def rt6_def)
  moreover have "(pmu_trace c rt7)\<lparr>tid_fd_map := m\<rparr> = pmu_trace c (rt7\<lparr>tid_fd_map := m\<rparr>)" for c m by (simp add: pmu_trace_def)
  ultimately show ?thesis using rt7(2,3) by (simp add: moved_pmu_trace)
qed

text \<open>An interrupt of a thread that is in the map.\<close>

lemma overflow_moved:
  assumes "logging (Suc k) rt" and "rt_type rt = PFMLIB_AMD64_PMU" and "overflow_works env" and "runtime_ok rt"
    and "map_of (tid_fd_map rt) tid = Some fd" and "tracked_locks (GetPerThreadLockset tid (rt_tls rt)) = held past tid"
  shows "\<exists>rt'. signal_handler env tid rt = Inr rt' \<and> moved libc k [] (seen past (tid, Overflow env)) rt rt'"
proof -
  obtain d ip a where regs: "read_msg (si_ibs env)" "read_pmd (si_ibs env) 11 = Some d" "read_pmd (si_ibs env) 8 = Some ip"
      "read_pmd (si_ibs env) 12 = Some a" using assms(3) by (auto simp: overflow_works_def)
  have "fst (map_insert tid 0 (tid_fd_map rt)) = tid_fd_map rt"
    using map_insert_present [OF _ assms(5)] assms(4) by (simp add: runtime_ok_def map_ok_def)
  then have s: "sampled tid rt = rt\<lparr>num_stat := to_int32 (num_stat rt + 1)\<rparr>" by (cases rt) (simp add: sampled_def)
  have s_moved: "moved libc k [] obs rt rt'" if same: "same_but_buffer (pmu_trace c (sampled tid rt)) rt'" and "logging k rt'"
      and "same_file (rt_buffer rt) (rt_buffer rt')" and "observed rt' = observed rt @ obs" for rt' c obs
  proof -
    obtain b where "rt' = (pmu_trace c (sampled tid rt))\<lparr>rt_buffer := b\<rparr>" using same unfolding same_but_buffer_def by blast
    with that(2-4) show ?thesis by (simp add: moved_def s pmu_trace_def)
  qed
  show ?thesis
  proof (cases "ibsldop (si_ibs env) d \<or> ibsstop (si_ibs env) d")
    case False
    with ibs_overflow_other [OF assms(2) regs(1,2)] have "signal_handler env tid rt = Inr (pmu_trace (Restart (si_fd env)) (sampled tid rt))" by simp
    moreover have "moved libc k [] [] rt (pmu_trace (Restart (si_fd env)) (sampled tid rt))"
      using logging_weaken [OF assms(1), of k]
      by (intro s_moved [OF same_but_buffer_refl]) (simp_all add: observed_def same_file_def, simp_all add: pmu_trace_def sampled_def)
    moreover have "seen past (tid, Overflow env) = []" using False regs by (simp add: seen_def caught_def)
    ultimately show ?thesis by auto
  next
    case True
    have "lockset_opt_ok (GetPerThreadLockset tid (rt_tls rt))"
      using assms(4) by (auto simp: lockset_opt_ok_def runtime_ok_def locksets_ok_def split: option.splits)
    then obtain rt' e where e: "signal_handler env tid rt = Inr rt'" "logging k rt'" "logged rt' = logged rt @ [e]"
        "same_but_buffer (pmu_trace (Restart (si_fd env)) (sampled tid rt)) rt'" "same_file (rt_buffer rt) (rt_buffer rt')"
        "thread_id e = tid" "record_type e = MEMORY_OP" "memory_address e = a" "is_write e = (if ibsldop (si_ibs env) d then 0 else 1)"
        "locks e = held past tid"
      using ibs_overflow [OF assms(1,2) regs True] assms(6) by metis
    have "observed rt' = observed rt @ seen past (tid, Overflow env)"
      using e(3,6-10) regs True by (auto simp: observed_def seen_def caught_def is_access_def view_def)
    with e s_moved show ?thesis by blast
  qed
qed

section \<open>Executions\<close>

lemma all_lock_ops_snoc: "all_lock_ops (evs @ [ev]) = all_lock_ops evs @ lock_ops ev"
  by (simp add: all_lock_ops_def)

text \<open>The state of the library in the middle of an execution.\<close>

definition following :: "libc_env \<Rightarrow> racez_flags \<Rightarrow> buffer_state \<Rightarrow> (int \<times> call) list \<Rightarrow> nat \<Rightarrow> runtime \<Rightarrow> bool" where
  "following libc fl b past k rt \<longleftrightarrow> on libc rt \<and> logging k rt \<and> runtime_ok rt \<and> rt_flags rt = fl \<and>
     rt_type rt = PFMLIB_AMD64_PMU \<and> same_file b (rt_buffer rt) \<and>
     rfold (mutex_event (map_option snd (fresh_lockset libc))) (all_lock_ops past) init_tls = Inr (rt_tls rt) \<and>
     (\<forall>t. attached past t \<longrightarrow> map_of (tid_fd_map rt) t \<noteq> None)"

definition allowed :: "(int \<times> call) list \<Rightarrow> int \<times> call \<Rightarrow> bool" where
  "allowed past ev \<longleftrightarrow> possible past ev \<and> (\<forall>t. within 10 (thread_ops t (all_lock_ops past)))"

text \<open>The locks in the lockset of a thread are those it holds.\<close>

lemma tracked_held:
  assumes "libc_ok libc" and "rfold (mutex_event (map_option snd (fresh_lockset libc))) (all_lock_ops past) init_tls = Inr st"
    and "within 10 (thread_ops tid (all_lock_ops past))"
  shows "tracked_locks (GetPerThreadLockset tid st) = held past tid"
proof -
  obtain junk where junk: "map_option snd (fresh_lockset libc) = Some junk" "length junk = 10"
    using assms(1) by (auto simp: libc_ok_def)
  let ?ops = "thread_ops tid (all_lock_ops past)"
  have run: "rfold (track_step lockset_add lockset_remove) ?ops (empty_lockset junk) = Inr (lockset_of junk st tid)"
      and none: "GetPerThreadLockset tid st = None \<longleftrightarrow> ?ops = []"
    using interleaved_locksets [OF junk(2), of "all_lock_ops past"] assms(2) junk(1) by auto
  have "recorded (lockset_of junk st tid) = held_after ?ops"
    using lt.run_spec [of "empty_lockset junk" ?ops] lockset_ok_empty [OF junk(2)] run assms(3) by auto
  then show ?thesis
    using none by (cases "GetPerThreadLockset tid st") (auto simp: tracked_locks_def held_def lockset_of_def recorded_def held_after_def
        simp flip: set_mset_mset)
qed

lemma perform_lib_step:
  assumes "perform libc ev rt = Inr rt'" and "possible past ev" and "\<forall>t. attached past t \<longrightarrow> map_of (tid_fd_map rt) t \<noteq> None"
  shows "lib_step libc rt rt'"
proof -
  obtain tid c where ev: "ev = (tid, c)" by fastforce
  show ?thesis
    using assms unfolding ev
    by (cases c) (auto simp: attach_works_def intro: lib_step.intros)
qed

lemma following_moved:
  assumes "following libc fl b past j rt" and "perform libc (tid, c) rt = Inr rt'" and "possible past (tid, c)"
    and "moved libc k (lock_ops (tid, c)) obs rt (rt'\<lparr>tid_fd_map := tid_fd_map rt\<rparr>)"
    and "\<And>t. attached (past @ [(tid, c)]) t \<Longrightarrow> map_of (tid_fd_map rt') t \<noteq> None"
  shows "following libc fl b (past @ [(tid, c)]) k rt' \<and> observed rt' = observed rt @ obs"
proof -
  have "runtime_ok rt'"
    using lib_step_ok [OF _ perform_lib_step [OF assms(2,3)]] assms(1) by (simp add: following_def on_def)
  then show ?thesis
    using assms(1,4,5)
    by (auto simp: following_def moved_def on_def all_lock_ops_snoc rfold_append intro: same_file_trans)
qed

text \<open>Calls other than attaching leave the map of threads alone.\<close>

lemma following_step:
  assumes "following libc fl b past j rt" and "perform libc (tid, c) rt = Inr rt'" and "possible past (tid, c)"
    and "moved libc k (lock_ops (tid, c)) obs rt rt'" and "\<And>env. c \<noteq> Attach env"
  shows "\<exists>rt'. perform libc (tid, c) rt = Inr rt' \<and> following libc fl b (past @ [(tid, c)]) k rt' \<and> observed rt' = observed rt @ obs"
proof -
  have "rt'\<lparr>tid_fd_map := tid_fd_map rt\<rparr> = rt'" using assms(4) by (cases rt') (simp add: moved_def)
  moreover have "map_of (tid_fd_map rt') t \<noteq> None" if "attached (past @ [(tid, c)]) t" for t
  proof -
    have "attached past t" using that assms(5) by (auto simp: attached_def)
    moreover have "tid_fd_map rt' = tid_fd_map rt" using assms(4) by (simp add: moved_def)
    ultimately show ?thesis using assms(1) by (simp add: following_def)
  qed
  ultimately show ?thesis using following_moved [OF assms(1-3), of k obs] assms(2,4) by auto
qed

lemma attach_step:
  assumes "following libc fl b past (cost fl (Attach env) + k) rt" and "possible past (tid, Attach env)"
  shows "\<exists>rt'. perform libc (tid, Attach env) rt = Inr rt' \<and> following libc fl b (past @ [(tid, Attach env)]) k rt' \<and> observed rt' = observed rt"
proof -
  have f: "on libc rt" "locksets_ok (rt_tls rt)" "logging (alloc_cost rt + (alloc_cost rt + k)) rt" "rt_type rt = PFMLIB_AMD64_PMU"
      "sorted_keys (tid_fd_map rt)" "\<And>t. attached past t \<Longrightarrow> map_of (tid_fd_map rt) t \<noteq> None"
    using assms(1) by (auto simp: following_def runtime_ok_def map_ok_def)
  obtain x rt' where a: "pmu_profiler_perthread_attach libc env tid rt = Inr (x, rt')"
      "tid_fd_map rt' = map_assign tid (context_fd env) (tid_fd_map rt)"
      "moved libc k (lock_ops (tid, Attach env)) [] rt (rt'\<lparr>tid_fd_map := tid_fd_map rt\<rparr>)"
    using attach_moved [OF f(1-4), of env tid] assms(2) by auto
  have "map_of (tid_fd_map rt') t \<noteq> None" if "attached (past @ [(tid, Attach env)]) t" for t
    using that f(5,6) a(2) by (auto simp: attached_def container_simps)
  with following_moved [OF assms(1) _ assms(2) a(3)] a(1) show ?thesis by simp
qed

lemma overflow_step:
  assumes "following libc fl b past (cost fl (Overflow env) + k) rt" and "allowed past (tid, Overflow env)"
  shows "\<exists>rt'. perform libc (tid, Overflow env) rt = Inr rt' \<and> following libc fl b (past @ [(tid, Overflow env)]) k rt' \<and>
    observed rt' = observed rt @ seen past (tid, Overflow env)"
proof -
  obtain fd where "map_of (tid_fd_map rt) tid = Some fd" using assms by (auto simp: following_def allowed_def)
  moreover have "tracked_locks (GetPerThreadLockset tid (rt_tls rt)) = held past tid"
    using assms by (intro tracked_held [of libc]) (auto simp: following_def allowed_def on_def)
  ultimately obtain rt' where "signal_handler env tid rt = Inr rt'" "moved libc k [] (seen past (tid, Overflow env)) rt rt'"
    using overflow_moved [of k rt env tid fd past libc] assms by (auto simp: following_def allowed_def)
  then show ?thesis using assms by (intro following_step [OF assms(1)]) (simp_all add: allowed_def)
qed

lemma perform_spec:
  assumes "following libc fl b past (cost fl c + k) rt" and "allowed past (tid, c)"
  shows "\<exists>rt'. perform libc (tid, c) rt = Inr rt' \<and> following libc fl b (past @ [(tid, c)]) k rt' \<and>
    observed rt' = observed rt @ seen past (tid, c)"
proof -
  have f: "on libc rt" "locksets_ok (rt_tls rt)" "rt_flags rt = fl" "logging (cost fl c + k) rt" "possible past (tid, c)"
    using assms by (auto simp: following_def runtime_ok_def allowed_def)
  have quiet: ?thesis
    if q: "\<exists>rt'. perform libc (tid, c) rt = Inr rt' \<and> moved libc k (lock_ops (tid, c)) [] rt rt'"
      and "\<And>env. c \<noteq> Attach env" "seen past (tid, c) = []"
  proof -
    obtain rt' where "perform libc (tid, c) rt = Inr rt'" "moved libc k (lock_ops (tid, c)) [] rt rt'" using q by blast
    from following_step [OF assms(1) this(1) f(5) this(2)] that(2,3) show ?thesis by simp
  qed
  show ?thesis
  proof (cases c)
    case (Lock m)
    with mutex_call_moved(1) [OF f(1,2), of k tid m] f(3,4) show ?thesis by (intro quiet) (auto simp: seen_def)
  next
    case (Unlock m)
    with mutex_call_moved(2) [OF f(1,2), of k tid m] f(3,4) show ?thesis by (intro quiet) (auto simp: seen_def)
  next
    case (Wait cv m)
    with cond_moved(1) [OF f(1), of k tid cv m] f(3,4) show ?thesis by (intro quiet) (auto simp: seen_def)
  next
    case (Signal cv)
    with cond_moved(2) [OF f(1), of k tid cv] f(3,4) show ?thesis by (intro quiet) (auto simp: seen_def)
  next
    case (Malloc sz p)
    with malloc_moved [OF f(1), of k tid sz p] f(3,4) show ?thesis by (intro quiet) (auto simp: seen_def)
  next
    case (Free p)
    with free_moved [OF f(1), of k tid p] f(3,4) show ?thesis by (intro quiet) (auto simp: seen_def)
  next
    case (Create p)
    with create_moved [OF f(1), of k p tid] f(3-5) show ?thesis by (intro quiet) (auto simp: seen_def)
  next
    case (Attach env)
    with attach_step [of libc fl b past env k rt tid] assms f(5) show ?thesis by (simp add: seen_def)
  next
    case (Overflow env)
    with overflow_step [of libc fl b past env k rt tid] assms show ?thesis by simp
  qed
qed

interpretation prof: observer "perform libc" "following libc fl b" allowed "cost fl \<circ> snd" observed seen for libc fl b
  by unfold_locales (auto dest: perform_spec)

section \<open>From the start to the verdict\<close>

text \<open>
  The profiler comes up on an AMD machine, where the counters give the address of the access (on
  Intel machines the raw log has no addresses), tracking locks and writing records. The value that
  \<open>pmu_profiler_start\<close> returns is indeterminate (the function ends without \<open>return\<close>); here
  it happens to be taken as true, since otherwise \<open>racez_start\<close> does not switch the profiler on.
  The first entry of the buffer, which nobody writes, does not look like a memory access.
\<close>

definition profiling_flags :: "libc_env \<Rightarrow> racez_flags" where
  "profiling_flags libc = (preload_init libc default_flags)\<lparr>racez_enable := 1\<rparr>"

definition start_works :: "libc_env \<Rightarrow> start_env \<Rightarrow> bool" where
  "start_works libc env \<longleftrightarrow> libc_ok libc \<and> block_ok env \<and> start_initialized env \<and> start_type env = PFMLIB_AMD64_PMU \<and>
     header_allocated (start_buffer env) \<and> 0 \<le> opened_fd (start_buffer env) \<and> start_fall_off env \<and>
     (case block_contents (start_buffer env) of None \<Rightarrow> False | Some junk \<Rightarrow> record_type (junk 0) \<noteq> MEMORY_OP) \<and>
     racez_lockset (profiling_flags libc) \<noteq> 0 \<and> racez_write_record (profiling_flags libc) \<noteq> 0"

lemma start_run:
  assumes "start_works libc env" and "int k < BUFFERSIZE"
  shows "\<exists>rt r. racez_start libc env init_runtime = Inr rt \<and> following libc (profiling_flags libc) (rt_buffer rt) [] k rt \<and>
    observed rt = [] \<and> written_out (rt_buffer rt) = [] \<and> front (rt_buffer rt) = Some r \<and> record_type r \<noteq> MEMORY_OP"
proof -
  obtain junk where junk: "block_contents (start_buffer env) = Some junk" "record_type (junk 0) \<noteq> MEMORY_OP" "\<forall>i. layout_ok (junk i)"
    using assms(1) by (auto simp: start_works_def block_ok_def split: option.splits)
  let ?bd = "\<lparr>bd_global = 0, bd_start = junk, bd_fd = opened_fd (start_buffer env)\<rparr>"
  let ?b = "\<lparr>global_buffer = Some ?bd, written_out = []\<rparr>"
  define rt where "rt = init_runtime\<lparr>rt_flags := profiling_flags libc, rt_initialized := True, rt_type := PFMLIB_AMD64_PMU,
    rt_buffer := ?b, sigio_action := (if start_sigaction env then Call_handler else Default_action), sig_enable := start_sigaction env\<rparr>"
  have run: "racez_start libc env init_runtime = Inr rt"
    using assms(1) junk(1)
    by (cases "start_sigaction env")
      (simp_all add: racez_start_def pmu_profiler_start_def require_def start_works_def once_init_def init_runtime_def InitBuffer_def
        init_buffer_state_def setup_signal_handler_def set_enable_def profiling_flags_def preload_init_def default_flags_def rt_def)
  have rt: "racez_start libc env init_runtime = Inr rt" "rt_flags rt = profiling_flags libc" "rt_initialized rt"
      "rt_buffer rt = ?b" "rt_type rt = PFMLIB_AMD64_PMU" "rt_tls rt = init_tls"
    by (rule run) (simp_all add: rt_def init_runtime_def)
  have "on libc rt" using assms(1) rt(2,3) by (simp add: on_def start_works_def profiling_flags_def)
  moreover have "logging k rt" using assms rt(2,4) junk(3) by (simp add: logging_def buffer_ok_def buffer_room_def BUFFERSIZE_def start_works_def)
  moreover have "runtime_ok rt" using racez_start_ok [OF init_runtime_ok _ rt(1)] assms(1) by (simp add: start_works_def)
  ultimately show ?thesis
    using rt junk(2)
    by (auto simp: following_def observed_def logged_def buffer_contents_def front_def same_file_def all_lock_ops_def attached_def)
qed

lemma racy_views: "racy h \<longleftrightarrow> unprotected (map view h)"
  unfolding racy_def unprotected_def shared_def written_def candidate_def threads_of_def by (auto simp: view_def)

text \<open>The exception of the detector: the last access is the first one of a third thread.\<close>

definition settled :: "(int \<times> int \<times> ptr set) list \<Rightarrow> bool" where
  "settled h \<longleftrightarrow> card (threads_of h) \<le> 2 \<or> h \<noteq> [] \<and> fst (last h) \<in> threads_of (butlast h)"

lemma settled_reported:
  assumes "racy h" and "settled (map view h)"
  shows "reported h"
proof -
  obtain h' r where h: "h = h' @ [r]" using assms(1) by (cases h rule: rev_cases) (auto simp: racy_def shared_def)
  have th: "threads_of (map view h) = insert (thread_id r) (thread_id ` set h')" "threads_of (map view h') = thread_id ` set h'"
    by (auto simp: threads_of_def view_def h image_iff)
  have "thread_id r \<in> thread_id ` set h'" if sh: "shared h'"
  proof (rule ccontr)
    assume n: "thread_id r \<notin> thread_id ` set h'"
    then have "card (insert (thread_id r) (thread_id ` set h')) \<le> 2"
      using assms(2) th by (auto simp: settled_def h view_def)
    then have "card (thread_id ` set h') \<le> 1" using n by simp
    moreover obtain t u where "t \<in> thread_id ` set h'" "u \<in> thread_id ` set h'" "t \<noteq> u" using sh by (auto simp: shared_def)
    ultimately show False by (metis List.finite_set card_le_Suc0_iff_eq finite_imageI One_nat_def)
  qed
  then have "looks h' r" by (auto simp: looks_def)
  with assms(1) show ?thesis by (simp add: h reported_snoc)
qed

lemma observed_accesses: "map view (accesses (logged rt) a) = accesses_to a (observed rt)"
  by (simp add: accesses_def accesses_to_def observed_def filter_map comp_def conj_commute)

lemma within_prefix: "within c (xs @ ys) \<Longrightarrow> within c xs"
proof (induction ys rule: rev_induct)
  case (snoc y ys)
  then show ?case by (simp add: within_snoc flip: append_assoc)
qed simp

lemma all_allowed:
  assumes "each possible past evs" and "\<forall>t. within 10 (thread_ops t (all_lock_ops (past @ evs)))"
  shows "each allowed past evs"
  using assms
proof (induction evs arbitrary: past)
  case (Cons e evs)
  have "within 10 (thread_ops t (all_lock_ops past))" for t
    using Cons.prems(2) within_prefix by (fastforce simp: all_lock_ops_def thread_ops_def)
  with Cons show ?case by (simp add: allowed_def)
qed simp

lemma execution_run:
  assumes "start_works libc tenv" and "each possible [] evs" and "\<forall>t. within 10 (thread_ops t (all_lock_ops evs))"
    and "int (total_cost (profiling_flags libc) evs) < BUFFERSIZE"
  obtains rt0 rt1 bd where "racez_start libc tenv init_runtime = Inr rt0" "rfold (perform libc) evs rt0 = Inr rt1"
    "runtime_ok rt1" "racez_enable (rt_flags rt1) = 1" "written_out (rt_buffer rt1) = []"
    "global_buffer (rt_buffer rt1) = Some bd" "bd_global bd < BUFFERSIZE" "record_type (bd_start bd 0) \<noteq> MEMORY_OP"
    "\<And>a. map view (accesses (map (bd_start bd) [1..bd_global bd]) a) = accesses_to a (sampled_accesses evs)"
proof -
  let ?fl = "profiling_flags libc"
  obtain rt0 r where rt0: "racez_start libc tenv init_runtime = Inr rt0" "following libc ?fl (rt_buffer rt0) [] (total_cost ?fl evs) rt0"
      "observed rt0 = []" "written_out (rt_buffer rt0) = []" "front (rt_buffer rt0) = Some r" "record_type r \<noteq> MEMORY_OP"
    using start_run [OF assms(1,4)] by blast
  have "each allowed [] evs" using assms(2,3) by (intro all_allowed) simp_all
  then obtain rt1 where rt1: "rfold (perform libc) evs rt0 = Inr rt1" "following libc ?fl (rt_buffer rt0) evs 0 rt1"
      "observed rt1 = sampled_accesses evs"
    using prof.run_observed [of libc ?fl "rt_buffer rt0" "[]" evs 0 rt0] rt0(2,3) by (auto simp: total_cost_def sampled_accesses_def)
  obtain bd where bd: "global_buffer (rt_buffer rt1) = Some bd" "bd_global bd < BUFFERSIZE"
    using rt1(2) by (auto simp: following_def logging_def buffer_ok_def split: option.splits)
  then have "logged rt1 = map (bd_start bd) [1..bd_global bd]" by (simp add: logged_def buffer_contents_def)
  moreover have "front (rt_buffer rt1) = Some r" "written_out (rt_buffer rt1) = []"
    using rt1(2) rt0(4,5) by (simp_all add: following_def same_file_def)
  ultimately show ?thesis
    using that [OF rt0(1) rt1(1), of bd] rt1(2,3) bd rt0(6) observed_accesses [of rt1]
    by (auto simp: following_def on_def front_def)
qed

lemma execution_verdict:
  assumes "start_works libc tenv" and "each possible [] evs" and "\<forall>t. within 10 (thread_ops t (all_lock_ops evs))"
    and "int (total_cost (profiling_flags libc) evs) < BUFFERSIZE" and "stop_writes senv = (\<lambda>_. True)"
    and "\<not> enable_memory_reuse cfg" and "addr2line_ok cfg"
  shows "\<exists>rt0 rt1 rt2 d. racez_start libc tenv init_runtime = Inr rt0 \<and> rfold (perform libc) evs rt0 = Inr rt1 \<and>
    racez_stop libc senv tid rt1 = Inr rt2 \<and> detect_main cfg (map snd (written_out (rt_buffer rt2))) None = Inr d \<and>
    (\<forall>a. (map_of (rw_map d) a = Some 4 \<longrightarrow> unprotected (accesses_to a (sampled_accesses evs))) \<and>
         (unprotected (accesses_to a (sampled_accesses evs)) \<and> settled (accesses_to a (sampled_accesses evs)) \<longrightarrow>
          map_of (rw_map d) a = Some 4))"
proof -
  obtain rt0 rt1 bd where run: "racez_start libc tenv init_runtime = Inr rt0" "rfold (perform libc) evs rt0 = Inr rt1"
    "runtime_ok rt1" "racez_enable (rt_flags rt1) = 1" "written_out (rt_buffer rt1) = []"
    "global_buffer (rt_buffer rt1) = Some bd" "bd_global bd < BUFFERSIZE" "record_type (bd_start bd 0) \<noteq> MEMORY_OP"
    "\<And>a. map view (accesses (map (bd_start bd) [1..bd_global bd]) a) = accesses_to a (sampled_accesses evs)"
    using execution_run [OF assms(1-4)] by blast
  have "libc_ok libc" using assms(1) by (simp add: start_works_def)
  from stop_and_detect [OF run(3) this run(4,6,7) assms(5) run(8) assms(6,7), of tid] obtain rt2 d
    where d: "racez_stop libc senv tid rt1 = Inr rt2" "detect_main cfg (map snd (written_out (rt_buffer rt2))) None = Inr d"
      "\<And>a. map_of (rw_map d) a = Some 4 \<longleftrightarrow> reported (accesses (map (bd_start bd) [1..bd_global bd]) a)"
    using run(5) by auto
  have "(map_of (rw_map d) a = Some 4 \<longrightarrow> unprotected (accesses_to a (sampled_accesses evs))) \<and>
      (unprotected (accesses_to a (sampled_accesses evs)) \<and> settled (accesses_to a (sampled_accesses evs)) \<longrightarrow>
       map_of (rw_map d) a = Some 4)" for a
    using reported_racy settled_reported racy_views run(9) [of a] d(3) [of a] by metis
  with run(1,2) d(1,2) show ?thesis by blast
qed

text \<open>C1: The verdict of the whole system on an execution, on an AMD machine with instruction-based
  sampling (on Intel machines the raw log holds no addresses, and the detector reports nothing from
  it alone). The execution starts with \<open>racez_start\<close>, as the first call into the library, whose
  indeterminate return value happens to be taken as true, with lock tracking and record writing
  on; the functions that the library looks up are found, the calls to
  the kernel and to libpfm succeed, memory can be allocated, and the entry of the buffer that nobody writes does not look
  like a memory access. After that, threads call into the library in any order: they lock and
  unlock, wait, allocate, create threads, attach, and an attached thread is interrupted by the
  counters at any point between calls. As long as no thread holds more than ten locks and the
  records fit the buffer, every call succeeds, stopping writes the log, and the detector, run without
  the reuse filter (no \<open>-m\<close>), comes to its end. What it reports was sampled in two threads, one
  of them writing, without a lock that was held at all the sampled accesses; and each such location
  is reported, unless its last sampled access is the first one of a third or further thread.\<close>

theorem verdict_on_executions:
  assumes "start_works libc tenv" and "each possible [] evs" and "\<forall>t. within 10 (thread_ops t (all_lock_ops evs))"
    and "int (total_cost (profiling_flags libc) evs) < BUFFERSIZE" and "stop_writes senv = (\<lambda>_. True)"
    and "\<not> enable_memory_reuse cfg" and "addr2line_ok cfg"
  shows "\<exists>rt0 rt1 rt2 d. racez_start libc tenv init_runtime = Inr rt0 \<and> rfold (perform libc) evs rt0 = Inr rt1 \<and>
    racez_stop libc senv tid rt1 = Inr rt2 \<and> detect_main cfg (map snd (written_out (rt_buffer rt2))) None = Inr d \<and>
    (\<forall>a. (map_of (rw_map d) a = Some 4 \<longrightarrow> unprotected (accesses_to a (sampled_accesses evs))) \<and>
         (unprotected (accesses_to a (sampled_accesses evs)) \<and> settled (accesses_to a (sampled_accesses evs)) \<longrightarrow>
          map_of (rw_map d) a = Some 4))"
  using assms by (rule execution_verdict)

definition example_evs :: "(int \<times> call) list" where
  "example_evs =
     [(1, Create 4096), (11, Attach example_attach), (12, Attach example_attach), (11, Lock 5), (11, Overflow example_signal),
      (11, Unlock 5), (12, Overflow example_signal)]"

lemma example_evs_possible: "each possible [] example_evs"
  by (auto simp: example_evs_def attached_def attach_works_def example_attach_def overflow_works_def example_signal_def)

lemma example_evs_within: "within 10 (thread_ops t (all_lock_ops example_evs))"
proof -
  let ?mm = "map_mutex example_attach"
  have "thread_ops t (all_lock_ops example_evs) =
      (if t = 11 then [Acquire ?mm, Release ?mm, Acquire 5, Release 5] else if t = 12 then [Acquire ?mm, Release ?mm] else [])"
    by (simp add: thread_ops_def all_lock_ops_def example_evs_def)
  then show ?thesis by (simp add: within_def held_after_def upt_rec)
qed

lemma example_start_works: "start_works example_libc example_start"
proof -
  have "racez_lockset (profiling_flags example_libc) \<noteq> 0" "racez_write_record (profiling_flags example_libc) \<noteq> 0" by code_simp+
  then show ?thesis
    using example_libc_ok example_block_ok by (simp add: start_works_def example_start_def zero_record_def)
qed

theorem verdict_on_executions_witness:
  "\<exists>rt0 rt1 rt2 d. racez_start example_libc example_start init_runtime = Inr rt0 \<and> rfold (perform example_libc) example_evs rt0 = Inr rt1 \<and>
     racez_stop example_libc example_stop 1 rt1 = Inr rt2 \<and>
     detect_main (example_config False) (map snd (written_out (rt_buffer rt2))) None = Inr d \<and> map_of (rw_map d) 64 = Some 4"
proof -
  have "int (total_cost (profiling_flags example_libc) example_evs) < BUFFERSIZE"
    by (simp add: total_cost_def example_evs_def BUFFERSIZE_def)
  moreover have "accesses_to 64 (sampled_accesses example_evs) = [(11, 1, {5}), (12, 1, {})]"
    by (simp add: accesses_to_def sampled_accesses_def example_evs_def seen_def caught_def example_signal_def held_def
        held_after_def thread_ops_def all_lock_ops_def bit_numeral_simps)
  then have "unprotected (accesses_to 64 (sampled_accesses example_evs))" "settled (accesses_to 64 (sampled_accesses example_evs))"
    by (auto simp: unprotected_def threads_of_def settled_def)
  moreover have "stop_writes example_stop = (\<lambda>_. True)" by (simp add: example_stop_def)
  ultimately show ?thesis
    using verdict_on_executions [OF example_start_works example_evs_possible _ _ _ no_reuse_example addr2line_ok_example, of example_stop 1]
      example_evs_within by blast
qed

end
