(* ===== verification/Benchmark_Test.thy ===== *)
theory Benchmark_Test
  imports Execution_Properties
begin

text \<open>
  The test program benchmarks/test/test-1.c, which has a race on the variable \<open>global\<close>: one thread
  locks a mutex now and then, but not where it writes the variable, the other one never locks.
  A thread is the sequence of its accesses to memory and its calls into the library, in the order
  of the statements, each function storing its parameter first, as code that is not optimised does;
  addresses of local variables, of blocks and of the mutex are parameters.
\<close>

section \<open>The program\<close>

datatype test_step = Reads ptr | Writes ptr | Calls call

text \<open>The address of a local variable, by function and name.\<close>

type_synonym frame = "string \<Rightarrow> string \<Rightarrow> ptr"

definition N :: nat where
  "N = 2"

definition M :: nat where
  "M = 10000"

text \<open>The statement \<open>sum = sum + j\<close>.\<close>

definition add_j :: "frame \<Rightarrow> string \<Rightarrow> test_step list" where
  "add_j fr f = [Reads (fr f ''sum''), Reads (fr f ''j''), Writes (fr f ''sum'')]"

definition foo_body :: "frame \<Rightarrow> ptr \<Rightarrow> nat \<Rightarrow> test_step list" where
  "foo_body fr mutex j =
     [Reads (fr ''foo'' ''j''), Reads (fr ''foo'' ''j'')] @
     (if j mod 100 = 0 then [Calls (Lock mutex)] else []) @
     concat (replicate 7 (add_j fr ''foo'')) @
     [Reads (fr ''foo'' ''j'')] @
     (if j mod 100 = 0 then [Calls (Unlock mutex)] else []) @
     [Reads (fr ''foo'' ''j''), Writes (fr ''foo'' ''j'')]"

definition foo :: "frame \<Rightarrow> ptr \<Rightarrow> ptr \<Rightarrow> test_step list" where
  "foo fr mutex q =
     [Writes (fr ''foo'' ''p'')] @
     map (\<lambda>x. Writes (fr ''foo'' x)) [''j'', ''i'', ''sum'', ''tid''] @
     [Calls (Malloc 1000 q), Writes (fr ''foo'' ''q''), Writes (fr ''foo'' ''j'')] @
     concat (map (foo_body fr mutex) [0..<6000]) @
     [Reads (fr ''foo'' ''j''), Reads (fr ''foo'' ''q''), Calls (Free q)]"

text \<open>The loop of \<open>foo_2\<close> and \<open>bar_2\<close> around the call with the given steps.\<close>

definition writer_body :: "frame \<Rightarrow> string \<Rightarrow> ptr \<Rightarrow> test_step list \<Rightarrow> test_step list" where
  "writer_body fr f p callee =
     [Reads (fr f ''i''), Reads (fr f ''p'')] @ callee @ [Reads (fr f ''p''), Writes p, Reads (fr f ''i''), Writes (fr f ''i'')]"

definition foo_2 :: "frame \<Rightarrow> ptr \<Rightarrow> (nat \<Rightarrow> ptr) \<Rightarrow> ptr \<Rightarrow> test_step list" where
  "foo_2 fr mutex qs p =
     [Writes (fr ''foo_2'' ''p''), Writes (fr ''foo_2'' ''i''), Writes (fr ''foo_2'' ''i'')] @
     concat (map (\<lambda>i. writer_body fr ''foo_2'' p (foo fr mutex (qs i))) [0..<M]) @ [Reads (fr ''foo_2'' ''i'')]"

definition foo_1 :: "frame \<Rightarrow> ptr \<Rightarrow> (nat \<Rightarrow> ptr) \<Rightarrow> ptr \<Rightarrow> test_step list" where
  "foo_1 fr mutex qs p = Writes (fr ''foo_1'' ''p'') # Reads (fr ''foo_1'' ''p'') # foo_2 fr mutex qs p"

definition foo_0 :: "frame \<Rightarrow> ptr \<Rightarrow> (nat \<Rightarrow> ptr) \<Rightarrow> ptr \<Rightarrow> test_step list" where
  "foo_0 fr mutex qs p = Writes (fr ''foo_0'' ''p'') # Reads (fr ''foo_0'' ''p'') # foo_1 fr mutex qs p"

definition bar_body :: "frame \<Rightarrow> test_step list" where
  "bar_body fr = [Reads (fr ''bar'' ''j'')] @ concat (replicate 7 (add_j fr ''bar'')) @ [Reads (fr ''bar'' ''j''), Writes (fr ''bar'' ''j'')]"

definition bar :: "frame \<Rightarrow> ptr \<Rightarrow> test_step list" where
  "bar fr q =
     [Writes (fr ''bar'' ''p'')] @
     map (\<lambda>x. Writes (fr ''bar'' x)) [''j'', ''i'', ''sum'', ''tid''] @
     [Calls (Malloc 1000 q), Writes (fr ''bar'' ''q''), Writes (fr ''bar'' ''j'')] @
     concat (replicate 20000 (bar_body fr)) @
     [Reads (fr ''bar'' ''j''), Reads (fr ''bar'' ''q''), Calls (Free q)]"

definition bar_2 :: "frame \<Rightarrow> (nat \<Rightarrow> ptr) \<Rightarrow> ptr \<Rightarrow> test_step list" where
  "bar_2 fr qs p =
     [Writes (fr ''bar_2'' ''p''), Writes (fr ''bar_2'' ''i''), Writes (fr ''bar_2'' ''i'')] @
     concat (map (\<lambda>i. writer_body fr ''bar_2'' p (bar fr (qs i))) [0..<M]) @ [Reads (fr ''bar_2'' ''i'')]"

definition bar_1 :: "frame \<Rightarrow> (nat \<Rightarrow> ptr) \<Rightarrow> ptr \<Rightarrow> test_step list" where
  "bar_1 fr qs p = Writes (fr ''bar_1'' ''p'') # Reads (fr ''bar_1'' ''p'') # bar_2 fr qs p"

definition bar_0 :: "frame \<Rightarrow> (nat \<Rightarrow> ptr) \<Rightarrow> ptr \<Rightarrow> test_step list" where
  "bar_0 fr qs p = Writes (fr ''bar_0'' ''p'') # Reads (fr ''bar_0'' ''p'') # bar_1 fr qs p"

text \<open>
  Between \<open>racez_start\<close> and \<open>racez_stop\<close>, \<open>main\<close> creates the threads and waits for them. It is not
  attached itself, so that its own accesses are not sampled and are left out. The library attaches
  a thread before it runs the start routine.
\<close>

record test_env =
  main_tid :: int
  foo_tid :: int
  bar_tid :: int
  global_var :: ptr
  mutex_var :: ptr
  foo_frame :: frame
  bar_frame :: frame
  foo_blocks :: "nat \<Rightarrow> ptr"
  bar_blocks :: "nat \<Rightarrow> ptr"
  foo_attach :: attach_env
  bar_attach :: attach_env
  thread_blocks :: "nat \<Rightarrow> ptr"

definition main_steps :: "test_env \<Rightarrow> test_step list" where
  "main_steps te = map (\<lambda>i. Calls (Create (thread_blocks te i))) [0..<N]"

definition thread_steps :: "test_env \<Rightarrow> nat \<Rightarrow> test_step list" where
  "thread_steps te i =
     (if i mod N = 0 then Calls (Attach (foo_attach te)) # foo_0 (foo_frame te) (mutex_var te) (foo_blocks te) (global_var te)
      else Calls (Attach (bar_attach te)) # bar_0 (bar_frame te) (bar_blocks te) (global_var te))"

definition steps_of :: "test_env \<Rightarrow> int \<Rightarrow> test_step list" where
  "steps_of te tid =
     (if tid = main_tid te then main_steps te else if tid = foo_tid te then thread_steps te 0
      else if tid = bar_tid te then thread_steps te 1 else [])"

section \<open>Schedules\<close>

text \<open>A schedule: which thread makes its next step, and the interrupt when the counters catch the step.\<close>

type_synonym slot = "int \<times> test_step \<times> signal_env option"

definition steps_in :: "int \<Rightarrow> slot list \<Rightarrow> test_step list" where
  "steps_in tid sched = map (\<lambda>(_, s, _). s) (filter (\<lambda>(t, _). t = tid) sched)"

fun happens :: "slot \<Rightarrow> (int \<times> call) list" where
  "happens (tid, Calls c, _) = [(tid, c)]"
| "happens (tid, _, None) = []"
| "happens (tid, _, Some env) = [(tid, Overflow env)]"

definition events :: "slot list \<Rightarrow> (int \<times> call) list" where
  "events sched = concat (map happens sched)"

text \<open>The counters see the access at which they interrupt.\<close>

fun catches :: "slot \<Rightarrow> bool" where
  "catches (tid, Reads a, Some env) = (overflow_works env \<and> caught (si_ibs env) = Some (a, 0))"
| "catches (tid, Writes a, Some env) = (overflow_works env \<and> caught (si_ibs env) = Some (a, 1))"
| "catches (tid, Calls c, Some env) = False"
| "catches (tid, _, None) = True"

definition schedule_of :: "test_env \<Rightarrow> slot list \<Rightarrow> bool" where
  "schedule_of te sched \<longleftrightarrow> (\<forall>tid. steps_in tid sched = steps_of te tid) \<and> list_all catches sched"

definition test_ok :: "test_env \<Rightarrow> bool" where
  "test_ok te \<longleftrightarrow> distinct [main_tid te, foo_tid te, bar_tid te] \<and> global_var te \<noteq> 0 \<and>
     (\<forall>f x. foo_frame te f x \<noteq> global_var te \<and> bar_frame te f x \<noteq> global_var te) \<and>
     attach_works (foo_attach te) \<and> attach_works (bar_attach te) \<and> (\<forall>i. thread_blocks te i \<noteq> 0)"

definition sampled_write :: "test_env \<Rightarrow> slot list \<Rightarrow> int \<Rightarrow> bool" where
  "sampled_write te sched tid \<longleftrightarrow> (\<exists>env. (tid, Writes (global_var te), Some env) \<in> set sched)"

section \<open>Facts about schedules\<close>

lemma steps_in_simps [simp]:
  "steps_in tid [] = []"
  "steps_in tid ((t, s, intr) # sched) = (if t = tid then s # steps_in tid sched else steps_in tid sched)"
  "steps_in tid (sched @ sched') = steps_in tid sched @ steps_in tid sched'"
  by (simp_all add: steps_in_def)

lemma events_simps [simp]: "events [] = []" "events (x # sched) = happens x @ events sched" "events (a @ b) = events a @ events b"
  by (simp_all add: events_def)

lemma happens_cases:
  obtains "happens x = []" | tid c intr where "x = (tid, Calls c, intr)" "happens x = [(tid, c)]"
  | tid s env where "x = (tid, s, Some env)" "happens x = [(tid, Overflow env)]" "\<And>c. s \<noteq> Calls c"
proof -
  obtain tid s intr where x: "x = (tid, s, intr)" by (cases x) auto
  show thesis using that by (cases s; cases intr) (auto simp: x)
qed

lemma events_split:
  "events sched = us @ e # vs \<Longrightarrow> \<exists>pre x post. sched = pre @ x # post \<and> us = events pre \<and> happens x = [e]"
proof (induction sched arbitrary: us)
  case (Cons x sched)
  have "happens x = [] \<or> (\<exists>e. happens x = [e])" by (rule happens_cases [of x]) auto
  then show ?case
  proof
    assume h: "happens x = []"
    then obtain pre y post where "sched = pre @ y # post" "us = events pre" "happens y = [e]" using Cons by auto
    with h show ?thesis by (intro exI [of _ "x # pre"] exI [of _ y] exI [of _ post]) simp
  next
    assume "\<exists>e. happens x = [e]"
    then obtain e' where h: "happens x = [e']" by blast
    show ?thesis
    proof (cases us)
      case Nil
      with h Cons.prems show ?thesis by (intro exI [of _ "[]"] exI [of _ x] exI [of _ sched]) simp
    next
      case (Cons u us')
      with h Cons.prems have "u = e'" "events sched = us' @ e # vs" by auto
      with Cons.IH obtain pre y post where "sched = pre @ y # post" "us' = events pre" "happens y = [e]" by blast
      with h Cons \<open>u = e'\<close> show ?thesis by (intro exI [of _ "x # pre"] exI [of _ y] exI [of _ post]) simp
    qed
  qed
qed simp

text \<open>The lock operations of a thread depend on its own steps only.\<close>

fun step_ops :: "test_step \<Rightarrow> lock_op list" where
  "step_ops (Calls c) = map snd (lock_ops (0, c))"
| "step_ops _ = []"

definition ops_of :: "test_step list \<Rightarrow> lock_op list" where
  "ops_of ss = concat (map step_ops ss)"

lemma ops_of_simps [simp]:
  "ops_of [] = []" "ops_of (s # ss) = step_ops s @ ops_of ss" "ops_of (a @ b) = ops_of a @ ops_of b"
  "ops_of (concat sss) = concat (map ops_of sss)"
  by (simp_all add: ops_of_def) (induction sss; simp add: ops_of_def)

lemma thread_ops_simps: "thread_ops t [] = []" "thread_ops t (a @ b) = thread_ops t a @ thread_ops t b"
  by (simp_all add: thread_ops_def)

lemma thread_ops_call: "thread_ops t (lock_ops (tid, c)) = (if t = tid then map snd (lock_ops (0, c)) else [])"
  by (cases c) (simp_all add: thread_ops_def)

lemma ops_of_events: "thread_ops t (all_lock_ops (events sched)) = ops_of (steps_in t sched)"
proof (induction sched)
  case (Cons x sched)
  obtain tid s intr where x: "x = (tid, s, intr)" by (cases x) auto
  have "thread_ops t (all_lock_ops (happens x)) = (if t = tid then step_ops s else [])"
    by (cases s; cases intr) (simp_all add: x all_lock_ops_def thread_ops_simps thread_ops_call)
  with Cons show ?case by (simp add: x all_lock_ops_def thread_ops_simps)
qed (simp add: all_lock_ops_def thread_ops_simps)

text \<open>Pairs of locking and unlocking.\<close>

fun balanced :: "lock_op list \<Rightarrow> bool" where
  "balanced [] = True"
| "balanced (Acquire m # Release n # ops) \<longleftrightarrow> m = n \<and> balanced ops"
| "balanced _ = False"

lemma balanced_append: "balanced xs \<Longrightarrow> balanced ys \<Longrightarrow> balanced (xs @ ys)"
  by (induction xs rule: balanced.induct) auto

lemma balanced_concat: "(\<And>xs. xs \<in> set xss \<Longrightarrow> balanced xs) \<Longrightarrow> balanced (concat xss)"
  by (induction xss) (auto intro: balanced_append)

lemma balanced_within: "balanced ops \<Longrightarrow> within 10 ops \<and> held_after ops = {#}"
proof (induction ops rule: balanced.induct)
  case (2 m n ops)
  have "held_after (Acquire m # Release m # xs) = held_after xs" for xs by (simp add: held_after_def)
  moreover have "within 10 (Acquire m # Release m # ops)"
    unfolding within_def list_all_iff
  proof
    fix k assume "k \<in> set [0..<Suc (length (Acquire m # Release m # ops))]"
    then have "k \<le> Suc (Suc (length ops))" by auto
    then consider "k = 0" | "k = 1" | j where "k = Suc (Suc j)" "j \<le> length ops"
      by (metis One_nat_def Suc_le_mono not0_implies_Suc)
    then show "size (held_after (take k (Acquire m # Release m # ops))) \<le> 10"
      using 2 by cases (auto simp: held_after_def within_def list_all_iff)
  qed
  ultimately show ?case using 2 by auto
qed (simp_all add: within_def held_after_def)

section \<open>The threads of the program\<close>

lemma add_j_ops [simp]: "ops_of (add_j fr f) = []"
  by (simp add: add_j_def)

lemma repeated_ops [simp]: "ops_of ss = [] \<Longrightarrow> concat (map ops_of (replicate k ss)) = []"
  by (induction k) simp_all

lemma foo_body_ops: "ops_of (foo_body fr mutex j) = (if j mod 100 = 0 then [Acquire mutex, Release mutex] else [])"
  unfolding foo_body_def ops_of_simps repeated_ops [OF add_j_ops] by simp

lemma foo_balanced: "balanced (ops_of (foo fr mutex q))"
proof -
  have "balanced (concat (map ops_of (map (foo_body fr mutex) js)))" for js
    by (rule balanced_concat) (auto simp: foo_body_ops)
  then show ?thesis unfolding foo_def ops_of_simps by simp
qed

lemma writer_body_ops: "ops_of (writer_body fr f p callee) = ops_of callee"
  by (simp add: writer_body_def)

lemma foo_0_balanced: "balanced (ops_of (foo_0 fr mutex qs p))"
proof -
  have "balanced (concat (map ops_of (map (\<lambda>i. writer_body fr f p (foo fr mutex (qs i))) is)))" for f "is"
    by (rule balanced_concat) (auto simp: writer_body_ops foo_balanced)
  then show ?thesis unfolding foo_0_def foo_1_def foo_2_def ops_of_simps by simp
qed

lemma bar_0_ops: "ops_of (bar_0 fr qs p) = []"
proof -
  have body: "ops_of (bar_body fr) = []" unfolding bar_body_def ops_of_simps repeated_ops [OF add_j_ops] by simp
  have bar: "ops_of (bar fr q) = []" for q unfolding bar_def ops_of_simps repeated_ops [OF body] by simp
  show ?thesis unfolding bar_0_def bar_1_def bar_2_def ops_of_simps by (simp add: writer_body_ops bar)
qed

lemma steps_balanced: "balanced (ops_of (steps_of te tid))"
proof -
  have "ops_of (main_steps te) = []" by (simp add: main_steps_def N_def numeral_eq_Suc)
  then show ?thesis by (simp add: steps_of_def thread_steps_def N_def foo_0_balanced bar_0_ops)
qed

lemma main_steps_calls: "s \<in> set (main_steps te) \<Longrightarrow> \<exists>p. s = Calls (Create p)"
  by (auto simp: main_steps_def)

lemma reads_local:
  assumes "\<And>f x. fr f x \<noteq> g"
  shows "Reads g \<notin> set (foo_0 fr mutex qs p)" and "Reads g \<notin> set (bar_0 fr qs p)"
proof -
  have add: "Reads g \<notin> set (add_j fr f)" for f using assms by (auto simp: add_j_def)
  then have "Reads g \<notin> set (foo_body fr mutex j)" "Reads g \<notin> set (bar_body fr)" for j
    using assms by (auto simp: foo_body_def bar_body_def split: if_splits)
  then have "Reads g \<notin> set (foo fr mutex q)" "Reads g \<notin> set (bar fr q)" for q
    using assms by (auto simp: foo_def bar_def)
  then show "Reads g \<notin> set (foo_0 fr mutex qs p)" "Reads g \<notin> set (bar_0 fr qs p)"
    using assms by (auto simp: foo_0_def foo_1_def foo_2_def bar_0_def bar_1_def bar_2_def writer_body_def)
qed

lemma steps_no_read: "test_ok te \<Longrightarrow> Reads (global_var te) \<notin> set (steps_of te tid)"
  using reads_local [of "foo_frame te" "global_var te"] reads_local [of "bar_frame te" "global_var te"]
  by (auto simp: test_ok_def steps_of_def thread_steps_def dest: main_steps_calls)

lemma in_steps_in: "s \<in> set (steps_in t sched) \<longleftrightarrow> (\<exists>intr. (t, s, intr) \<in> set sched)"
  by (force simp: steps_in_def)

lemma slot_step: "schedule_of te sched \<Longrightarrow> (t, s, intr) \<in> set sched \<Longrightarrow> s \<in> set (steps_of te t)"
  using in_steps_in [of s t sched] unfolding schedule_of_def by metis

lemma call_happens: "(t, Calls c, intr) \<in> set sched \<Longrightarrow> (t, c) \<in> set (events sched)"
  using split_list by fastforce

text \<open>The calls of the program: it can always make them, and they are logged only when the allocator is.\<close>

fun plain_call :: "call \<Rightarrow> bool" where
  "plain_call (Lock m) = True"
| "plain_call (Unlock m) = True"
| "plain_call (Malloc sz p) = True"
| "plain_call (Free p) = True"
| "plain_call _ = False"

lemma routine_calls:
  assumes "Calls c \<in> set (foo_0 fr mutex qs p) \<or> Calls c \<in> set (bar_0 fr qs p)"
  shows "plain_call c"
proof -
  have add: "Calls c \<notin> set (add_j fr f)" for f by (simp add: add_j_def)
  then have "Calls c \<in> set (foo_body fr mutex j) \<Longrightarrow> plain_call c" "Calls c \<notin> set (bar_body fr)" for j
    by (auto simp: foo_body_def bar_body_def split: if_splits)
  then have "Calls c \<in> set (foo fr mutex q) \<Longrightarrow> plain_call c" "Calls c \<in> set (bar fr q) \<Longrightarrow> plain_call c" for q
    by (auto simp: foo_def bar_def)
  with assms show ?thesis
    by (auto simp: foo_0_def foo_1_def foo_2_def bar_0_def bar_1_def bar_2_def writer_body_def split: if_splits)
qed

lemma step_calls:
  assumes "Calls c \<in> set (steps_of te tid)"
  shows "(\<exists>i. c = Create (thread_blocks te i)) \<or> c = Attach (foo_attach te) \<or> c = Attach (bar_attach te) \<or> plain_call c"
  using assms by (auto simp: steps_of_def thread_steps_def main_steps_def dest: routine_calls [OF disjI1] routine_calls [OF disjI2] split: if_splits)

lemma step_possible: "test_ok te \<Longrightarrow> Calls c \<in> set (steps_of te tid) \<Longrightarrow> possible us (tid, c)"
  using step_calls [of c te tid] by (cases c) (auto simp: test_ok_def)

lemma step_cost: "Calls c \<in> set (steps_of te tid) \<Longrightarrow> racez_memory_allocator fl = 0 \<Longrightarrow> cost fl c = 0"
  using step_calls [of c te tid] by (cases c) auto

text \<open>A sampled access: by one of the two threads, after it was attached.\<close>

lemma sampled_slot:
  assumes "schedule_of te (pre @ (t, s, Some env) # post)" and "test_ok te"
  shows "overflow_works env" and "\<exists>a wr. caught (si_ibs env) = Some (a, wr) \<and> (s = Reads a \<and> wr = 0 \<or> s = Writes a \<and> wr = 1)"
    and "attached (events pre) t" and "t = foo_tid te \<or> t = bar_tid te"
    and "t = bar_tid te \<Longrightarrow> held (events pre) t = {}"
proof -
  have c: "catches (t, s, Some env)" using assms(1) by (simp add: schedule_of_def)
  then show "overflow_works env" and "\<exists>a wr. caught (si_ibs env) = Some (a, wr) \<and> (s = Reads a \<and> wr = 0 \<or> s = Writes a \<and> wr = 1)"
    by (cases s; simp)+
  have nc: "s \<noteq> Calls x" for x using c by (cases s) auto
  have "steps_in t (pre @ (t, s, Some env) # post) = steps_of te t" using assms(1) unfolding schedule_of_def by blast
  then have steps: "steps_of te t = steps_in t pre @ s # steps_in t post" by simp
  have m: "t \<noteq> main_tid te" using steps nc main_steps_calls [of s te] by (auto simp: steps_of_def)
  then show t: "t = foo_tid te \<or> t = bar_tid te" using steps by (auto simp: steps_of_def split: if_splits)
  have d: "foo_tid te \<noteq> bar_tid te" using assms(2) by (simp add: test_ok_def)
  obtain e ss where e: "steps_of te t = Calls (Attach e) # ss" "t = bar_tid te \<Longrightarrow> ops_of ss = []"
  proof (cases "t = foo_tid te")
    case True
    with m d that show thesis by (simp add: steps_of_def thread_steps_def N_def)
  next
    case False
    with m t that show thesis by (simp add: steps_of_def thread_steps_def N_def bar_0_ops)
  qed
  then obtain rest where rest: "steps_in t pre = Calls (Attach e) # rest" "ss = rest @ s # steps_in t post"
    using steps nc by (cases "steps_in t pre") auto
  then have "Calls (Attach e) \<in> set (steps_in t pre)" by simp
  then obtain intr where "(t, Calls (Attach e), intr) \<in> set pre" unfolding in_steps_in by blast
  from call_happens [OF this] show "attached (events pre) t" unfolding attached_def by blast
  assume "t = bar_tid te"
  then have "ops_of rest = []" using e(2) rest(2) by simp
  then show "held (events pre) t = {}" by (simp add: held_def ops_of_events rest(1) held_after_def)
qed

section \<open>The verdict\<close>

lemma schedule_possible:
  assumes "schedule_of te sched" and "test_ok te"
  shows "each possible [] (events sched)"
  unfolding each_iff append_Nil
proof (intro allI impI)
  fix us e vs assume "events sched = us @ e # vs"
  then obtain pre x post where x: "sched = pre @ x # post" "us = events pre" "happens x = [e]" using events_split by blast
  show "possible us e"
  proof (rule happens_cases [of x])
    fix tid s env assume "x = (tid, s, Some env)" "happens x = [(tid, Overflow env)]"
    with x sampled_slot(1,3) [of te pre tid s env post] assms show ?thesis by simp
  next
    fix tid c intr assume c: "x = (tid, Calls c, intr)" "happens x = [(tid, c)]"
    then have "Calls c \<in> set (steps_of te tid)" using slot_step [OF assms(1), of tid _ intr] x(1) by simp
    from step_possible [OF assms(2) this, of us] show ?thesis using c x(3) by simp
  qed (use x in simp)
qed

lemma schedule_within: "schedule_of te sched \<Longrightarrow> within 10 (thread_ops t (all_lock_ops (events sched)))"
  using balanced_within [OF steps_balanced [of te t]] by (simp add: ops_of_events schedule_of_def)

text \<open>What the counters catch of the variable.\<close>

lemma global_accesses:
  assumes "schedule_of te sched" and "test_ok te"
  shows "x \<in> set (accesses_to (global_var te) (sampled_accesses (events sched))) \<longleftrightarrow>
    (\<exists>pre t env post. sched = pre @ (t, Writes (global_var te), Some env) # post \<and> x = (t, 1, held (events pre) t))"
    (is "?l \<longleftrightarrow> ?r")
proof
  assume ?l
  then obtain us e vs where e: "events sched = us @ e # vs" "(global_var te, x) \<in> set (seen us e)"
    by (auto simp: accesses_to_def sampled_accesses_def in_collect)
  then obtain pre y post where y: "sched = pre @ y # post" "us = events pre" "happens y = [e]" using events_split by blast
  obtain t env wr where c: "e = (t, Overflow env)" "caught (si_ibs env) = Some (global_var te, wr)" "x = (t, wr, held us t)"
    using e(2) by (cases e; cases "snd e") (auto simp: seen_def split: option.splits if_splits prod.splits, metis)
  from happens_cases [of y] show ?r
  proof cases
    case (2 tid c' intr)
    then have "Calls (Overflow env) \<in> set (steps_of te t)" using slot_step [OF assms(1), of t _ intr] y c(1) by simp
    from step_possible [OF assms(2) this, of "[]"] show ?thesis by (simp add: attached_def)
  next
    case (3 tid s env')
    then have y': "y = (t, s, Some env)" using y(3) c(1) by simp
    have "s \<in> set (steps_of te t)" using slot_step [OF assms(1), of t s "Some env"] y(1) y' by simp
    then have "s \<noteq> Reads (global_var te)" using steps_no_read [OF assms(2)] by auto
    then have "s = Writes (global_var te)" "wr = 1" using sampled_slot(2) [of te pre t s env post] assms y(1) y' c(2) by auto
    with y y' c(3) show ?thesis by blast
  qed (use y in simp)
next
  assume ?r
  then obtain pre t env post where y: "sched = pre @ (t, Writes (global_var te), Some env) # post" "x = (t, 1, held (events pre) t)"
    by blast
  then have "caught (si_ibs env) = Some (global_var te, 1)" using sampled_slot(2) [of te pre t _ env post] assms by auto
  then have "(global_var te, x) \<in> set (seen (events pre) (t, Overflow env))"
    using assms(2) by (simp add: seen_def y(2) test_ok_def)
  moreover have "events sched = events pre @ (t, Overflow env) # events post" by (simp add: y(1))
  ultimately have "(global_var te, x) \<in> set (sampled_accesses (events sched))"
    unfolding sampled_accesses_def in_collect by (metis append_Nil)
  then show ?l unfolding accesses_to_def by force
qed

lemma global_unprotected:
  assumes "schedule_of te sched" and "test_ok te"
  defines "h \<equiv> accesses_to (global_var te) (sampled_accesses (events sched))"
  shows "unprotected h \<longleftrightarrow> sampled_write te sched (foo_tid te) \<and> sampled_write te sched (bar_tid te)" and "settled h"
proof -
  note g = global_accesses [OF assms(1,2), folded h_def]
  have d: "foo_tid te \<noteq> bar_tid te" using assms(2) by (simp add: test_ok_def)
  have sampled: "sampled_write te sched t \<longleftrightarrow> t \<in> threads_of h" for t
    unfolding threads_of_def sampled_write_def image_iff Bex_def g by (auto dest: split_list) (metis in_set_conv_decomp)
  have entry: "t \<in> {foo_tid te, bar_tid te} \<and> wr = 1 \<and> (t = bar_tid te \<longrightarrow> ls = {})" if e: "(t, wr, ls) \<in> set h" for t wr ls
    using e sampled_slot(4,5) assms(1,2) unfolding g by blast
  have sub: "threads_of h \<subseteq> {foo_tid te, bar_tid te}" using entry by (fastforce simp: threads_of_def)
  have "card {foo_tid te, bar_tid te} \<le> 2" by (simp add: card_insert_le_m1)
  then show "settled h" using card_mono [OF _ sub] by (simp add: settled_def)
  show "unprotected h \<longleftrightarrow> sampled_write te sched (foo_tid te) \<and> sampled_write te sched (bar_tid te)"
  proof
    assume "unprotected h"
    then obtain t u where "t \<in> threads_of h" "u \<in> threads_of h" "t \<noteq> u" by (auto simp: unprotected_def)
    then show "sampled_write te sched (foo_tid te) \<and> sampled_write te sched (bar_tid te)" using sub sampled by blast
  next
    assume "sampled_write te sched (foo_tid te) \<and> sampled_write te sched (bar_tid te)"
    then have th: "foo_tid te \<in> threads_of h" "bar_tid te \<in> threads_of h" using sampled by simp_all
    then obtain wr ls where "(bar_tid te, wr, ls) \<in> set h" by (auto simp: threads_of_def)
    with entry have "(bar_tid te, 1, {}) \<in> set h" by blast
    then show "unprotected h" using th d unfolding unprotected_def by fast
  qed
qed

definition samples :: "slot list \<Rightarrow> nat" where
  "samples sched = length (filter (\<lambda>(_, _, intr). intr \<noteq> None) sched)"

lemma schedule_cost:
  assumes "schedule_of te sched" and "test_ok te" and "racez_memory_allocator fl = 0"
  shows "total_cost fl (events sched) = samples sched"
proof -
  have "sum_list (map (cost fl \<circ> snd) (happens x)) = (case x of (_, _, intr) \<Rightarrow> if intr \<noteq> None then 1 else 0)"
    if x: "x \<in> set sched" for x
  proof -
    obtain t s intr where e: "x = (t, s, intr)" by (cases x) auto
    have c: "catches x" using assms(1) x by (simp add: schedule_of_def list_all_iff)
    have "s \<in> set (steps_of te t)" using slot_step [OF assms(1)] x e by simp
    then have free: "s = Calls c \<Longrightarrow> cost fl c = 0" for c using step_cost assms(3) by blast
    then show ?thesis using c by (cases s; cases intr) (simp_all add: e)
  qed
  then show ?thesis unfolding total_cost_def events_def samples_def
    by (induction sched) (auto split: prod.splits)
qed

text \<open>C2: The race in the test program, on an AMD machine with instruction-based sampling (the
  run of the test on an Intel machine needs the added records of the Mao pass: there the raw log has
  no addresses). The profiler comes up as in the property on executions: \<open>racez_start\<close> is the
  first call and its indeterminate return value happens to be taken as true, locks are tracked,
  records are written, logging of allocations is off as it is by default, the calls to the kernel and
  to libpfm succeed, memory can be allocated, and the entry of the buffer that nobody writes does not look like a memory
  access. However the threads of the program are then interleaved and whichever accesses the
  counters catch, as long as they catch fewer than the buffer can hold: every call the program makes
  into the library succeeds, the log is written when it stops, and the detector, run without the
  reuse filter (no \<open>-m\<close>), reports the variable \<open>global\<close> exactly if one of the writes in
  \<open>foo_2\<close> and one of those in \<open>bar_2\<close> were caught. In particular the locking in \<open>foo\<close> never
  hides the race.\<close>

theorem seeded_race_is_found:
  assumes "start_works libc tenv" and "racez_memory_allocator (profiling_flags libc) = 0" and "test_ok te" and "schedule_of te sched"
    and "int (samples sched) < BUFFERSIZE" and "stop_writes senv = (\<lambda>_. True)" and "\<not> enable_memory_reuse cfg" and "addr2line_ok cfg"
  shows "\<exists>rt0 rt1 rt2 d. racez_start libc tenv init_runtime = Inr rt0 \<and> rfold (perform libc) (events sched) rt0 = Inr rt1 \<and>
    racez_stop libc senv (main_tid te) rt1 = Inr rt2 \<and> detect_main cfg (map snd (written_out (rt_buffer rt2))) None = Inr d \<and>
    (map_of (rw_map d) (global_var te) = Some 4 \<longleftrightarrow> sampled_write te sched (foo_tid te) \<and> sampled_write te sched (bar_tid te))"
proof -
  have "int (total_cost (profiling_flags libc) (events sched)) < BUFFERSIZE"
    using schedule_cost [OF assms(4,3,2)] assms(5) by simp
  from execution_verdict [OF assms(1) schedule_possible [OF assms(4,3)] _ this assms(6-8), of "main_tid te"]
  obtain rt0 rt1 rt2 d where d: "racez_start libc tenv init_runtime = Inr rt0" "rfold (perform libc) (events sched) rt0 = Inr rt1"
      "racez_stop libc senv (main_tid te) rt1 = Inr rt2" "detect_main cfg (map snd (written_out (rt_buffer rt2))) None = Inr d"
      "\<And>a. map_of (rw_map d) a = Some 4 \<Longrightarrow> unprotected (accesses_to a (sampled_accesses (events sched)))"
      "\<And>a. unprotected (accesses_to a (sampled_accesses (events sched))) \<Longrightarrow>
        settled (accesses_to a (sampled_accesses (events sched))) \<Longrightarrow> map_of (rw_map d) a = Some 4"
    using schedule_within [OF assms(4)] by blast
  then show ?thesis using global_unprotected [OF assms(4,3)] by blast
qed

section \<open>An example\<close>

text \<open>The threads one after the other; the counters catch the first write to the variable in each.\<close>

definition example_test :: test_env where
  "example_test = \<lparr>main_tid = 10, foo_tid = 11, bar_tid = 12, global_var = 64, mutex_var = 5, foo_frame = (\<lambda>_ _. 1000),
     bar_frame = (\<lambda>_ _. 2000), foo_blocks = (\<lambda>_. 3000), bar_blocks = (\<lambda>_. 4000), foo_attach = example_attach,
     bar_attach = example_attach, thread_blocks = (\<lambda>_. 5000)\<rparr>"

fun catch_first :: "int \<Rightarrow> ptr \<Rightarrow> signal_env \<Rightarrow> test_step list \<Rightarrow> slot list" where
  "catch_first tid a env [] = []"
| "catch_first tid a env (s # ss) =
     (if s = Writes a then (tid, s, Some env) # map (\<lambda>x. (tid, x, None)) ss else (tid, s, None) # catch_first tid a env ss)"

definition example_sched :: "slot list" where
  "example_sched =
     map (\<lambda>s. (10, s, None)) (steps_of example_test 10) @ catch_first 11 64 example_signal (steps_of example_test 11) @
     catch_first 12 64 example_signal (steps_of example_test 12)"

lemma quiet_steps: "steps_in t (map (\<lambda>s. (tid, s, None)) ss) = (if t = tid then ss else [])"
  by (induction ss) (auto split: if_splits)

lemma catch_first_spec:
  "steps_in t (catch_first tid a env ss) = (if t = tid then ss else [])"
  "overflow_works env \<Longrightarrow> caught (si_ibs env) = Some (a, 1) \<Longrightarrow> list_all catches (catch_first tid a env ss)"
  "samples (catch_first tid a env ss) \<le> 1"
  "Writes a \<in> set ss \<Longrightarrow> (tid, Writes a, Some env) \<in> set (catch_first tid a env ss)"
proof -
  have q: "catches (tid, s, None)" for s by (cases s) simp_all
  show "steps_in t (catch_first tid a env ss) = (if t = tid then ss else [])"
    by (induction ss) (auto simp: quiet_steps split: if_splits)
  show "list_all catches (catch_first tid a env ss)" if "overflow_works env" "caught (si_ibs env) = Some (a, 1)"
    using that by (induction ss) (auto simp: list_all_iff q)
  show "samples (catch_first tid a env ss) \<le> 1"
    by (induction ss) (simp_all add: samples_def filter_map comp_def)
  show "Writes a \<in> set ss \<Longrightarrow> (tid, Writes a, Some env) \<in> set (catch_first tid a env ss)"
    by (induction ss) auto
qed

lemma example_test_ok: "test_ok example_test"
  by (simp add: test_ok_def example_test_def attach_works_def example_attach_def)

lemma example_schedule: "schedule_of example_test example_sched" and example_samples: "samples example_sched \<le> 2"
  and example_sampled: "sampled_write example_test example_sched 11" "sampled_write example_test example_sched 12"
proof -
  have ov: "overflow_works example_signal" "caught (si_ibs example_signal) = Some (64, 1)"
    by (simp_all add: overflow_works_def caught_def example_signal_def bit_numeral_simps)
  have q: "catches (tid, s, None)" for tid s by (cases s) simp_all
  have "steps_of example_test t = []" if "t \<notin> {10, 11, 12}" for t
    using that by (auto simp: steps_of_def example_test_def)
  then show "schedule_of example_test example_sched"
    using catch_first_spec(2) [OF ov]
    by (auto simp: schedule_of_def example_sched_def quiet_steps catch_first_spec(1) list.pred_map list.pred_True comp_def q)
  have "samples (catch_first 11 64 example_signal (steps_of example_test 11)) \<le> 1"
    "samples (catch_first 12 64 example_signal (steps_of example_test 12)) \<le> 1" by (rule catch_first_spec(3))+
  then show "samples example_sched \<le> 2" by (simp add: samples_def example_sched_def filter_map comp_def)
  have "Writes 64 \<in> set (steps_of example_test 11)" "Writes 64 \<in> set (steps_of example_test 12)"
    by (simp_all add: steps_of_def thread_steps_def example_test_def N_def foo_0_def foo_1_def foo_2_def bar_0_def bar_1_def
        bar_2_def writer_body_def M_def)
  then show "sampled_write example_test example_sched 11" "sampled_write example_test example_sched 12"
    by (auto simp: sampled_write_def example_sched_def example_test_def dest: catch_first_spec(4))
qed

definition test_libc :: libc_env where
  "test_libc = example_libc\<lparr>getenv := [''RACEZ_WRITE_RECORD'' \<mapsto> ''1'']\<rparr>"

lemma test_start_works: "start_works test_libc example_start"
proof -
  have "racez_lockset (profiling_flags test_libc) \<noteq> 0" "racez_write_record (profiling_flags test_libc) \<noteq> 0" by code_simp+
  then show ?thesis
    using example_libc_ok example_block_ok by (simp add: start_works_def example_start_def zero_record_def test_libc_def libc_ok_def)
qed

theorem seeded_race_is_found_witness:
  "\<exists>rt0 rt1 rt2 d. racez_start test_libc example_start init_runtime = Inr rt0 \<and>
     rfold (perform test_libc) (events example_sched) rt0 = Inr rt1 \<and> racez_stop test_libc example_stop 10 rt1 = Inr rt2 \<and>
     detect_main (example_config False) (map snd (written_out (rt_buffer rt2))) None = Inr d \<and> map_of (rw_map d) 64 = Some 4"
proof -
  have "racez_memory_allocator (profiling_flags test_libc) = 0" by code_simp
  moreover have "int (samples example_sched) < BUFFERSIZE" using example_samples by (simp add: BUFFERSIZE_def)
  moreover have "stop_writes example_stop = (\<lambda>_. True)" by (simp add: example_stop_def)
  ultimately show ?thesis
    using seeded_race_is_found [OF test_start_works _ example_test_ok example_schedule _ _ no_reuse_example addr2line_ok_example, of example_stop]
      example_sampled by (simp add: example_test_def)
qed

end
