(* ===== verification/Mao_Sim.thy ===== *)
theory Mao_Sim
  imports Racez_Bufferdata
begin

text \<open>
  The simulation part of the Mao pass (class \<open>InstructSimPass\<close> in mao-patch/patch). A PEBS sample
  has the registers at an instruction but not the address it accesses. The pass computes the
  address from the operands of the instruction and extends the sample to the neighbouring
  instructions of the basic block, as long as the registers they use still have, or already had,
  the sampled values. New records go to a second file, which the detector merges with the log.

  Mao is not part of the repository: an instruction is a record of what the pass asks Mao about
  it, and a register, of which the pass only compares pointers, is its name. A \<open>long\<close> is a 64-bit
  word. The writes of new records succeed.
\<close>

section \<open>Instructions\<close>

type_synonym long = "64 word"
type_synonym reg_entry = string

datatype opcode = OP_mov | OP_movq | OP_add | OP_sub | OP_lea | OP_cmp | OP_test | OP_push | OP_pop | OP_xor | OP_other nat

text \<open>A displacement is a constant or an expression the assembler has to resolve.\<close>

datatype displacement = O_constant long | O_symbol

record insn =
  insn_op :: opcode
  HasTarget :: bool
  IsPredicated :: bool
  NumOperands :: nat
  IsMemOperand :: "nat \<Rightarrow> bool"
  IsRegisterOperand :: "nat \<Rightarrow> bool"
  GetRegisterOperand :: "nat \<Rightarrow> reg_entry option"
  GetBaseRegister :: "reg_entry option"
  GetIndexRegister :: "reg_entry option"
  GetLog2ScaleFactor :: nat
  GetDisplacement :: "nat \<Rightarrow> displacement option"

definition IsOpMov :: "insn \<Rightarrow> bool" where
  "IsOpMov i \<longleftrightarrow> insn_op i = OP_mov \<or> insn_op i = OP_movq"

definition IsSub :: "insn \<Rightarrow> bool" where
  "IsSub i \<longleftrightarrow> insn_op i = OP_sub"

definition IsLea :: "insn \<Rightarrow> bool" where
  "IsLea i \<longleftrightarrow> insn_op i = OP_lea"

definition IsAdd :: "insn \<Rightarrow> bool" where
  "IsAdd i \<longleftrightarrow> insn_op i = OP_add"

definition InsnCanHandle :: "insn \<Rightarrow> bool" where
  "InsnCanHandle i \<longleftrightarrow> IsOpMov i \<or> IsAdd i \<or> IsSub i \<or> IsLea i \<or> insn_op i = OP_cmp \<or> insn_op i = OP_test \<or> HasTarget i"

text \<open>The value \<open>~0\<close>, which is \<open>-1\<close>, stands for what is not known.\<close>

definition GetScaleValue :: "insn \<Rightarrow> long result" where
  "GetScaleValue i =
     (if GetLog2ScaleFactor i \<noteq> 0 then array_read [1, 2, 4, 8] (int (GetLog2ScaleFactor i)) else Inr 1)"

definition GetSimpleDisp :: "insn \<Rightarrow> nat \<Rightarrow> long" where
  "GetSimpleDisp i op_index =
     (case GetDisplacement i op_index of None \<Rightarrow> 0 | Some (O_constant c) \<Rightarrow> c | Some O_symbol \<Rightarrow> - 1)"

section \<open>Registers\<close>

text \<open>A \<open>std::map\<close> read with \<open>[]\<close> is a function that is 0 where nothing was stored.\<close>

type_synonym RegMap = "reg_entry option \<Rightarrow> long"

definition cleared :: RegMap where
  "cleared = (\<lambda>_. 0)"

text \<open>The registers that have a 64-bit and a 32-bit name in the code.\<close>

definition paired :: "(reg_entry \<times> reg_entry) list" where
  "paired = [(''eip'', ''rip''), (''eax'', ''rax''), (''ebx'', ''rbx''), (''ecx'', ''rcx''), (''edx'', ''rdx''),
     (''esi'', ''rsi''), (''edi'', ''rdi''), (''ebp'', ''rbp''), (''esp'', ''rsp'')]"

fun invalidate_pair :: "(reg_entry \<times> reg_entry) list \<Rightarrow> reg_entry option \<Rightarrow> RegMap \<Rightarrow> RegMap" where
  "invalidate_pair [] result m = m(result := - 1)"
| "invalidate_pair ((e, r) # ps) result m =
     (if result = Some e \<or> result = Some r then m(Some e := - 1, Some r := - 1) else invalidate_pair ps result m)"

definition InvalidateRegister :: "RegMap \<Rightarrow> reg_entry option \<Rightarrow> RegMap" where
  "InvalidateRegister m result = invalidate_pair paired result m"

definition sampled_register :: "pebs_entry \<Rightarrow> reg_entry option \<Rightarrow> long" where
  "sampled_register e reg =
     (if reg = Some ''eip'' \<or> reg = Some ''rip'' then pebs_ip e
      else if reg = Some ''eax'' \<or> reg = Some ''rax'' then pebs_eax e
      else if reg = Some ''ebx'' \<or> reg = Some ''rbx'' then pebs_ebx e
      else if reg = Some ''ecx'' \<or> reg = Some ''rcx'' then pebs_ecx e
      else if reg = Some ''edx'' \<or> reg = Some ''rdx'' then pebs_edx e
      else if reg = Some ''esi'' \<or> reg = Some ''rsi'' then pebs_esi e
      else if reg = Some ''edi'' \<or> reg = Some ''rdi'' then pebs_edi e
      else if reg = Some ''ebp'' \<or> reg = Some ''rbp'' then pebs_ebp e
      else if reg = Some ''esp'' \<or> reg = Some ''rsp'' then pebs_esp e
      else if reg = Some ''r8'' then pebs_r8 e
      else if reg = Some ''r9'' then pebs_r9 e
      else if reg = Some ''r10'' then pebs_r10 e
      else if reg = Some ''r11'' then pebs_r11 e
      else if reg = Some ''r12'' then pebs_r12 e
      else if reg = Some ''r13'' then pebs_r13 e
      else if reg = Some ''r14'' then pebs_r14 e
      else if reg = Some ''r15'' then pebs_r15 e
      else 0)"

section \<open>State of the pass\<close>

record sim_state =
  raw_record :: "Record list"
  new_records :: "Record list"
  backward_reg_map :: RegMap
  forward_reg_map :: RegMap

text \<open>Direction 0 is backward, 1 forward, 2 the sampled instruction itself.\<close>

definition GetValueFromRegister :: "reg_entry option \<Rightarrow> int \<Rightarrow> int \<Rightarrow> sim_state \<Rightarrow> long result" where
  "GetValueFromRegister reg record_index direction st =
     (if direction = 0 \<and> backward_reg_map st reg = - 1 then Inr (- 1)
      else if direction = 1 \<and> forward_reg_map st reg = - 1 then Inr (- 1)
      else rbind (array_read (raw_record st) record_index) (\<lambda>r. Inr (sampled_register (mem_op r) reg)))"

definition ComputeMemory :: "insn \<Rightarrow> int \<Rightarrow> nat \<Rightarrow> int \<Rightarrow> sim_state \<Rightarrow> long result" where
  "ComputeMemory i record_index op_index direction st =
     rbind (GetScaleValue i) (\<lambda>scale.
       let offset = GetSimpleDisp i op_index; base_reg = GetBaseRegister i; index_reg = GetIndexRegister i
       in if base_reg = Some ''rbp'' \<or> base_reg = Some ''rsp'' then Inr (- 1)
          else rbind (if index_reg \<noteq> None then GetValueFromRegister index_reg record_index direction st else Inr 0)
            (\<lambda>index_value.
               rbind (GetValueFromRegister base_reg record_index direction st) (\<lambda>base_value.
                 if index_value \<noteq> - 1 \<and> base_value \<noteq> - 1 \<and> offset \<noteq> - 1
                 then Inr (offset + base_value + index_value * scale) else Inr (- 1))))"

definition update_raw :: "int \<Rightarrow> (Record \<Rightarrow> Record) \<Rightarrow> sim_state \<Rightarrow> sim_state result" where
  "update_raw index f st =
     rbind (array_read (raw_record st) index) (\<lambda>r.
     rbind (array_write (raw_record st) index (f r)) (\<lambda>rs. Inr (st\<lparr>raw_record := rs\<rparr>)))"

text \<open>The address of the sampled instruction itself, stored into the mapped log.\<close>

definition update_operand :: "insn \<Rightarrow> int \<Rightarrow> nat \<Rightarrow> int \<Rightarrow> sim_state \<Rightarrow> sim_state result" where
  "update_operand i index op_index wr st =
     (if IsMemOperand i op_index then
        rbind (ComputeMemory i index op_index 2 st) (\<lambda>address.
          update_raw index (\<lambda>r. (if address \<noteq> - 1 then set_memory_address address r else r)\<lparr>is_write := wr\<rparr>) st)
      else Inr st)"

definition UpdateMemory :: "insn \<Rightarrow> int \<Rightarrow> sim_state \<Rightarrow> sim_state result" where
  "UpdateMemory i index st =
     (if IsOpMov i then rbind (update_operand i index 0 0 st) (update_operand i index 1 1) else Inr st)"

section \<open>Extending a sample\<close>

text \<open>A new record: number, thread and locks of the seed, address and position of the neighbour.\<close>

definition extended_record :: "Record \<Rightarrow> int \<Rightarrow> long \<Rightarrow> long \<Rightarrow> Record result" where
  "extended_record seed wr ip address =
     rbind (copy_prefix (lockset seed) (lock_count seed) (lockset zero_record)) (\<lambda>ls.
       Inr ((set_memory_address address (set_pip ip (zero_record\<lparr>record_type := MEMORY_OP\<rparr>)))
              \<lparr>is_write := wr, record_no := record_no seed, thread_id := thread_id seed, sip := ip,
               lock_count := lock_count seed, lockset := ls\<rparr>))"

definition write_new :: "int \<Rightarrow> int \<Rightarrow> long \<Rightarrow> long \<Rightarrow> sim_state \<Rightarrow> sim_state result" where
  "write_new index wr delta address st =
     rbind (array_read (raw_record st) index) (\<lambda>seed.
     rbind (extended_record seed wr (pebs_ip (mem_op seed) + delta) address) (\<lambda>r.
       Inr (st\<lparr>new_records := new_records st @ [r]\<rparr>)))"

definition spoil :: "int \<Rightarrow> insn \<Rightarrow> sim_state \<Rightarrow> sim_state" where
  "spoil direction i st =
     (if direction = 1 then st\<lparr>forward_reg_map := InvalidateRegister (forward_reg_map st) (GetRegisterOperand i 1)\<rparr>
      else st\<lparr>backward_reg_map := InvalidateRegister (backward_reg_map st) (GetRegisterOperand i 1)\<rparr>)"

text \<open>
  One neighbour. A load spoils its target register: behind the address computation when going
  forward, before it when going backward. The result tells whether to go on.
\<close>

definition ComputeNewSampleWhole :: "insn \<Rightarrow> int \<Rightarrow> long \<Rightarrow> int \<Rightarrow> sim_state \<Rightarrow> (bool \<times> sim_state) result" where
  "ComputeNewSampleWhole i index offset direction st =
     (let delta = (if direction = 1 then offset else - offset);
          emit = (\<lambda>wr address st'. if address = - 1 then Inr (True, st')
                    else rbind (write_new index wr delta address st') (\<lambda>st2. Inr (True, st2)))
      in if \<not> InsnCanHandle i then Inr (False, st)
         else if IsOpMov i \<or> IsAdd i \<or> IsSub i \<or> IsLea i then
           (if NumOperands i \<noteq> 2 then Inl Assertion_failed
            else if IsMemOperand i 0 then
              (if direction = 1
               then rbind (ComputeMemory i index 0 direction st) (\<lambda>address. emit 0 address (spoil direction i st))
               else rbind (ComputeMemory i index 0 direction (spoil direction i st)) (\<lambda>address. emit 0 address (spoil direction i st)))
            else if IsMemOperand i 1 then
              rbind (ComputeMemory i index 1 direction st) (\<lambda>address. emit 1 address st)
            else if \<not> IsRegisterOperand i 1 then Inl Assertion_failed
            else Inr (True, spoil direction i st))
         else Inr (True, st))"

text \<open>
  A function as the pass sees it: its instructions, the basic block of each, the instruction a
  block starts or ends with (\<open>None\<close> when that entry is a label), and the offsets in the section.
\<close>

record mao_function =
  insns :: "insn list"
  bb_of :: "nat \<Rightarrow> nat option"
  first_entry :: "nat \<Rightarrow> nat option"
  last_entry :: "nat \<Rightarrow> nat option"
  offsets :: "nat \<Rightarrow> long"

definition is_first :: "mao_function \<Rightarrow> nat \<Rightarrow> nat \<Rightarrow> bool" where
  "is_first f n k \<longleftrightarrow> Option.bind (bb_of f n) (first_entry f) = Some k"

definition is_last :: "mao_function \<Rightarrow> nat \<Rightarrow> nat \<Rightarrow> bool" where
  "is_last f n k \<longleftrightarrow> Option.bind (bb_of f n) (last_entry f) = Some k"

text \<open>The two loops of \<open>ExecuteSimWhole\<close>; going backward from \<open>Suc k\<close> visits instruction \<open>k\<close> next.\<close>

fun backward_loop :: "mao_function \<Rightarrow> int \<Rightarrow> nat \<Rightarrow> nat \<Rightarrow> sim_state \<Rightarrow> sim_state result" where
  "backward_loop f index n 0 st = Inr st"
| "backward_loop f index n (Suc k) st =
     (if bb_of f k \<noteq> bb_of f n then Inr st
      else rbind (ComputeNewSampleWhole (insns f ! k) index (offsets f n - offsets f k) 0 st) (\<lambda>(can_execute, st').
             if \<not> can_execute \<or> is_first f n k then Inr st' else backward_loop f index n k st'))"

function forward_loop :: "mao_function \<Rightarrow> int \<Rightarrow> nat \<Rightarrow> nat \<Rightarrow> sim_state \<Rightarrow> sim_state result" where
  "forward_loop f index n k st =
     (if \<not> k < length (insns f) \<or> bb_of f k \<noteq> bb_of f n then Inr st
      else rbind (ComputeNewSampleWhole (insns f ! k) index (offsets f k - offsets f n) 1 st) (\<lambda>(can_execute, st').
             if \<not> can_execute \<or> is_last f n k then Inr st' else forward_loop f index n (Suc k) st'))"
  by pat_completeness auto
termination
  by (relation "measure (\<lambda>(f, _, _, k, _). length (insns f) - k)") auto

declare forward_loop.simps [simp del]

definition ExecuteSimWhole :: "mao_function \<Rightarrow> nat \<Rightarrow> int \<Rightarrow> sim_state \<Rightarrow> sim_state result" where
  "ExecuteSimWhole f n index st =
     (let st0 = st\<lparr>forward_reg_map := cleared\<rparr>; i = insns f ! n
      in if bb_of f n = None then Inl Assertion_failed
         else if \<not> InsnCanHandle i then Inr st0
         else rbind (if is_first f n n then Inr st0 else backward_loop f index n n st0) (\<lambda>st1.
           let st2 = st1\<lparr>backward_reg_map := cleared\<rparr>;
               st3 = (if IsOpMov i \<or> IsAdd i \<or> IsSub i \<or> IsLea i then spoil 1 i st2 else st2)
           in rbind (if is_last f n n then Inr st3 else forward_loop f index n (Suc n) st3) (\<lambda>st4.
                Inr (st4\<lparr>forward_reg_map := cleared\<rparr>))))"

end
