(* ===== verification/Mao_Pass.thy ===== *)
theory Mao_Pass
  imports Mao_Sim C_Library
begin

text \<open>
  The rest of the Mao pass (mao-patch/patch): the reader of the file the converter writes, the
  table of source files, and \<open>Go\<close>, which walks over the entries of a function and hands every
  sample to the instruction at its offset.
\<close>

section \<open>Reading the samples\<close>

record RacezInstructionSample =
  sample_file :: string
  sample_index :: int
  sample_offset :: int
  sample_value :: int

definition RacezInstructionSampleLessThan :: "RacezInstructionSample \<Rightarrow> RacezInstructionSample \<Rightarrow> bool" where
  "RacezInstructionSampleLessThan a b \<longleftrightarrow> sample_offset a < sample_offset b"

text \<open>
  \<open>ReadLine\<close> grows its buffer for a long line, but goes on storing through the pointer into the
  old block. That is a fault whenever the block has moved; the model takes every line longer than the
  first buffer as a fault, also where the block happens to stay in place.
\<close>

definition BUFSIZ :: nat where
  "BUFSIZ = 8192"

definition ReadLine :: "string \<Rightarrow> (string \<times> string) option result" where
  "ReadLine data_file =
     (case fgets BUFSIZ data_file of
        None \<Rightarrow> Inr None
      | Some (raw, rest) \<Rightarrow>
          (let line = c_str raw; at_eof = (rest = [] \<and> length raw < BUFSIZ - 1 \<and> last raw \<noteq> nl)
           in if line = [] then Inl Out_of_bounds
              else if last line \<noteq> nl \<and> \<not> at_eof then Inl Out_of_bounds
              else Inr (Some (line, rest))))"

lemma ReadLine_shorter: "ReadLine inp = Inr (Some (line, rest)) \<Longrightarrow> length rest < length inp"
  by (auto simp: ReadLine_def BUFSIZ_def Let_def split: option.splits if_splits dest: fgets_shorter)

datatype line_outcome = Parse_error | Skipped | Sample RacezInstructionSample

text \<open>One line: index, file and line number, function, offset.\<close>

definition parse_profile_line :: "string \<Rightarrow> string \<Rightarrow> string \<Rightarrow> line_outcome result" where
  "parse_profile_line function_name current_source_file line =
     (case strchr line tab of
        None \<Rightarrow> Inr Parse_error
      | Some t1 \<Rightarrow>
          (let index = before line tab; p1 = tl t1
           in if strtoll_rest index 0 \<noteq> [] then Inr Parse_error
              else (case strchr p1 (CHR '':'') of
                 None \<Rightarrow> Inr Parse_error
               | Some t2 \<Rightarrow>
                   if before p1 (CHR '':'') \<noteq> current_source_file then Inr Skipped
                   else (case strchr t2 tab of
                      None \<Rightarrow> Inl Out_of_bounds
                    | Some t3 \<Rightarrow>
                        (case strchr (tl t3) tab of
                           None \<Rightarrow> Inr Parse_error
                         | Some t4 \<Rightarrow>
                             (case strchr (tl t4) nl of
                                None \<Rightarrow> Inr Parse_error
                              | Some _ \<Rightarrow>
                                  (let offset = before (tl t4) nl
                                   in if strtoll_rest offset 0 \<noteq> [] then Inr Parse_error
                                      else if before (tl t3) tab \<noteq> function_name then Inr Skipped
                                      else Inr (Sample \<lparr>sample_file = before p1 (CHR '':''), sample_index = strtoll index 0,
                                                 sample_offset = strtoll offset 0, sample_value = 0\<rparr>))))))))"

function read_profile_lines ::
  "string \<Rightarrow> string \<Rightarrow> string \<Rightarrow> RacezInstructionSample list \<Rightarrow> (bool \<times> RacezInstructionSample list) result" where
  "read_profile_lines function_name source data_file samples =
     (case ReadLine data_file of
        Inl e \<Rightarrow> Inl e
      | Inr None \<Rightarrow> Inr (True, samples)
      | Inr (Some (line, rest)) \<Rightarrow>
          rbind (parse_profile_line function_name source line) (\<lambda>out.
            case out of
              Parse_error \<Rightarrow> Inr (False, samples)
            | Skipped \<Rightarrow> read_profile_lines function_name source rest samples
            | Sample s \<Rightarrow> read_profile_lines function_name source rest (samples @ [s])))"
  by pat_completeness auto
termination
  by (relation "measure (\<lambda>(_, _, data_file, _). length data_file)") (auto dest: ReadLine_shorter)

declare read_profile_lines.simps [simp del]

text \<open>\<open>RacezProfileReader::Read\<close>; \<open>None\<close> when the file cannot be opened.\<close>

definition profile_Read :: "string \<Rightarrow> string \<Rightarrow> string option \<Rightarrow> (bool \<times> RacezInstructionSample list) result" where
  "profile_Read function_name source opened =
     (case opened of None \<Rightarrow> Inr (False, []) | Some data_file \<Rightarrow> read_profile_lines function_name source data_file [])"

section \<open>Source files\<close>

text \<open>An entry: an instruction, by its number in the function, a directive with its operands, or else.\<close>

datatype directive_op = FILE | LOC | Other_directive
datatype operand = INT_operand int | STRING_operand string | Other_operand

record directive =
  dir_op :: directive_op
  dir_operands :: "operand list"

datatype mao_entry = Insn_entry nat | Directive_entry directive | Other_entry

text \<open>The name between the quotes; \<open>getcwd\<close> has 100 bytes for the working directory.\<close>

definition full_filename :: "string \<Rightarrow> string \<Rightarrow> string result" where
  "full_filename working_dir quoted =
     (if quoted = [] then Inl Out_of_bounds
      else if 100 \<le> length working_dir then Inl Null_pointer
      else Inr (working_dir @ ''/'' @ take (length quoted - 2) (tl quoted)))"

definition add_file :: "int \<Rightarrow> string \<Rightarrow> string list \<Rightarrow> string list result" where
  "add_file number filename file_table =
     (if number = 0 then Inr (file_table @ [filename])
      else if number < 0 then Inl (Exit_program 1)
      else let filenum = nat number;
               resized = (if length file_table \<le> filenum then file_table @ replicate (filenum + 1 - length file_table) [] else file_table)
           in Inr (resized[filenum := filename]))"

definition add_file_entry :: "string \<Rightarrow> mao_entry \<Rightarrow> string list \<Rightarrow> string list result" where
  "add_file_entry working_dir entry file_table =
     (case entry of
        Directive_entry d \<Rightarrow>
          if dir_op d \<noteq> FILE then Inr file_table
          else (case dir_operands d of
                  [INT_operand number, STRING_operand quoted] \<Rightarrow>
                    rbind (full_filename working_dir quoted) (\<lambda>filename. add_file number filename file_table)
                | _ \<Rightarrow> Inr file_table)
      | _ \<Rightarrow> Inr file_table)"

text \<open>The table of all entries of the unit; its first entry is empty.\<close>

definition BuildFileTable :: "string \<Rightarrow> mao_entry list \<Rightarrow> string list result" where
  "BuildFileTable working_dir unit_entries = rfold (add_file_entry working_dir) unit_entries [[]]"

definition UpdateSourceFile :: "string list \<Rightarrow> mao_entry \<Rightarrow> string \<Rightarrow> string result" where
  "UpdateSourceFile file_table entry current =
     (case entry of
        Directive_entry d \<Rightarrow>
          if dir_op d \<noteq> LOC then Inr current
          else (case dir_operands d of
                  INT_operand file_number # _ \<Rightarrow>
                    if file_number < 0 then Inl (Exit_program 1)
                    else if length file_table \<le> nat file_number then Inl (Exit_program 1)
                    else Inr (file_table ! nat file_number)
                | _ \<Rightarrow> Inl Assertion_failed)
      | _ \<Rightarrow> Inr current)"

section \<open>Walking over the function\<close>

text \<open>
  \<open>entries\<close> are the entries with their sizes, \<open>end_entry\<close> is what the end iterator points to
  (\<open>None\<close> a null pointer). \<open>end_readable\<close>: reading an element through the end iterator of the list
  of samples, which the inner loop does before it compares with the end, gets away with it.
\<close>

record pass_input =
  pass_function :: mao_function
  pass_name :: string
  unit_entries :: "mao_entry list"
  working_dir :: string
  entries :: "(mao_entry \<times> int) list"
  end_entry :: "(mao_entry \<times> int) option"
  end_readable :: bool

definition entry_at :: "pass_input \<Rightarrow> nat \<Rightarrow> (mao_entry \<times> int) result" where
  "entry_at inp pos =
     (if pos < length (entries inp) then Inr (entries inp ! pos)
      else if pos = length (entries inp) then (case end_entry inp of None \<Rightarrow> Inl Null_pointer | Some e \<Rightarrow> Inr e)
      else Inl Out_of_bounds)"

lemma entry_at_le: "entry_at inp pos = Inr e \<Longrightarrow> pos \<le> length (entries inp)"
  by (auto simp: entry_at_def split: if_splits)

text \<open>The loop up to the offset of a sample; \<open>None\<close> when the source file changes and the pass returns.\<close>

function advance :: "pass_input \<Rightarrow> string list \<Rightarrow> RacezInstructionSample \<Rightarrow> int \<Rightarrow> nat \<Rightarrow> string \<Rightarrow> (int \<times> nat \<times> string) option result" where
  "advance inp tbl s offset pos current =
     (if offset < sample_offset s \<and> pos < length (entries inp) then
        rbind (entry_at inp (Suc pos)) (\<lambda>(e, _).
        rbind (UpdateSourceFile tbl e current) (\<lambda>current'.
          if current' \<noteq> sample_file s then Inr None
          else advance inp tbl s (offset + snd (entries inp ! pos)) (Suc pos) current'))
      else Inr (Some (offset, pos, current)))"
  by pat_completeness auto
termination
  by (relation "measure (\<lambda>(inp, _, _, _, pos, _). length (entries inp) - pos)") auto

declare advance.simps [simp del]

function skip_to_insn :: "pass_input \<Rightarrow> string \<Rightarrow> string \<Rightarrow> nat \<Rightarrow> (nat \<times> nat \<times> int) result" where
  "skip_to_insn inp current source pos =
     (case entry_at inp pos of
        Inl e \<Rightarrow> Inl e
      | Inr (Insn_entry n, sz) \<Rightarrow> Inr (pos, n, sz)
      | Inr (_, _) \<Rightarrow> if current \<noteq> source then Inl Assertion_failed else skip_to_insn inp current source (Suc pos))"
  by pat_completeness auto
termination
  by (relation "measure (\<lambda>(inp, _, _, pos). Suc (length (entries inp)) - pos)") (auto dest: entry_at_le)

declare skip_to_insn.simps [simp del]

text \<open>The samples at one instruction.\<close>

definition process_sample :: "mao_function \<Rightarrow> nat \<Rightarrow> RacezInstructionSample \<Rightarrow> sim_state \<Rightarrow> sim_state result" where
  "process_sample f n s st =
     rbind (UpdateMemory (insns f ! n) (sample_index s) st) (ExecuteSimWhole f n (sample_index s))"

function go_samples ::
  "pass_input \<Rightarrow> string list \<Rightarrow> RacezInstructionSample list \<Rightarrow> int \<Rightarrow> nat \<Rightarrow> string \<Rightarrow> sim_state \<Rightarrow> sim_state result" where
  "go_samples inp tbl samples offset pos current st =
     (case samples of
        [] \<Rightarrow> Inr st
      | s # others \<Rightarrow>
          rbind (advance inp tbl s offset pos current) (\<lambda>here.
            case here of
              None \<Rightarrow> Inr st
            | Some (offset', pos', current') \<Rightarrow>
                rbind (skip_to_insn inp current' (sample_file s) pos') (\<lambda>(pos'', n, sz).
                  let same = takeWhile (\<lambda>x. sample_offset x = offset') samples;
                      final = (if same = [] then s else last same);
                      rest = (if same = [] then others else drop (length same) samples)
                  in rbind (rfold (process_sample (pass_function inp) n) same st) (\<lambda>st'.
                       if same = samples \<and> \<not> end_readable inp then Inl Bad_iterator
                       else rbind (entry_at inp (Suc pos'')) (\<lambda>(e, _).
                            rbind (UpdateSourceFile tbl e current') (\<lambda>current''.
                              if current'' \<noteq> sample_file final then Inr st'
                              else go_samples inp tbl rest (offset' + sz) (Suc pos'') current'' st'))))))"
  by pat_completeness auto
termination
  by (relation "measure (\<lambda>(_, _, samples, _). length samples)") (auto simp: Let_def split: if_splits)

declare go_samples.simps [simp del]

text \<open>
  \<open>Go\<close>: the source file with number 1 is taken for that of the function; the list is sorted by
  offset, keeping the order of equal ones. The log is mapped and the second file open.
\<close>

definition Go :: "pass_input \<Rightarrow> string option \<Rightarrow> sim_state \<Rightarrow> sim_state result" where
  "Go inp profile st =
     rbind (BuildFileTable (working_dir inp) (unit_entries inp)) (\<lambda>tbl.
     rbind (array_read tbl 1) (\<lambda>source.
     rbind (profile_Read (pass_name inp) source profile) (\<lambda>(ok, samples).
       if \<not> ok \<or> samples = [] then Inr st
       else rbind (entry_at inp 0) (\<lambda>(e, _).
            rbind (UpdateSourceFile tbl e source) (\<lambda>current.
              go_samples inp tbl (sort_key sample_offset samples) 0 0 current st)))))"

section \<open>The pass and its files\<close>

text \<open>
  A pass is made for each function: the constructor opens and maps the log, \<open>Go\<close> opens the second
  file before it reads the samples. The log is mapped as shared, and the second file only appended
  to, so the two files are what one pass leaves to the next. What the kernel answers is a parameter.
\<close>

record pass_files =
  racez_raw_file :: "string option"
  pmuprofile_file :: "string option"
  raw_opened :: bool
  fstat_works :: bool
  mmap_works :: bool
  new_opened :: bool

definition InstructSimPass :: "pass_files \<Rightarrow> Record list \<Rightarrow> Record list \<Rightarrow> sim_state result" where
  "InstructSimPass fs raws news =
     (if racez_raw_file fs = None then Inl Assertion_failed
      else if pmuprofile_file fs = None then Inl Assertion_failed
      else if \<not> raw_opened fs then Inl Assertion_failed
      else if \<not> fstat_works fs then Inl Assertion_failed
      else if \<not> mmap_works fs then Inl Assertion_failed
      else Inr \<lparr>raw_record = raws, new_records = news, backward_reg_map = cleared, forward_reg_map = cleared\<rparr>)"

definition run_pass ::
  "pass_files \<Rightarrow> pass_input \<times> string option \<Rightarrow> Record list \<times> Record list \<Rightarrow> (Record list \<times> Record list) result" where
  "run_pass fs = (\<lambda>(inp, profile) (raws, news).
     rbind (InstructSimPass fs raws news) (\<lambda>st.
     rbind (BuildFileTable (working_dir inp) (unit_entries inp)) (\<lambda>tbl.
     rbind (array_read tbl 1) (\<lambda>_.
       if \<not> new_opened fs then Inl Assertion_failed
       else rbind (Go inp profile st) (\<lambda>st'. Inr (raw_record st', new_records st'))))))"

end
