(* ===== verification/Mao_Properties.thy ===== *)
theory Mao_Properties
  imports Mao_Sim
begin

text \<open>
  What the extended samples of the Mao pass are worth: against any processor that changes only the
  destination register of the instructions the pass handles, every record it adds is an access
  the sampled thread makes, at the right address.
\<close>

section \<open>The processor\<close>

text \<open>The machine register behind a register name.\<close>

definition aliases :: "(reg_entry \<times> reg_entry) list" where
  "aliases =
     [(''eax'', ''rax''), (''ax'', ''rax''), (''al'', ''rax''), (''ah'', ''rax''),
      (''ebx'', ''rbx''), (''bx'', ''rbx''), (''bl'', ''rbx''), (''bh'', ''rbx''),
      (''ecx'', ''rcx''), (''cx'', ''rcx''), (''cl'', ''rcx''), (''ch'', ''rcx''),
      (''edx'', ''rdx''), (''dx'', ''rdx''), (''dl'', ''rdx''), (''dh'', ''rdx''),
      (''esi'', ''rsi''), (''si'', ''rsi''), (''sil'', ''rsi''),
      (''edi'', ''rdi''), (''di'', ''rdi''), (''dil'', ''rdi''),
      (''ebp'', ''rbp''), (''bp'', ''rbp''), (''bpl'', ''rbp''),
      (''esp'', ''rsp''), (''sp'', ''rsp''), (''spl'', ''rsp''),
      (''r8d'', ''r8''), (''r8w'', ''r8''), (''r8b'', ''r8''), (''r9d'', ''r9''), (''r9w'', ''r9''), (''r9b'', ''r9''),
      (''r10d'', ''r10''), (''r10w'', ''r10''), (''r10b'', ''r10''), (''r11d'', ''r11''), (''r11w'', ''r11''), (''r11b'', ''r11''),
      (''r12d'', ''r12''), (''r12w'', ''r12''), (''r12b'', ''r12''), (''r13d'', ''r13''), (''r13w'', ''r13''), (''r13b'', ''r13''),
      (''r14d'', ''r14''), (''r14w'', ''r14''), (''r14b'', ''r14''), (''r15d'', ''r15''), (''r15w'', ''r15''), (''r15b'', ''r15'')]"

definition phys :: "reg_entry \<Rightarrow> reg_entry" where
  "phys r = (case map_of aliases r of None \<Rightarrow> r | Some c \<Rightarrow> c)"

definition wide_regs :: "reg_entry list" where
  "wide_regs = [''rax'', ''rbx'', ''rcx'', ''rdx'', ''rsi'', ''rdi'', ''rbp'', ''rsp'',
     ''r8'', ''r9'', ''r10'', ''r11'', ''r12'', ''r13'', ''r14'', ''r15'']"

definition known_regs :: "reg_entry list" where
  "known_regs = wide_regs @ [''eax'', ''ebx'', ''ecx'', ''edx'', ''esi'', ''edi'', ''ebp'', ''esp'']"

type_synonym registers = "reg_entry \<Rightarrow> long"

definition moves :: "insn \<Rightarrow> bool" where
  "moves i \<longleftrightarrow> IsOpMov i \<or> IsAdd i \<or> IsSub i \<or> IsLea i"

definition written_reg :: "insn \<Rightarrow> reg_entry option" where
  "written_reg i = (if moves i \<and> \<not> IsMemOperand i 1 then map_option phys (GetRegisterOperand i 1) else None)"

text \<open>
  A move, addition, subtraction or address computation changes its second operand and nothing
  else; comparisons and instructions with a target (jumps) change no general register. The x86
  instruction \<open>loop\<close>, which counts down \<open>rcx\<close>, is not such a jump: programs with it are outside
  the properties that assume this.
\<close>

definition processor_ok :: "(insn \<Rightarrow> registers \<Rightarrow> registers) \<Rightarrow> bool" where
  "processor_ok exec \<longleftrightarrow> (\<forall>i \<sigma> c. InsnCanHandle i \<longrightarrow> written_reg i \<noteq> Some c \<longrightarrow> exec i \<sigma> c = \<sigma> c)"

definition operand_value :: "registers \<Rightarrow> reg_entry option \<Rightarrow> long" where
  "operand_value \<sigma> reg = (case reg of None \<Rightarrow> 0 | Some r \<Rightarrow> \<sigma> (phys r))"

definition effective_address :: "insn \<Rightarrow> nat \<Rightarrow> registers \<Rightarrow> long" where
  "effective_address i op_index \<sigma> =
     GetSimpleDisp i op_index + operand_value \<sigma> (GetBaseRegister i) +
     operand_value \<sigma> (GetIndexRegister i) * 2 ^ GetLog2ScaleFactor i"

text \<open>
  Addresses are formed from 64-bit registers; a destination is a register the pass knows, or one
  that is no part of a general register.
\<close>

definition insn_ok :: "insn \<Rightarrow> bool" where
  "insn_ok i \<longleftrightarrow> set_option (GetBaseRegister i) \<union> set_option (GetIndexRegister i) \<subseteq> set wide_regs \<and>
     (\<forall>r\<in>set_option (GetRegisterOperand i 1). r \<in> set known_regs \<or> phys r \<notin> set wide_regs)"

section \<open>Spoiled registers\<close>

fun spoiled :: "(reg_entry \<times> reg_entry) list \<Rightarrow> reg_entry \<Rightarrow> reg_entry list" where
  "spoiled [] x = [x]"
| "spoiled ((e, r) # ps) x = (if x = e \<or> x = r then [e, r] else spoiled ps x)"

lemma invalidate_pair_spoiled:
  "invalidate_pair ps (Some x) m (Some y) = (if y \<in> set (spoiled ps x) then - 1 else m (Some y))"
  by (induction ps) (auto split: if_splits)

lemma InvalidateRegister_keeps: "InvalidateRegister m x y = - 1 \<or> InvalidateRegister m x y = m y"
proof -
  have "invalidate_pair ps x m y = - 1 \<or> invalidate_pair ps x m y = m y" for ps
    by (induction ps) auto
  then show ?thesis by (simp add: InvalidateRegister_def)
qed

lemma known_aliases_spoiled:
  assumes "x \<in> set known_regs" and "y \<in> set known_regs" and "phys y = phys x"
  shows "InvalidateRegister m (Some x) (Some y) = - 1"
proof -
  have "list_all (\<lambda>x. list_all (\<lambda>y. phys y = phys x \<longrightarrow> y \<in> set (spoiled paired x)) known_regs) known_regs"
    by code_simp
  with assms show ?thesis
    by (auto simp: list_all_iff InvalidateRegister_def invalidate_pair_spoiled)
qed

lemma phys_known: "r \<in> set known_regs \<Longrightarrow> phys r \<in> set wide_regs"
proof -
  have "list_all (\<lambda>r. phys r \<in> set wide_regs) known_regs" by code_simp
  then show "r \<in> set known_regs \<Longrightarrow> phys r \<in> set wide_regs" by (simp add: list_all_iff)
qed

lemma wide_known: "r \<in> set wide_regs \<Longrightarrow> r \<in> set known_regs"
  by (simp add: known_regs_def)

text \<open>The sampled values hold in a machine state, except for the registers marked.\<close>

definition holds_in :: "RegMap \<Rightarrow> pebs_entry \<Rightarrow> registers \<Rightarrow> bool" where
  "holds_in m e \<sigma> \<longleftrightarrow> (\<forall>r\<in>set known_regs. m (Some r) \<noteq> - 1 \<longrightarrow> \<sigma> (phys r) = sampled_register e (Some r))"

lemma holds_in_spoil:
  assumes "holds_in m e \<sigma>" and "insn_ok i" and "\<And>c. map_option phys (GetRegisterOperand i 1) \<noteq> Some c \<Longrightarrow> \<tau> c = \<sigma> c"
  shows "holds_in (InvalidateRegister m (GetRegisterOperand i 1)) e \<tau>"
  unfolding holds_in_def
proof (intro ballI impI)
  fix y assume y: "y \<in> set known_regs" "InvalidateRegister m (GetRegisterOperand i 1) (Some y) \<noteq> - 1"
  have "map_option phys (GetRegisterOperand i 1) \<noteq> Some (phys y)"
    using assms(2) y known_aliases_spoiled phys_known by (fastforce simp: insn_ok_def)
  then have "\<tau> (phys y) = \<sigma> (phys y)" by (rule assms(3))
  moreover have "m (Some y) \<noteq> - 1" using y(2) InvalidateRegister_keeps [of m "GetRegisterOperand i 1" "Some y"] by auto
  ultimately show "\<tau> (phys y) = sampled_register e (Some y)" using assms(1) y(1) by (simp add: holds_in_def)
qed

section \<open>Addresses\<close>

definition dir_map :: "int \<Rightarrow> sim_state \<Rightarrow> RegMap" where
  "dir_map direction st = (if direction = 0 then backward_reg_map st else forward_reg_map st)"

lemma register_value_ok:
  assumes "GetValueFromRegister reg index direction st = Inr v" and "v \<noteq> - 1" and "direction = 0 \<or> direction = 1"
    and "array_read (raw_record st) index = Inr seed" and "holds_in (dir_map direction st) (mem_op seed) \<sigma>"
    and "set_option reg \<subseteq> set wide_regs"
  shows "v = operand_value \<sigma> reg"
proof (cases reg)
  case None
  then have "v = 0" using assms(1-4) by (auto simp: GetValueFromRegister_def sampled_register_def split: if_splits)
  with None show ?thesis by (simp add: operand_value_def)
next
  case (Some r)
  with assms(6) have "r \<in> set known_regs" by (auto intro: wide_known)
  moreover have "v = sampled_register (mem_op seed) (Some r)" "dir_map direction st (Some r) \<noteq> - 1"
    using assms(1-4) Some by (auto simp: GetValueFromRegister_def dir_map_def split: if_splits)
  ultimately show ?thesis using assms(5) Some by (simp add: holds_in_def operand_value_def)
qed

lemma scale_ok: "GetScaleValue i = Inr s \<Longrightarrow> s = 2 ^ GetLog2ScaleFactor i"
proof -
  assume s: "GetScaleValue i = Inr s"
  let ?k = "GetLog2ScaleFactor i"
  consider "?k = 0" | "?k = 1" | "?k = 2" | "?k = 3" | "4 \<le> ?k" by linarith
  then show ?thesis
    using s by cases (auto simp: GetScaleValue_def array_read_def split: if_splits)
qed

lemma ComputeMemory_ok:
  assumes "ComputeMemory i index op_index direction st = Inr a" and "a \<noteq> - 1" and "direction = 0 \<or> direction = 1"
    and "array_read (raw_record st) index = Inr seed" and "holds_in (dir_map direction st) (mem_op seed) \<sigma>" and "insn_ok i"
  shows "a = effective_address i op_index \<sigma>"
proof -
  obtain s iv bv where s: "GetScaleValue i = Inr s"
    and iv: "(if GetIndexRegister i \<noteq> None then GetValueFromRegister (GetIndexRegister i) index direction st else Inr 0) = Inr iv"
    and bv: "GetValueFromRegister (GetBaseRegister i) index direction st = Inr bv"
    and a: "a = GetSimpleDisp i op_index + bv + iv * s" "iv \<noteq> - 1" "bv \<noteq> - 1"
    using assms(1,2) by (auto simp: ComputeMemory_def Let_def split: if_splits)
  have regs: "set_option (GetBaseRegister i) \<subseteq> set wide_regs" "set_option (GetIndexRegister i) \<subseteq> set wide_regs"
    using assms(6) by (auto simp: insn_ok_def)
  have "bv = operand_value \<sigma> (GetBaseRegister i)" using register_value_ok [OF bv a(3) assms(3-5) regs(1)] .
  moreover have "iv = operand_value \<sigma> (GetIndexRegister i)"
  proof (cases "GetIndexRegister i = None")
    case True
    with iv show ?thesis by (simp add: operand_value_def)
  next
    case False
    with iv have "GetValueFromRegister (GetIndexRegister i) index direction st = Inr iv" by simp
    from register_value_ok [OF this a(2) assms(3-5) regs(2)] show ?thesis .
  qed
  ultimately show ?thesis by (simp add: effective_address_def a(1) scale_ok [OF s])
qed

section \<open>One neighbour\<close>

text \<open>A record for the memory operand of an instruction that starts in the given machine state.\<close>

definition access_at :: "insn \<Rightarrow> long \<Rightarrow> Record \<Rightarrow> registers \<Rightarrow> Record \<Rightarrow> bool" where
  "access_at i delta seed \<sigma> r \<longleftrightarrow>
     (let op_index = (if IsMemOperand i 0 then 0 else 1)
      in IsMemOperand i op_index \<and> memory_address r = effective_address i op_index \<sigma> \<and> is_write r = int op_index \<and>
         pip r = pebs_ip (mem_op seed) + delta \<and> record_type r = MEMORY_OP \<and>
         record_no r = record_no seed \<and> thread_id r = thread_id seed \<and> locks r = locks seed)"

lemma write_new_ok:
  assumes "write_new index wr delta a st = Inr st'" and "array_read (raw_record st) index = Inr seed"
  shows "\<exists>r. st' = st\<lparr>new_records := new_records st @ [r]\<rparr> \<and> memory_address r = a \<and> is_write r = wr \<and>
    pip r = pebs_ip (mem_op seed) + delta \<and> record_type r = MEMORY_OP \<and>
    record_no r = record_no seed \<and> thread_id r = thread_id seed \<and> locks r = locks seed"
proof -
  obtain r where r: "extended_record seed wr (pebs_ip (mem_op seed) + delta) a = Inr r"
    "st' = st\<lparr>new_records := new_records st @ [r]\<rparr>"
    using assms by (auto simp: write_new_def)
  obtain ls where ls: "copy_prefix (lockset seed) (lock_count seed) (lockset zero_record) = Inr ls"
    using r(1) by (auto simp: extended_record_def)
  have "take (nat (lock_count seed)) ls = take (nat (lock_count seed)) (lockset seed)"
    using ls by (auto simp: copy_prefix_Inr_iff)
  with r ls show ?thesis
    by (auto simp: extended_record_def locks_def union_view_defs union_store_defs)
qed

text \<open>What a step leaves: some more records, and the register map of its direction.\<close>

lemma spoil_views [simp]:
  "raw_record (spoil d i st) = raw_record st" "new_records (spoil d i st) = new_records st"
  "forward_reg_map (spoil 1 i st) = InvalidateRegister (forward_reg_map st) (GetRegisterOperand i 1)"
  "backward_reg_map (spoil 0 i st) = InvalidateRegister (backward_reg_map st) (GetRegisterOperand i 1)"
  "backward_reg_map (spoil 1 i st) = backward_reg_map st" "forward_reg_map (spoil 0 i st) = forward_reg_map st"
  by (auto simp: spoil_def)

lemma step_cases:
  assumes "ComputeNewSampleWhole i index offset d st = Inr (go, st')" and "d = 0 \<or> d = 1"
    and "array_read (raw_record st) index = Inr seed" and "delta = (if d = 1 then offset else - offset)"
  obtains (stopped) "st' = st" "\<not> go" "\<not> InsnCanHandle i"
  | (plain) "st' = st" "go" "InsnCanHandle i" "\<not> moves i \<or> IsMemOperand i 1 \<and> \<not> IsMemOperand i 0"
  | (spoiled) "st' = spoil d i st" "go" "moves i" "\<not> IsMemOperand i 1 \<or> IsMemOperand i 0"
  | (load) a r where "st' = (spoil d i st)\<lparr>new_records := new_records st @ [r]\<rparr>" "go" "moves i" "IsMemOperand i 0" "a \<noteq> - 1"
      "ComputeMemory i index 0 d (if d = 1 then st else spoil d i st) = Inr a"
      "a = effective_address i 0 \<sigma> \<Longrightarrow> access_at i delta seed \<sigma> r"
  | (store) a r where "st' = st\<lparr>new_records := new_records st @ [r]\<rparr>" "go" "moves i" "IsMemOperand i 1" "\<not> IsMemOperand i 0" "a \<noteq> - 1"
      "ComputeMemory i index 1 d st = Inr a" "a = effective_address i 1 \<sigma> \<Longrightarrow> access_at i delta seed \<sigma> r"
proof (cases "InsnCanHandle i \<and> moves i")
  case False
  then show thesis using assms(1) stopped plain by (auto simp: ComputeNewSampleWhole_def moves_def Let_def split: if_splits)
next
  case True
  have seed: "array_read (raw_record (spoil d i st)) index = Inr seed" using assms(3) by simp
  consider (mem0) "IsMemOperand i 0" | (mem1) "\<not> IsMemOperand i 0" "IsMemOperand i 1" | (reg) "\<not> IsMemOperand i 0" "\<not> IsMemOperand i 1"
    by blast
  then show thesis
  proof cases
    case mem0
    then obtain a where a: "ComputeMemory i index 0 d (if d = 1 then st else spoil d i st) = Inr a"
      "(if a = - 1 then Inr (True, spoil d i st)
        else rbind (write_new index 0 delta a (spoil d i st)) (\<lambda>st2. Inr (True, st2))) = Inr (go, st')"
      using assms(1,2,4) True by (auto simp: ComputeNewSampleWhole_def moves_def Let_def split: if_splits)
    show thesis
    proof (cases "a = - 1")
      case True
      with a mem0 \<open>InsnCanHandle i \<and> moves i\<close> spoiled show thesis by auto
    next
      case False
      then have w: "write_new index 0 delta a (spoil d i st) = Inr st'" and go using a(2) by auto
      from write_new_ok [OF w seed] mem0 True False a(1) \<open>go\<close> load show thesis by (fastforce simp: access_at_def Let_def)
    qed
  next
    case mem1
    then obtain a where a: "ComputeMemory i index 1 d st = Inr a"
      "(if a = - 1 then Inr (True, st) else rbind (write_new index 1 delta a st) (\<lambda>st2. Inr (True, st2))) = Inr (go, st')"
      using assms(1,2,4) True by (auto simp: ComputeNewSampleWhole_def moves_def Let_def split: if_splits)
    show thesis
    proof (cases "a = - 1")
      case True
      with a mem1 \<open>InsnCanHandle i \<and> moves i\<close> plain show thesis by auto
    next
      case False
      then have w: "write_new index 1 delta a st = Inr st'" and go using a(2) by auto
      from write_new_ok [OF w assms(3)] mem1 True False a(1) \<open>go\<close> store show thesis by (fastforce simp: access_at_def Let_def)
    qed
  next
    case reg
    with assms(1) True spoiled show thesis by (auto simp: ComputeNewSampleWhole_def moves_def Let_def split: if_splits)
  qed
qed

lemma exec_frame:
  assumes "processor_ok exec" and "InsnCanHandle i"
  shows "map_option phys (GetRegisterOperand i 1) \<noteq> Some c \<Longrightarrow> exec i \<sigma> c = \<sigma> c"
    and "\<not> moves i \<or> IsMemOperand i 1 \<Longrightarrow> exec i \<sigma> = \<sigma>"
  using assms by (auto simp: processor_ok_def written_reg_def fun_eq_iff)

lemma moves_handled: "moves i \<Longrightarrow> InsnCanHandle i"
  by (auto simp: moves_def InsnCanHandle_def)

definition adds :: "sim_state \<Rightarrow> sim_state \<Rightarrow> (Record \<Rightarrow> bool) \<Rightarrow> bool" where
  "adds st st' P \<longleftrightarrow> raw_record st' = raw_record st \<and> (\<exists>rs. new_records st' = new_records st @ rs \<and> (\<forall>r\<in>set rs. P r))"

lemma adds_refl: "raw_record st' = raw_record st \<Longrightarrow> new_records st' = new_records st \<Longrightarrow> adds st st' P"
  by (simp add: adds_def)

lemma adds_one: "raw_record st' = raw_record st \<Longrightarrow> new_records st' = new_records st @ [r] \<Longrightarrow> P r \<Longrightarrow> adds st st' P"
  by (simp add: adds_def)

lemma adds_trans: "adds a b P \<Longrightarrow> adds b c P \<Longrightarrow> adds a c P"
  by (auto simp: adds_def)

lemma adds_mono: "adds a b P \<Longrightarrow> (\<And>r. P r \<Longrightarrow> Q r) \<Longrightarrow> adds a b Q"
  by (auto simp: adds_def)

lemma forward_step:
  assumes "processor_ok exec" and "insn_ok i" and "ComputeNewSampleWhole i index offset 1 st = Inr (go, st')"
    and "array_read (raw_record st) index = Inr seed" and "holds_in (forward_reg_map st) (mem_op seed) \<sigma>"
  shows "adds st st' (access_at i offset seed \<sigma>)" and "backward_reg_map st' = backward_reg_map st"
    and "go \<Longrightarrow> holds_in (forward_reg_map st') (mem_op seed) (exec i \<sigma>)"
proof -
  have sp: "holds_in (InvalidateRegister (forward_reg_map st) (GetRegisterOperand i 1)) (mem_op seed) (exec i \<sigma>)" if "moves i"
    using assms(5,2) exec_frame(1) [OF assms(1) moves_handled [OF that]] by (rule holds_in_spoil)
  have dm: "holds_in (dir_map 1 st) (mem_op seed) \<sigma>" using assms(5) by (simp add: dir_map_def)
  have d: "(1 :: int) = 0 \<or> (1 :: int) = 1" and delta: "offset = (if (1 :: int) = 1 then offset else - offset)" by simp_all
  have "adds st st' (access_at i offset seed \<sigma>) \<and> backward_reg_map st' = backward_reg_map st \<and>
      (go \<longrightarrow> holds_in (forward_reg_map st') (mem_op seed) (exec i \<sigma>))"
    using assms(3) d assms(4) delta
  proof (rule step_cases [where \<sigma> = \<sigma>])
    assume "st' = st" "InsnCanHandle i" "\<not> moves i \<or> IsMemOperand i 1 \<and> \<not> IsMemOperand i 0"
    then show ?thesis using assms(5) exec_frame(2) [OF assms(1), of i \<sigma>] by (auto intro: adds_refl)
  next
    fix a r
    assume l: "st' = (spoil 1 i st)\<lparr>new_records := new_records st @ [r]\<rparr>" "moves i" "a \<noteq> - 1"
      "ComputeMemory i index 0 1 (if (1 :: int) = 1 then st else spoil 1 i st) = Inr a"
      "a = effective_address i 0 \<sigma> \<Longrightarrow> access_at i offset seed \<sigma> r"
    have "a = effective_address i 0 \<sigma>"
      using ComputeMemory_ok [of i index 0 1 st a seed \<sigma>] l(3,4) assms(2,4) dm by simp
    with l sp show ?thesis by (auto intro: adds_one)
  next
    fix a r
    assume l: "st' = st\<lparr>new_records := new_records st @ [r]\<rparr>" "moves i" "IsMemOperand i 1" "a \<noteq> - 1"
      "ComputeMemory i index 1 1 st = Inr a" "a = effective_address i 1 \<sigma> \<Longrightarrow> access_at i offset seed \<sigma> r"
    have "a = effective_address i 1 \<sigma>"
      using ComputeMemory_ok [of i index 1 1 st a seed \<sigma>] l(4,5) assms(2,4) dm by simp
    with l assms(5) exec_frame(2) [OF assms(1) moves_handled [OF l(2)], of \<sigma>] show ?thesis by (auto intro: adds_one)
  qed (use sp in \<open>auto intro: adds_refl\<close>)
  then show "adds st st' (access_at i offset seed \<sigma>)" "backward_reg_map st' = backward_reg_map st"
    "go \<Longrightarrow> holds_in (forward_reg_map st') (mem_op seed) (exec i \<sigma>)" by blast+
qed

lemma backward_step:
  assumes "processor_ok exec" and "insn_ok i" and "ComputeNewSampleWhole i index offset 0 st = Inr (go, st')"
    and "array_read (raw_record st) index = Inr seed" and "holds_in (backward_reg_map st) (mem_op seed) (exec i \<sigma>)"
  shows "adds st st' (access_at i (- offset) seed \<sigma>)" and "forward_reg_map st' = forward_reg_map st"
    and "go \<Longrightarrow> holds_in (backward_reg_map st') (mem_op seed) \<sigma>"
proof -
  have sp: "holds_in (InvalidateRegister (backward_reg_map st) (GetRegisterOperand i 1)) (mem_op seed) \<sigma>" if "moves i"
    using assms(5,2) exec_frame(1) [OF assms(1) moves_handled [OF that], symmetric] by (rule holds_in_spoil)
  have d: "(0 :: int) = 0 \<or> (0 :: int) = 1" and delta: "- offset = (if (0 :: int) = 1 then offset else - offset)" by simp_all
  have "adds st st' (access_at i (- offset) seed \<sigma>) \<and> forward_reg_map st' = forward_reg_map st \<and>
      (go \<longrightarrow> holds_in (backward_reg_map st') (mem_op seed) \<sigma>)"
    using assms(3) d assms(4) delta
  proof (rule step_cases [where \<sigma> = \<sigma>])
    assume "st' = st" "InsnCanHandle i" "\<not> moves i \<or> IsMemOperand i 1 \<and> \<not> IsMemOperand i 0"
    then show ?thesis using assms(5) exec_frame(2) [OF assms(1), of i \<sigma>] by (auto intro: adds_refl)
  next
    fix a r
    assume l: "st' = (spoil 0 i st)\<lparr>new_records := new_records st @ [r]\<rparr>" "moves i" "a \<noteq> - 1"
      "ComputeMemory i index 0 0 (if (0 :: int) = 1 then st else spoil 0 i st) = Inr a"
      "a = effective_address i 0 \<sigma> \<Longrightarrow> access_at i (- offset) seed \<sigma> r"
    have "a = effective_address i 0 \<sigma>"
      using ComputeMemory_ok [of i index 0 0 "spoil 0 i st" a seed \<sigma>] l(3,4) assms(2,4) sp [OF l(2)]
      by (simp add: dir_map_def)
    with l sp show ?thesis by (auto intro: adds_one)
  next
    fix a r
    assume l: "st' = st\<lparr>new_records := new_records st @ [r]\<rparr>" "moves i" "IsMemOperand i 1" "a \<noteq> - 1"
      "ComputeMemory i index 1 0 st = Inr a" "a = effective_address i 1 \<sigma> \<Longrightarrow> access_at i (- offset) seed \<sigma> r"
    have id: "exec i \<sigma> = \<sigma>" using exec_frame(2) [OF assms(1) moves_handled [OF l(2)]] l(3) by blast
    have "a = effective_address i 1 \<sigma>"
      using ComputeMemory_ok [of i index 1 0 st a seed \<sigma>] l(4,5) assms(2,4,5) id by (simp add: dir_map_def)
    with l assms(5) id show ?thesis by (auto intro: adds_one)
  qed (use sp in \<open>auto intro: adds_refl\<close>)
  then show "adds st st' (access_at i (- offset) seed \<sigma>)" "forward_reg_map st' = forward_reg_map st"
    "go \<Longrightarrow> holds_in (backward_reg_map st') (mem_op seed) \<sigma>" by blast+
qed

section \<open>A basic block\<close>

text \<open>
  A straight run through the block of instruction \<open>n\<close>: \<open>s k\<close> is the machine state before
  instruction \<open>k\<close>. The registers of the sample are those before the sampled instruction.
\<close>

definition straight_run :: "(insn \<Rightarrow> registers \<Rightarrow> registers) \<Rightarrow> mao_function \<Rightarrow> nat \<Rightarrow> (nat \<Rightarrow> registers) \<Rightarrow> bool" where
  "straight_run exec f n s \<longleftrightarrow> (\<forall>k<length (insns f). bb_of f k = bb_of f n \<longrightarrow> s (Suc k) = exec (insns f ! k) (s k))"

definition registers_at :: "pebs_entry \<Rightarrow> registers \<Rightarrow> bool" where
  "registers_at e \<sigma> \<longleftrightarrow> (\<forall>r\<in>set known_regs. \<sigma> (phys r) = sampled_register e (Some r))"

text \<open>A record is an access of some other instruction of the block, in the state it runs in.\<close>

definition extension_of :: "mao_function \<Rightarrow> nat \<Rightarrow> Record \<Rightarrow> (nat \<Rightarrow> registers) \<Rightarrow> Record \<Rightarrow> bool" where
  "extension_of f n seed s r \<longleftrightarrow>
     (\<exists>k<length (insns f). k \<noteq> n \<and> bb_of f k = bb_of f n \<and> access_at (insns f ! k) (offsets f k - offsets f n) seed (s k) r)"

lemma holds_in_start: "registers_at e \<sigma> \<Longrightarrow> holds_in m e \<sigma>"
  by (simp add: registers_at_def holds_in_def)

lemma backward_loop_ok:
  assumes "processor_ok exec" and "list_all insn_ok (insns f)" and "straight_run exec f n s" and "n < length (insns f)"
  shows "backward_loop f index n k st = Inr st' \<Longrightarrow> k \<le> n \<Longrightarrow> array_read (raw_record st) index = Inr seed \<Longrightarrow>
    holds_in (backward_reg_map st) (mem_op seed) (s k) \<Longrightarrow>
    adds st st' (extension_of f n seed s) \<and> forward_reg_map st' = forward_reg_map st"
proof (induction k arbitrary: st)
  case (Suc k)
  let ?i = "insns f ! k"
  show ?case
  proof (cases "bb_of f k = bb_of f n")
    case False
    with Suc.prems show ?thesis by (simp add: adds_refl)
  next
    case True
    then obtain go st1 where step: "ComputeNewSampleWhole ?i index (offsets f n - offsets f k) 0 st = Inr (go, st1)"
      and rest: "(if \<not> go \<or> is_first f n k then Inr st1 else backward_loop f index n k st1) = Inr st'"
      using Suc.prems(1) by auto
    have k: "k < length (insns f)" "insn_ok ?i" "s (Suc k) = exec ?i (s k)"
      using Suc.prems(2) assms(2-4) True by (auto simp: list_all_length straight_run_def)
    note b = backward_step [OF assms(1) k(2) step Suc.prems(3), of "s k"]
    have "extension_of f n seed s r" if "access_at ?i (offsets f k - offsets f n) seed (s k) r" for r
      unfolding extension_of_def using that k(1) True Suc.prems(2) by (intro exI [of _ k]) auto
    moreover have "adds st st1 (access_at ?i (offsets f k - offsets f n) seed (s k))" using b(1) Suc.prems(4) k(3) by simp
    ultimately have one: "adds st st1 (extension_of f n seed s)" by (rule adds_mono [rotated])
    show ?thesis
    proof (cases "\<not> go \<or> is_first f n k")
      case True
      with one rest b(2) Suc.prems(4) k(3) show ?thesis by auto
    next
      case False
      then have "adds st1 st' (extension_of f n seed s) \<and> forward_reg_map st' = forward_reg_map st1"
        using rest b(3) Suc.prems(2-4) k(3) one by (intro Suc.IH) (auto simp: adds_def)
      with one b(2) Suc.prems(4) k(3) adds_trans show ?thesis by metis
    qed
  qed
qed (simp add: adds_refl)

lemma forward_loop_ok:
  assumes "processor_ok exec"
  shows "list_all insn_ok (insns f) \<Longrightarrow> straight_run exec f n s \<Longrightarrow> forward_loop f index n k st = Inr st' \<Longrightarrow> n < k \<Longrightarrow> array_read (raw_record st) index = Inr seed \<Longrightarrow>
    holds_in (forward_reg_map st) (mem_op seed) (s k) \<Longrightarrow> adds st st' (extension_of f n seed s)"
proof (induction f index n k st rule: forward_loop.induct)
  case (1 f index n k st)
  let ?i = "insns f ! k"
  show ?case
  proof (cases "k < length (insns f) \<and> bb_of f k = bb_of f n")
    case False
    with "1.prems"(3) show ?thesis by (subst (asm) forward_loop.simps) (auto intro: adds_refl)
  next
    case True
    then obtain go st1 where step: "ComputeNewSampleWhole ?i index (offsets f k - offsets f n) 1 st = Inr (go, st1)"
      and rest: "(if \<not> go \<or> is_last f n k then Inr st1 else forward_loop f index n (Suc k) st1) = Inr st'"
      using "1.prems"(3) by (subst (asm) forward_loop.simps) auto
    have k: "insn_ok ?i" "s (Suc k) = exec ?i (s k)"
      using True "1.prems"(1,2) by (auto simp: list_all_length straight_run_def)
    note b = forward_step [OF assms(1) k(1) step "1.prems"(5,6)]
    have "extension_of f n seed s r" if "access_at ?i (offsets f k - offsets f n) seed (s k) r" for r
      unfolding extension_of_def using that True "1.prems"(4) by (intro exI [of _ k]) auto
    with b(1) have one: "adds st st1 (extension_of f n seed s)" by (rule adds_mono)
    show ?thesis
    proof (cases "\<not> go \<or> is_last f n k")
      case True
      with one rest show ?thesis by simp
    next
      case False
      then have "adds st1 st' (extension_of f n seed s)"
        using rest b(3) "1.prems"(1,2,4,5) k(2) one step \<open>k < length (insns f) \<and> bb_of f k = bb_of f n\<close>
        by (intro "1.IH") (auto simp: adds_def)
      with one show ?thesis by (rule adds_trans)
    qed
  qed
qed

section \<open>Properties\<close>

lemma ExecuteSimWhole_adds:
  assumes "processor_ok exec" and "list_all insn_ok (insns f)" and "n < length (insns f)" and "straight_run exec f n s"
    and "array_read (raw_record st) index = Inr seed" and "registers_at (mem_op seed) (s n)"
    and "ExecuteSimWhole f n index st = Inr st'"
  shows "adds st st' (extension_of f n seed s)"
proof -
  let ?st0 = "st\<lparr>forward_reg_map := cleared\<rparr>" and ?i = "insns f ! n"
  have i: "insn_ok ?i" "s (Suc n) = exec ?i (s n)"
    using assms(2-4) by (auto simp: list_all_length straight_run_def)
  show ?thesis
  proof (cases "InsnCanHandle ?i")
    case False
    with assms(7) show ?thesis by (auto simp: ExecuteSimWhole_def Let_def split: if_splits intro: adds_refl)
  next
    case True
    define mid where "mid st1 = (if moves ?i then spoil 1 ?i (st1\<lparr>backward_reg_map := cleared\<rparr>) else st1\<lparr>backward_reg_map := cleared\<rparr>)" for st1
    obtain b where bb: "bb_of f n = Some b" using assms(7) by (cases "bb_of f n") (simp_all add: ExecuteSimWhole_def Let_def)
    have run: "ExecuteSimWhole f n index st =
        rbind (if is_first f n n then Inr ?st0 else backward_loop f index n n ?st0) (\<lambda>st1.
        rbind (if is_last f n n then Inr (mid st1) else forward_loop f index n (Suc n) (mid st1)) (\<lambda>st4.
          Inr (st4\<lparr>forward_reg_map := cleared\<rparr>)))"
      using True by (simp add: ExecuteSimWhole_def Let_def mid_def moves_def bb)
    obtain st1 st4 where b: "(if is_first f n n then Inr ?st0 else backward_loop f index n n ?st0) = Inr st1"
      and fw: "(if is_last f n n then Inr (mid st1) else forward_loop f index n (Suc n) (mid st1)) = Inr st4"
      and st': "st' = st4\<lparr>forward_reg_map := cleared\<rparr>"
      using assms(7) unfolding run rbind_Inr_iff by blast
    have st1: "adds ?st0 st1 (extension_of f n seed s) \<and> forward_reg_map st1 = cleared"
      using b backward_loop_ok [OF assms(1,2,4,3), of index n ?st0 st1 seed] assms(5,6)
      by (auto simp: holds_in_start adds_refl split: if_splits)
    have m: "raw_record (mid st1) = raw_record st1" "new_records (mid st1) = new_records st1" by (simp_all add: mid_def)
    have "holds_in (forward_reg_map (mid st1)) (mem_op seed) (s (Suc n))"
    proof (cases "moves ?i")
      case False
      with exec_frame(2) [OF assms(1) True] i(2) assms(6) show ?thesis by (simp add: holds_in_start)
    next
      case True
      have "holds_in (InvalidateRegister (forward_reg_map st1) (GetRegisterOperand ?i 1)) (mem_op seed) (exec ?i (s n))"
        using holds_in_start [OF assms(6)] i(1) exec_frame(1) [OF assms(1) \<open>InsnCanHandle ?i\<close>] by (rule holds_in_spoil)
      with True i(2) show ?thesis by (simp add: mid_def)
    qed
    then have "adds (mid st1) st4 (extension_of f n seed s)"
      using fw forward_loop_ok [OF assms(1,2,4), of index "Suc n" "mid st1" st4 seed] st1 assms(5) m
      by (auto simp: adds_def split: if_splits)
    with st1 m show ?thesis by (auto simp: adds_def st')
  qed
qed

text \<open>C11: Every record the pass adds to a sample is an access that the sampled thread makes in the same
  basic block: the address is the effective address of a neighbouring instruction in the machine
  state in which it runs, with its direction and its position; number, thread and locks are those
  of the sample. This holds for every processor on which the handled instructions change their
  destination only, for destinations the pass knows by name and addresses formed from 64-bit registers.
  A \<open>lea\<close> counts as a load of the address it computes.\<close>

theorem extended_samples_are_accesses:
  assumes "processor_ok exec" and "list_all insn_ok (insns f)" and "n < length (insns f)" and "straight_run exec f n s"
    and "array_read (raw_record st) index = Inr seed" and "registers_at (mem_op seed) (s n)"
    and "ExecuteSimWhole f n index st = Inr st'"
  shows "raw_record st' = raw_record st \<and>
    (\<exists>rs. new_records st' = new_records st @ rs \<and> (\<forall>r\<in>set rs. extension_of f n seed s r))"
  using ExecuteSimWhole_adds [OF assms] by (simp add: adds_def)

definition example_insn :: insn where
  "example_insn = \<lparr>insn_op = OP_mov, HasTarget = False, IsPredicated = False, NumOperands = 2, IsMemOperand = (\<lambda>_. False), IsRegisterOperand = (\<lambda>_. True),
     GetRegisterOperand = (\<lambda>_. None), GetBaseRegister = None, GetIndexRegister = None, GetLog2ScaleFactor = 0,
     GetDisplacement = (\<lambda>_. None)\<rparr>"

definition load :: "long \<Rightarrow> reg_entry \<Rightarrow> reg_entry \<Rightarrow> insn" where
  "load d base target = example_insn\<lparr>IsMemOperand := (\<lambda>k. k = 0), GetRegisterOperand := (\<lambda>k. if k = 1 then Some target else None),
     GetBaseRegister := Some base, GetDisplacement := (\<lambda>k. if k = 0 then Some (O_constant d) else None)\<rparr>"

definition store :: "reg_entry \<Rightarrow> long \<Rightarrow> reg_entry \<Rightarrow> insn" where
  "store source d base = example_insn\<lparr>IsMemOperand := (\<lambda>k. k = 1), GetRegisterOperand := (\<lambda>k. if k = 0 then Some source else None),
     GetBaseRegister := Some base, GetDisplacement := (\<lambda>k. if k = 1 then Some (O_constant d) else None)\<rparr>"

text \<open>A machine on which every handled instruction leaves 0 in its destination.\<close>

definition zero_exec :: "insn \<Rightarrow> registers \<Rightarrow> registers" where
  "zero_exec i \<sigma> = (case written_reg i of None \<Rightarrow> \<sigma> | Some c \<Rightarrow> \<sigma>(c := 0))"

lemma zero_exec_ok: "processor_ok zero_exec"
  by (auto simp: processor_ok_def zero_exec_def split: option.splits)

definition one_block :: "insn list \<Rightarrow> mao_function" where
  "one_block is = \<lparr>insns = is, bb_of = (\<lambda>_. Some 0), first_entry = (\<lambda>_. None), last_entry = (\<lambda>_. None), offsets = (\<lambda>k. 4 * of_nat k)\<rparr>"

fun zero_run :: "insn list \<Rightarrow> registers \<Rightarrow> nat \<Rightarrow> registers" where
  "zero_run is \<sigma> 0 = \<sigma>"
| "zero_run is \<sigma> (Suc k) = zero_exec (is ! k) (zero_run is \<sigma> k)"

lemma zero_run_straight: "straight_run zero_exec (one_block is) n (zero_run is \<sigma>)"
  by (simp add: straight_run_def one_block_def)

definition example_seed :: Record where
  "example_seed = zero_record\<lparr>record_no := 3, thread_id := 7, record_type := MEMORY_OP,
     mem_op := zero_entry\<lparr>pebs_ip := 4096, pebs_eax := 64, pebs_r8 := 5\<rparr>, lock_count := 1, lockset := 33 # replicate 9 0\<rparr>"

definition example_registers :: registers where
  "example_registers r = sampled_register (mem_op example_seed) (Some r)"

definition example_state :: sim_state where
  "example_state = \<lparr>raw_record = [example_seed], new_records = [], backward_reg_map = cleared, forward_reg_map = cleared\<rparr>"

lemma example_registers_at: "registers_at (mem_op example_seed) example_registers"
proof -
  have "list_all (\<lambda>r. example_registers (phys r) = sampled_register (mem_op example_seed) (Some r)) known_regs" by code_simp
  then show ?thesis by (simp add: registers_at_def list_all_iff)
qed

lemma example_seed_read: "array_read (raw_record example_state) 0 = Inr example_seed"
  by (simp add: example_state_def array_read_def)

definition example_block :: "insn list" where
  "example_block = [store ''rcx'' 8 ''rdx'', load 16 ''rax'' ''rbx'', load 0 ''rax'' ''rdi'']"

theorem extended_samples_are_accesses_witness:
  "\<exists>st'. ExecuteSimWhole (one_block example_block) 0 0 example_state = Inr st' \<and> length (new_records st') = 2 \<and>
     (\<forall>r\<in>set (new_records st'). extension_of (one_block example_block) 0 example_seed (zero_run example_block example_registers) r)"
proof -
  have "map_sum (\<lambda>_. ()) (length \<circ> new_records) (ExecuteSimWhole (one_block example_block) 0 0 example_state) = Inr 2"
    by code_simp
  then obtain st' where st': "ExecuteSimWhole (one_block example_block) 0 0 example_state = Inr st'" "length (new_records st') = 2"
    by (cases "ExecuteSimWhole (one_block example_block) 0 0 example_state") auto
  have "list_all insn_ok (insns (one_block example_block))" "0 < length (insns (one_block example_block))"
    by (auto simp: one_block_def example_block_def load_def store_def example_insn_def insn_ok_def known_regs_def wide_regs_def)
  moreover have "registers_at (mem_op example_seed) (zero_run example_block example_registers 0)"
    by (simp add: example_registers_at)
  ultimately show ?thesis
    using extended_samples_are_accesses [OF zero_exec_ok _ _ zero_run_straight example_seed_read _ st'(1)] st'
    by (auto simp: example_state_def)
qed

definition narrow_block :: "insn list" where
  "narrow_block = [load 0 ''rax'' ''r8d'', load 0 ''r8'' ''rbx'']"

text \<open>A load into the lower half of one of the registers \<open>r8\<close> to \<open>r15\<close> does not mark the whole register,
  because only the eight older registers have their 32-bit names in the tables: the pass then adds
  a record with an address nobody accesses.\<close>

lemma narrow_target_missed:
  "processor_ok zero_exec \<and> straight_run zero_exec (one_block narrow_block) 0 (zero_run narrow_block example_registers) \<and>
   registers_at (mem_op example_seed) example_registers \<and>
   (\<exists>st' r. ExecuteSimWhole (one_block narrow_block) 0 0 example_state = Inr st' \<and> new_records st' = [r] \<and>
      memory_address r = 5 \<and> effective_address (narrow_block ! 1) 0 (zero_run narrow_block example_registers 1) = 0)"
proof (intro conjI)
  have run: "map_sum (\<lambda>_. ()) (map memory_address \<circ> new_records) (ExecuteSimWhole (one_block narrow_block) 0 0 example_state) = Inr [5]"
    by code_simp
  then obtain st' r where "ExecuteSimWhole (one_block narrow_block) 0 0 example_state = Inr st'" "new_records st' = [r]" "memory_address r = 5"
    by (cases "ExecuteSimWhole (one_block narrow_block) 0 0 example_state") auto
  moreover have "effective_address (narrow_block ! 1) 0 (zero_run narrow_block example_registers 1) = 0" by code_simp
  ultimately show "\<exists>st' r. ExecuteSimWhole (one_block narrow_block) 0 0 example_state = Inr st' \<and> new_records st' = [r] \<and>
      memory_address r = 5 \<and> effective_address (narrow_block ! 1) 0 (zero_run narrow_block example_registers 1) = 0" by blast
qed (rule zero_exec_ok zero_run_straight example_registers_at)+

section \<open>The sampled instruction\<close>

text \<open>The operand is one the pass can resolve; all ones stands for unknown.\<close>

definition resolvable :: "insn \<Rightarrow> nat \<Rightarrow> registers \<Rightarrow> bool" where
  "resolvable i k \<sigma> \<longleftrightarrow> GetLog2ScaleFactor i < 4 \<and> GetBaseRegister i \<noteq> Some ''rbp'' \<and> GetBaseRegister i \<noteq> Some ''rsp'' \<and>
     - 1 \<notin> {GetSimpleDisp i k, operand_value \<sigma> (GetBaseRegister i), operand_value \<sigma> (GetIndexRegister i), effective_address i k \<sigma>}"

lemma scale_total: "GetLog2ScaleFactor i < 4 \<Longrightarrow> GetScaleValue i = Inr (2 ^ GetLog2ScaleFactor i)"
  using scale_ok [of i] by (cases "GetScaleValue i") (auto simp: GetScaleValue_def array_read_def split: if_splits)

lemma own_register_value:
  assumes "array_read (raw_record st) index = Inr seed" and "registers_at (mem_op seed) \<sigma>" and "set_option reg \<subseteq> set wide_regs"
  shows "GetValueFromRegister reg index 2 st = Inr (operand_value \<sigma> reg)"
  using assms by (cases reg) (auto simp: GetValueFromRegister_def operand_value_def registers_at_def wide_known sampled_register_def [of _ None])

lemma own_address:
  assumes "array_read (raw_record st) index = Inr seed" and "registers_at (mem_op seed) \<sigma>" and "insn_ok i" and "resolvable i k \<sigma>"
  shows "ComputeMemory i index k 2 st = Inr (effective_address i k \<sigma>)"
proof -
  have regs: "set_option (GetBaseRegister i) \<subseteq> set wide_regs" "set_option (GetIndexRegister i) \<subseteq> set wide_regs"
    using assms(3) by (auto simp: insn_ok_def)
  have r: "GetLog2ScaleFactor i < 4" "GetBaseRegister i \<noteq> Some ''rbp''" "GetBaseRegister i \<noteq> Some ''rsp''" "GetSimpleDisp i k \<noteq> - 1"
      "operand_value \<sigma> (GetBaseRegister i) \<noteq> - 1" "operand_value \<sigma> (GetIndexRegister i) \<noteq> - 1"
    using assms(4) by (auto simp: resolvable_def)
  have "(if GetIndexRegister i \<noteq> None then GetValueFromRegister (GetIndexRegister i) index 2 st else Inr 0) =
      Inr (operand_value \<sigma> (GetIndexRegister i))"
    using own_register_value [OF assms(1,2) regs(2)] by (simp add: operand_value_def)
  with r own_register_value [OF assms(1,2) regs(1)] show ?thesis
    by (simp add: ComputeMemory_def scale_total effective_address_def)
qed

lemma update_operand_memory:
  assumes "array_read (raw_record st) index = Inr seed" and "registers_at (mem_op seed) \<sigma>" and "insn_ok i" and "resolvable i k \<sigma>"
    and "IsMemOperand i k"
  shows "\<exists>st'. update_operand i index k wr st = Inr st' \<and> new_records st' = new_records st \<and>
    (\<forall>j. array_read (raw_record st') j =
      (if index = j then Inr ((set_memory_address (effective_address i k \<sigma>) seed)\<lparr>is_write := wr\<rparr>) else array_read (raw_record st) j))"
proof -
  let ?r = "(set_memory_address (effective_address i k \<sigma>) seed)\<lparr>is_write := wr\<rparr>"
  obtain rs where rs: "array_write (raw_record st) index ?r = Inr rs"
    using assms(1) by (auto simp: array_read_def array_write_def split: if_splits)
  have "effective_address i k \<sigma> \<noteq> - 1" using assms(4) by (auto simp: resolvable_def)
  with rs assms own_address [OF assms(1-4)] have "update_operand i index k wr st = Inr (st\<lparr>raw_record := rs\<rparr>)"
    by (simp add: update_operand_def update_raw_def)
  with array_read_write [OF rs] show ?thesis by auto
qed

text \<open>C39: The address of a sampled move is what the processor accesses: with an operand the pass can resolve, the
  record of the sample in the log gets the effective address of the memory operand in the sampled
  registers and the direction of the access, and keeps thread, number, position and locks; all
  other records stay as they are.\<close>

theorem sampled_move_gets_its_address:
  assumes "array_read (raw_record st) index = Inr seed" and "registers_at (mem_op seed) \<sigma>" and "insn_ok i" and "resolvable i k \<sigma>"
    and "IsOpMov i" and "IsMemOperand i k" and "k = 0 \<and> \<not> IsMemOperand i 1 \<or> k = 1 \<and> \<not> IsMemOperand i 0"
  shows "\<exists>st' r. UpdateMemory i index st = Inr st' \<and> array_read (raw_record st') index = Inr r \<and>
    memory_address r = effective_address i k \<sigma> \<and> is_write r = int k \<and> mem_op r = mem_op seed \<and> record_no r = record_no seed \<and>
    thread_id r = thread_id seed \<and> record_type r = record_type seed \<and> pip r = pip seed \<and> locks r = locks seed \<and>
    new_records st' = new_records st \<and>
    (\<forall>j. j \<noteq> index \<longrightarrow> array_read (raw_record st') j = array_read (raw_record st) j)"
proof -
  let ?r = "(set_memory_address (effective_address i k \<sigma>) seed)\<lparr>is_write := int k\<rparr>"
  obtain st' where st': "update_operand i index k (int k) st = Inr st'" "new_records st' = new_records st"
      "\<And>j. array_read (raw_record st') j = (if index = j then Inr ?r else array_read (raw_record st) j)"
    using update_operand_memory [OF assms(1-4,6), of "int k"] by blast
  have "UpdateMemory i index st = update_operand i index k (int k) st"
    using assms(5,7) st'(1) by (auto simp: UpdateMemory_def update_operand_def)
  with st' show ?thesis
    by (intro exI [of _ st'] exI [of _ ?r]) (simp add: union_view_defs union_store_defs locks_def)
qed

theorem sampled_move_gets_its_address_witness:
  "\<exists>st' r. UpdateMemory (load 16 ''rax'' ''rbx'') 0 example_state = Inr st' \<and> array_read (raw_record st') 0 = Inr r \<and>
     memory_address r = 80 \<and> is_write r = 0 \<and> thread_id r = 7 \<and> locks r = {33}"
proof -
  have "insn_ok (load 16 ''rax'' ''rbx'')" "IsOpMov (load 16 ''rax'' ''rbx'')" "IsMemOperand (load 16 ''rax'' ''rbx'') 0"
    "\<not> IsMemOperand (load 16 ''rax'' ''rbx'') 1" "resolvable (load 16 ''rax'' ''rbx'') 0 example_registers"
    "effective_address (load 16 ''rax'' ''rbx'') 0 example_registers = 80" by code_simp+
  then show ?thesis
    using sampled_move_gets_its_address [OF example_seed_read example_registers_at, of "load 16 ''rax'' ''rbx''" 0]
    by (auto simp: example_seed_def locks_def)
qed

end
