(* ===== verification/Tool_Convert.thy ===== *)
theory Tool_Convert
  imports Racez_Record C_Library
begin

text \<open>
  The converter (tools/convert.cc): it takes the instruction addresses of a binary log, looks
  them up in the symbol table that \<open>readelf\<close> prints and in the line table through
  \<open>addr2line\<close>, and combines both into the text file the Mao pass reads. The temporary files
  are strings. The two programs are parameters, and so is the order in which \<open>std::sort\<close>
  leaves entries with equal offsets.
\<close>

section \<open>Symbols\<close>

record RacezFunctionEntry =
  function_name :: string
  entry_offset :: ptr
  entry_size :: ptr

definition MyCompare :: "RacezFunctionEntry \<Rightarrow> RacezFunctionEntry \<Rightarrow> bool" where
  "MyCompare e1 e2 = (entry_offset e1 < entry_offset e2)"

interpretation cmp: strict_weak_order MyCompare
  by unfold_locales (auto simp: MyCompare_def)

text \<open>
  \<open>ReadSymLine\<close>: the next line and the text behind it. A line that does not fit the buffer
  fails the assertion; the last line may lack its newline.
\<close>

definition ReadSymLine :: "string \<Rightarrow> (string \<times> string) option result" where
  "ReadSymLine file =
     (case fgets 10000 file of
        None \<Rightarrow> Inr None
      | Some (raw, rest) \<Rightarrow>
          (let line = c_str raw; at_eof = (rest = [] \<and> length raw < 9999 \<and> last raw \<noteq> nl)
           in if line = [] then Inl Out_of_bounds
              else if last line \<noteq> nl \<and> \<not> at_eof then Inl Assertion_failed
              else Inr (Some (line, rest))))"

lemma ReadSymLine_shorter: "ReadSymLine inp = Inr (Some (line, rest)) \<Longrightarrow> length rest < length inp"
  by (auto simp: ReadSymLine_def Let_def split: option.splits if_splits dest: fgets_shorter)

definition skip_spaces :: "string \<Rightarrow> string" where
  "skip_spaces s = dropWhile (\<lambda>c. c = CHR '' '') s"

text \<open>
  A field that is skipped without a test of \<open>delim\<close>: when there is no blank left,
  \<open>ptr = delim + 1\<close> is an address just above null, which is read next.
\<close>

definition skip_field :: "string \<Rightarrow> string result" where
  "skip_field s = (case strchr s (CHR '' '') of None \<Rightarrow> Inl Null_pointer | Some t \<Rightarrow> Inr (tl t))"

fun skip_fields :: "nat \<Rightarrow> string \<Rightarrow> string result" where
  "skip_fields 0 s = Inr s"
| "skip_fields (Suc n) s = rbind (skip_field (skip_spaces s)) (skip_fields n)"

text \<open>One line of the table; \<open>None\<close> is a jump to \<open>parse_error\<close>.\<close>

definition parse_sym_line :: "string \<Rightarrow> RacezFunctionEntry option result" where
  "parse_sym_line line =
     rbind (skip_field (skip_spaces line)) (\<lambda>p1.
       case strchr p1 (CHR '' '') of
         None \<Rightarrow> Inr None
       | Some t1 \<Rightarrow>
           let offset = word_of_int (strtoll (before p1 (CHR '' '')) 16);
               p2 = skip_spaces (tl t1)
           in (case strchr p2 (CHR '' '') of
                None \<Rightarrow> Inr None
              | Some t2 \<Rightarrow>
                  let sz = word_of_int (strtoll (before p2 (CHR '' '')) 0)
                  in rbind (skip_fields 4 (tl t2)) (\<lambda>p3.
                       case strchr p3 nl of
                         None \<Rightarrow> Inr None
                       | Some _ \<Rightarrow> Inr (Some \<lparr>function_name = before p3 nl, entry_offset = offset, entry_size = sz\<rparr>))))"

text \<open>
  The loop over the lines. \<open>first_occ\<close> counts from the line that names the table; that line
  and the next are skipped. The result tells whether the end was reached, with the entries so
  far, which the caller keeps in both cases.
\<close>

function read_sym_lines ::
  "string \<Rightarrow> nat \<Rightarrow> RacezFunctionEntry list \<Rightarrow> (bool \<times> RacezFunctionEntry list) result" where
  "read_sym_lines file first_occ functions =
     (case ReadSymLine file of
        Inl e \<Rightarrow> Inl e
      | Inr None \<Rightarrow> Inr (True, functions)
      | Inr (Some (line, rest)) \<Rightarrow>
          if \<not> contains line ''.symtab'' \<and> first_occ = 0 then read_sym_lines rest first_occ functions
          else if first_occ + 1 \<le> 2 then read_sym_lines rest (first_occ + 1) functions
          else rbind (parse_sym_line line) (\<lambda>entry.
                 case entry of
                   None \<Rightarrow> Inr (False, functions)
                 | Some f \<Rightarrow> read_sym_lines rest (first_occ + 1) (functions @ [f])))"
  by pat_completeness auto
termination
  by (relation "measure (\<lambda>(file, _, _). length file)") (auto dest: ReadSymLine_shorter)

declare read_sym_lines.simps [simp del]

definition ReadSymFile :: "string \<Rightarrow> (bool \<times> RacezFunctionEntry list) result" where
  "ReadSymFile sym_file = read_sym_lines sym_file 0 []"

text \<open>The debug printer of the vector.\<close>

definition print_vect :: "RacezFunctionEntry list \<Rightarrow> string" where
  "print_vect functions = concat (map (\<lambda>f. ''function :'' @ function_name f @ '', offset = '' @ fmt_d (sint (entry_offset f)) @
     '', size = '' @ fmt_d (sint (entry_size f)) @ [nl]) functions)"

section \<open>Addresses\<close>

definition WriteRawRecord :: "Record \<Rightarrow> string" where
  "WriteRawRecord r =
     (if record_type r = MEMORY_OP then fmt_llx (pip r) @ [nl]
      else if record_type r = MEMORY_ALLOC then ''invalid'' @ [nl]
      else ''invalid'' @ [nl])"

definition ReadRawFile :: "Record list \<Rightarrow> string" where
  "ReadRawFile raw_file = concat (map WriteRawRecord raw_file)"

text \<open>
  \<open>std_sort\<close> is what \<open>std::sort\<close> makes of the vector, \<open>strcmp\<close> the comparison of
  strings, of which the standard fixes the sign only.
\<close>

record convert_env =
  std_sort :: "RacezFunctionEntry list \<Rightarrow> RacezFunctionEntry list"
  strcmp :: "string \<Rightarrow> string \<Rightarrow> int"
  readelf_output :: "string option"
  addr2line_output :: "string \<Rightarrow> string option"

definition convert_line :: "convert_env \<Rightarrow> RacezFunctionEntry list \<Rightarrow> string \<Rightarrow> string result" where
  "convert_line env functions buffer =
     (if strcmp env buffer ''invalid'' = 1 then Inr (''invalid'' @ [nl])
      else if buffer = [] then Inl Out_of_bounds
      else if last buffer \<noteq> nl then Inl Assertion_failed
      else
        let offset = word_of_int (strtoll buffer 16);
            low = lower_bound MyCompare \<lparr>function_name = ''random'', entry_offset = offset, entry_size = 0\<rparr> functions
        in rbind (if low = length functions \<or> entry_offset (functions ! low) \<noteq> offset
                  then (if low = 0 then Inl Bad_iterator else Inr (low - 1)) else Inr low)
             (\<lambda>i. Inr (function_name (functions ! i) @ [tab] @ fmt_d (sint (offset - entry_offset (functions ! i))) @ [nl])))"

function convert_lines :: "convert_env \<Rightarrow> RacezFunctionEntry list \<Rightarrow> string \<Rightarrow> string \<Rightarrow> string result" where
  "convert_lines env functions file out =
     (case fgets 100 file of
        None \<Rightarrow> Inr out
      | Some (raw, rest) \<Rightarrow>
          rbind (convert_line env functions (c_str raw)) (\<lambda>l. convert_lines env functions rest (out @ l)))"
  by pat_completeness auto
termination
  by (relation "measure (\<lambda>(_, _, file, _). length file)")
    (auto dest: fgets_shorter)

declare convert_lines.simps [simp del]

definition ConvertIP :: "convert_env \<Rightarrow> RacezFunctionEntry list \<Rightarrow> string \<Rightarrow> string result" where
  "ConvertIP env functions raw_output = convert_lines env (std_sort env functions) raw_output []"

section \<open>Combining both\<close>

text \<open>The loop of \<open>Combine\<close> over the lines of both files; \<open>cnt\<close> is the number of lines read.\<close>

function combine_lines :: "convert_env \<Rightarrow> string \<Rightarrow> string \<Rightarrow> int \<Rightarrow> string \<Rightarrow> string result" where
  "combine_lines env filenames functions cnt out =
     (case fgets 2000 filenames of
        None \<Rightarrow> Inr out
      | Some (raw1, rest1) \<Rightarrow>
          (case fgets 200 functions of
             None \<Rightarrow> Inr out
           | Some (raw2, rest2) \<Rightarrow>
               let filename_buffer = c_str raw1; function_buffer = c_str raw2
               in if strcmp env function_buffer ''invalid'' = 0 then combine_lines env rest1 rest2 (cnt + 1) out
                  else if take 4 filename_buffer = ''??:0'' then combine_lines env rest1 rest2 (cnt + 1) out
                  else if filename_buffer = [] \<or> function_buffer = [] then Inl Out_of_bounds
                  else if last filename_buffer \<noteq> nl \<or> last function_buffer \<noteq> nl then Inl Assertion_failed
                  else combine_lines env rest1 rest2 (cnt + 1)
                         (out @ fmt_d (cnt + 1 - 1) @ [tab] @ butlast filename_buffer @ [tab] @
                          butlast function_buffer @ [nl])))"
  by pat_completeness auto
termination
  by (relation "measure (\<lambda>(_, filenames, _, _, _). length filenames)") (auto dest: fgets_shorter)

declare combine_lines.simps [simp del]

definition Combine :: "convert_env \<Rightarrow> string \<Rightarrow> string \<Rightarrow> string result" where
  "Combine env function_output filename_output = combine_lines env filename_output function_output 0 []"

text \<open>
  The main function, given three arguments and a working directory it can write to. A log that
  cannot be opened (\<open>None\<close>) is reported and leaves the list of addresses empty; the value of
  \<open>ReadSymFile\<close> is ignored.
\<close>

definition convert_main :: "convert_env \<Rightarrow> Record list option \<Rightarrow> string result" where
  "convert_main env raw_file =
     (let ip_file = (case raw_file of None \<Rightarrow> [] | Some rs \<Rightarrow> ReadRawFile rs)
      in case readelf_output env of
           None \<Rightarrow> Inl (Exit_program 0)
         | Some sym_file \<Rightarrow>
             rbind (ReadSymFile sym_file) (\<lambda>(_, functions).
             rbind (ConvertIP env functions ip_file) (\<lambda>function_file.
               case addr2line_output env ip_file of
                 None \<Rightarrow> Inl (Exit_program 0)
               | Some filename_file \<Rightarrow> Combine env function_file filename_file)))"

section \<open>What the library promises\<close>

fun str_less :: "string \<Rightarrow> string \<Rightarrow> bool" where
  "str_less a [] = False"
| "str_less [] (y # b) = True"
| "str_less (x # a) (y # b) = ((of_char x :: nat) < of_char y \<or> x = y \<and> str_less a b)"

definition strcmp_ok :: "(string \<Rightarrow> string \<Rightarrow> int) \<Rightarrow> bool" where
  "strcmp_ok f \<longleftrightarrow> (\<forall>a b. (f a b = 0 \<longleftrightarrow> a = b) \<and> (f a b < 0 \<longleftrightarrow> str_less a b))"

definition sorts :: "(RacezFunctionEntry list \<Rightarrow> RacezFunctionEntry list) \<Rightarrow> bool" where
  "sorts f \<longleftrightarrow> (\<forall>xs. sorted_wrt (\<lambda>a b. \<not> MyCompare b a) (f xs) \<and> mset (f xs) = mset xs)"

lemma sorts_set: "sorts f \<Longrightarrow> set (f xs) = set xs"
  unfolding sorts_def by (metis mset_eq_setD)

section \<open>One address\<close>

text \<open>The entry an address belongs to: the one with the greatest offset not above it.\<close>

definition attributed :: "RacezFunctionEntry list \<Rightarrow> ptr \<Rightarrow> RacezFunctionEntry \<Rightarrow> bool" where
  "attributed functions ip f \<longleftrightarrow> f \<in> set functions \<and> entry_offset f \<le> ip \<and>
     (\<forall>g\<in>set functions. entry_offset g \<le> ip \<longrightarrow> entry_offset g \<le> entry_offset f)"

definition function_line :: "ptr \<Rightarrow> RacezFunctionEntry \<Rightarrow> string" where
  "function_line ip f = function_name f @ [tab] @ fmt_d (uint ip - uint (entry_offset f))"

lemma no_digit_nl: "no_digit 16 [nl]"
  by code_simp

lemma address_line_read: "word_of_int (strtoll (fmt_llx ip @ [nl]) 16) = (if uint ip < 2 ^ 63 then ip else 2 ^ 63 - 1 :: ptr)"
proof (cases "uint ip < 2 ^ 63")
  case True
  then have "strtoll (fmt_llx ip @ [nl]) 16 = uint ip"
    by (simp add: strtoll_fmt_llx [OF no_digit_nl] LLONG_MAX_def)
  with True show ?thesis by simp
next
  case False
  then have "strtoll (fmt_llx ip @ [nl]) 16 = 2 ^ 63 - 1"
    by (simp add: strtoll_fmt_llx [OF no_digit_nl] LLONG_MAX_def)
  with False show ?thesis by simp
qed

lemma address_not_invalid: "strcmp_ok f \<Longrightarrow> f (fmt_llx ip @ [nl]) ''invalid'' \<noteq> 1"
proof -
  assume f: "strcmp_ok f"
  have "str_less (fmt_llx ip @ [nl]) ''invalid''" by (simp add: fmt_llx_def)
  with f have "f (fmt_llx ip @ [nl]) ''invalid'' < 0" unfolding strcmp_ok_def by blast
  then show ?thesis by simp
qed

lemma lower_bound_attributed:
  assumes "sorted_wrt (\<lambda>a b. \<not> MyCompare b a) fs" and "\<exists>f\<in>set fs. entry_offset f \<le> ip"
    and "low = lower_bound MyCompare \<lparr>function_name = n, entry_offset = ip, entry_size = z\<rparr> fs"
  shows "if low = length fs \<or> entry_offset (fs ! low) \<noteq> ip
    then low \<noteq> 0 \<and> attributed fs ip (fs ! (low - 1)) else attributed fs ip (fs ! low)"
proof -
  have below: "\<forall>y\<in>set (take low fs). entry_offset y < ip" and above: "\<forall>y\<in>set (drop low fs). \<not> entry_offset y < ip"
    using cmp.lower_bound_split [OF assms(1), of "\<lparr>function_name = n, entry_offset = ip, entry_size = z\<rparr>"]
    unfolding assms(3) [symmetric] by (simp_all add: MyCompare_def)
  have le: "low \<le> length fs" using assms(3) by (simp add: lower_bound_def length_takeWhile_le)
  have split: "set fs = set (take low fs) \<union> set (drop low fs)" by (metis append_take_drop_id set_append)
  show ?thesis
  proof (cases "low = length fs \<or> entry_offset (fs ! low) \<noteq> ip")
    case False
    then have "low < length fs" "entry_offset (fs ! low) = ip" using le by simp_all
    with False show ?thesis by (simp add: attributed_def)
  next
    case True
    have strict: "ip < entry_offset y" if "y \<in> set (drop low fs)" for y
    proof -
      have "low < length fs" using that by (cases "low < length fs") auto
      then have hd: "drop low fs = fs ! low # drop (Suc low) fs" by (simp add: Cons_nth_drop_Suc)
      have "sorted_wrt (\<lambda>a b. \<not> MyCompare b a) (drop low fs)" using assms(1) by (rule sorted_wrt_drop)
      then have "y = fs ! low \<or> \<not> entry_offset y < entry_offset (fs ! low)" using that unfolding hd by (auto simp: MyCompare_def)
      moreover have "entry_offset (fs ! low) \<noteq> ip" using True \<open>low < length fs\<close> by simp
      moreover have "\<not> entry_offset (fs ! low) < ip" using above hd by simp
      ultimately show ?thesis by force
    qed
    then obtain f where "f \<in> set (take low fs)" using assms(2) split by (force simp: not_less [symmetric])
    then have pos: "low \<noteq> 0" by (cases low) auto
    then have last: "take low fs = take (low - 1) fs @ [fs ! (low - 1)]"
      using le take_Suc_conv_app_nth [of "low - 1" fs] by simp
    have srt: "sorted_wrt (\<lambda>a b. \<not> MyCompare b a) (take low fs)" using assms(1) by (rule sorted_wrt_take)
    have "entry_offset g \<le> entry_offset (fs ! (low - 1))" if "g \<in> set (take low fs)" for g
      using srt that unfolding last by (auto simp: sorted_wrt_append MyCompare_def)
    moreover have mem: "fs ! (low - 1) \<in> set (take low fs)" by (subst last) simp
    moreover have "g \<in> set (take low fs)" if "g \<in> set fs" "entry_offset g \<le> ip" for g
      using that split strict [of g] by auto
    ultimately have "attributed fs ip (fs ! (low - 1))"
      unfolding attributed_def using below split by (auto simp: less_imp_le)
    with True pos show ?thesis by simp
  qed
qed

lemma convert_address:
  assumes "strcmp_ok (strcmp env)" and "sorted_wrt (\<lambda>a b. \<not> MyCompare b a) fs" and "\<exists>f\<in>set fs. entry_offset f \<le> ip"
    and "uint ip < 2 ^ 63"
  shows "\<exists>f. attributed fs ip f \<and> convert_line env fs (fmt_llx ip @ [nl]) = Inr (function_line ip f @ [nl])"
proof -
  define low where "low = lower_bound MyCompare \<lparr>function_name = ''random'', entry_offset = ip, entry_size = 0\<rparr> fs"
  define i where "i = (if low = length fs \<or> entry_offset (fs ! low) \<noteq> ip then low - 1 else low)"
  have a: "if low = length fs \<or> entry_offset (fs ! low) \<noteq> ip
      then low \<noteq> 0 \<and> attributed fs ip (fs ! (low - 1)) else attributed fs ip (fs ! low)"
    using assms(2,3) low_def by (rule lower_bound_attributed)
  then have att: "attributed fs ip (fs ! i)" by (auto simp: i_def split: if_splits)
  then have "uint (entry_offset (fs ! i)) \<le> uint ip" by (simp add: attributed_def word_le_def)
  then have "uint (ip - entry_offset (fs ! i)) = uint ip - uint (entry_offset (fs ! i))"
    by (simp add: uint_sub_lem [THEN iffD1])
  moreover have "uint (ip - entry_offset (fs ! i)) < 2 ^ 63"
    using calculation assms(4) uint_ge_0 [of "entry_offset (fs ! i)"] by linarith
  ultimately have "sint (ip - entry_offset (fs ! i)) = uint ip - uint (entry_offset (fs ! i))"
    by (simp add: sint_small)
  moreover have "convert_line env fs (fmt_llx ip @ [nl]) =
      Inr (function_name (fs ! i) @ [tab] @ fmt_d (sint (ip - entry_offset (fs ! i))) @ [nl])"
    using a assms(4) address_not_invalid [OF assms(1), of ip] address_line_read [of ip]
    by (auto simp: convert_line_def Let_def low_def [symmetric] i_def split: if_splits)
  ultimately show ?thesis using att by (auto simp: function_line_def)
qed

end
