(* ===== verification/Convert_Properties.thy ===== *)
theory Convert_Properties
  imports Tool_Convert
begin

text \<open>
  Properties of the converter: an address is attributed to the right symbol, the symbol table
  is read back as it is printed, the index printed is the position in the log, and where the
  parsing goes wrong.
\<close>

section \<open>Printed numbers\<close>

lemma length_num_str: "2 \<le> b \<Longrightarrow> n < b ^ Suc k \<Longrightarrow> length (num_str b n) \<le> Suc k"
proof (induction b n arbitrary: k rule: num_str.induct)
  case (1 b n)
  show ?case
  proof (cases "n < b")
    case True
    then show ?thesis by (subst num_str.simps) simp
  next
    case False
    with 1 obtain j where k: "k = Suc j" by (cases k) auto
    have "n div b < b ^ Suc j" using 1 k by (simp add: div_less_iff_less_mult mult.commute)
    with False 1 k show ?thesis by (subst num_str.simps) simp
  qed
qed

definition clean :: "string \<Rightarrow> bool" where
  "clean s \<longleftrightarrow> nl \<notin> set s \<and> CHR 0x00 \<notin> set s"

lemma clean_append [simp]: "clean (s @ t) \<longleftrightarrow> clean s \<and> clean t"
  by (auto simp: clean_def)

lemma clean_Cons [simp]: "clean (c # s) \<longleftrightarrow> c \<noteq> nl \<and> c \<noteq> CHR 0x00 \<and> clean s"
  by (auto simp: clean_def)

lemma clean_Nil [simp]: "clean []"
  by (simp add: clean_def)

lemma clean_replicate: "c \<noteq> nl \<Longrightarrow> c \<noteq> CHR 0x00 \<Longrightarrow> clean (replicate k c)"
  by (auto simp: clean_def)

lemma digit_char_graphic: "d < 16 \<Longrightarrow> digit_char d \<notin> {nl, CHR 0x00, CHR '' ''}"
proof -
  assume d: "d < 16"
  have "digit_val nl = 99" "digit_val (CHR 0x00) = 99" "digit_val (CHR '' '') = 99" by code_simp+
  with digit_val_digit_char [OF d] d show ?thesis by auto
qed

lemma num_str_graphic: "2 \<le> b \<Longrightarrow> b \<le> 16 \<Longrightarrow> set (num_str b n) \<inter> {nl, CHR 0x00, CHR '' ''} = {}"
proof (induction b n rule: num_str.induct)
  case (1 b n)
  show ?case
  proof (cases "n < b")
    case True
    with 1 digit_char_graphic [of n] show ?thesis by (subst num_str.simps) auto
  next
    case False
    have "n mod b < 16" using 1 mod_less_divisor [of b n] by linarith
    with False 1 digit_char_graphic [of "n mod b"] show ?thesis by (subst num_str.simps) auto
  qed
qed

lemma clean_num_str: "2 \<le> b \<Longrightarrow> b \<le> 16 \<Longrightarrow> clean (num_str b n)"
  using num_str_graphic [of b n] by (auto simp: clean_def)

lemma clean_fmt_d: "clean (fmt_d i)"
  by (simp add: fmt_d_def clean_num_str)

lemma clean_fmt_llx: "clean (fmt_llx w)"
  by (simp add: fmt_llx_def zero_pad_def clean_num_str clean_replicate)

lemma length_fmt_llx: "length (fmt_llx w) \<le> 18"
proof -
  have "unat w < 16 ^ Suc 15" using unsigned_less [of w] by simp
  then have "length (num_str 16 (unat w)) \<le> 16" using length_num_str [of 16 "unat w" 15] by simp
  then show ?thesis by (simp add: fmt_llx_def zero_pad_def)
qed

lemma length_fmt_d: "0 \<le> i \<Longrightarrow> i < 2 ^ 63 \<Longrightarrow> length (fmt_d i) \<le> 19"
proof -
  assume i: "0 \<le> i" "i < 2 ^ 63"
  then have "nat i < 10 ^ Suc 18" by (simp add: nat_less_iff)
  then have "length (num_str 10 (nat i)) \<le> 19" using length_num_str [of 10 "nat i" 18] by simp
  with i show ?thesis by (simp add: fmt_d_def)
qed

section \<open>Files of lines\<close>

definition lines_text :: "string list \<Rightarrow> string" where
  "lines_text ls = concat (map (\<lambda>l. l @ [nl]) ls)"

lemma lines_text_simps [simp]: "lines_text [] = []" "lines_text (l # ls) = l @ nl # lines_text ls"
  by (simp_all add: lines_text_def)

lemma fgets_clean: "clean l \<Longrightarrow> length l + 1 < amt \<Longrightarrow> fgets amt (l @ nl # r) = Some (l @ [nl], r)"
  by (simp add: clean_def fgets_line)

lemma c_str_clean: "clean l \<Longrightarrow> c_str (l @ [nl]) = l @ [nl]"
  by (simp add: clean_def c_str_id)

lemma fgets_end: "fgets amt [] = None"
  by (simp add: fgets_def)

lemma attributed_set: "set fs = set gs \<Longrightarrow> attributed fs = attributed gs"
  by (simp add: attributed_def fun_eq_iff)

lemma convert_lines_each:
  "list_all2 (\<lambda>l m. clean l \<and> length l < 99 \<and> convert_line env fs (l @ [nl]) = Inr (m @ [nl])) ls ms \<Longrightarrow>
    convert_lines env fs (lines_text ls) out = Inr (out @ lines_text ms)"
proof (induction arbitrary: out rule: list_all2_induct)
  case Nil
  show ?case by (simp add: convert_lines.simps fgets_end)
next
  case (Cons l ls m ms)
  then have "fgets 100 (l @ nl # lines_text ls) = Some (l @ [nl], lines_text ls)" by (simp add: fgets_clean)
  with Cons show ?case by (subst convert_lines.simps) (simp add: c_str_clean)
qed

text \<open>
  The line written for a record: the symbol of its address and the distance. A record without
  an address counts as address 0, unless \<open>strcmp\<close> happens to return 1.
\<close>

definition address :: "Record \<Rightarrow> ptr" where
  "address r = (if record_type r = MEMORY_OP then pip r else 0)"

definition looked_up :: "convert_env \<Rightarrow> Record \<Rightarrow> bool" where
  "looked_up env r \<longleftrightarrow> record_type r = MEMORY_OP \<or> strcmp env (''invalid'' @ [nl]) ''invalid'' \<noteq> 1"

definition converted :: "convert_env \<Rightarrow> RacezFunctionEntry list \<Rightarrow> Record \<Rightarrow> string \<Rightarrow> bool" where
  "converted env functions r l \<longleftrightarrow>
     (if looked_up env r then \<exists>f. attributed functions (address r) f \<and> l = function_line (address r) f else l = ''invalid'')"

definition raw_line :: "Record \<Rightarrow> string" where
  "raw_line r = (if record_type r = MEMORY_OP then fmt_llx (pip r) else ''invalid'')"

lemma ReadRawFile_lines: "ReadRawFile rs = lines_text (map raw_line rs)"
  by (induction rs) (auto simp: ReadRawFile_def WriteRawRecord_def raw_line_def)

lemma raw_line_clean: "clean (raw_line r) \<and> length (raw_line r) < 99"
  using length_fmt_llx [of "pip r"] clean_fmt_llx [of "pip r"] by (simp add: raw_line_def)

lemma invalid_line: "strcmp_ok (strcmp env) \<Longrightarrow> convert_line env functions (''invalid'' @ [nl]) =
  (if strcmp env (''invalid'' @ [nl]) ''invalid'' = 1 then Inr (''invalid'' @ [nl])
   else convert_line env functions (fmt_llx 0 @ [nl]))"
proof -
  assume ok: "strcmp_ok (strcmp env)"
  have "strtoll (''invalid'' @ [nl]) 16 = 0" by code_simp
  then have "word_of_int (strtoll (''invalid'' @ [nl]) 16) = (word_of_int (strtoll (fmt_llx 0 @ [nl]) 16) :: ptr)"
    by (simp add: address_line_read)
  then show ?thesis using address_not_invalid [OF ok, of 0] by (simp add: convert_line_def)
qed

lemma convert_record:
  assumes "strcmp_ok (strcmp env)" and "sorted_wrt (\<lambda>a b. \<not> MyCompare b a) fs"
    and "looked_up env r \<Longrightarrow> uint (address r) < 2 ^ 63 \<and> (\<exists>f\<in>set fs. entry_offset f \<le> address r)"
  shows "\<exists>l. converted env fs r l \<and> convert_line env fs (raw_line r @ [nl]) = Inr (l @ [nl])"
proof (cases "looked_up env r")
  case False
  then show ?thesis
    using invalid_line [OF assms(1)] by (simp add: looked_up_def raw_line_def converted_def)
next
  case True
  then obtain f where "attributed fs (address r) f"
    "convert_line env fs (fmt_llx (address r) @ [nl]) = Inr (function_line (address r) f @ [nl])"
    using convert_address [OF assms(1,2), of "address r"] assms(3) by auto
  moreover have "convert_line env fs (raw_line r @ [nl]) = convert_line env fs (fmt_llx (address r) @ [nl])"
    using True invalid_line [OF assms(1)] by (auto simp: looked_up_def raw_line_def address_def)
  ultimately show ?thesis using True by (auto simp: converted_def)
qed

lemma convert_records:
  assumes "strcmp_ok (strcmp env)" and "sorts (std_sort env)"
    and "\<And>r. r \<in> set rs \<Longrightarrow> looked_up env r \<Longrightarrow> uint (address r) < 2 ^ 63 \<and> (\<exists>f\<in>set functions. entry_offset f \<le> address r)"
  shows "\<exists>ls. list_all2 (converted env functions) rs ls \<and> ConvertIP env functions (ReadRawFile rs) = Inr (lines_text ls)"
proof -
  let ?fs = "std_sort env functions"
  have s: "sorted_wrt (\<lambda>a b. \<not> MyCompare b a) ?fs" "set ?fs = set functions"
    using assms(2) sorts_set by (auto simp: sorts_def)
  have att: "converted env functions = converted env ?fs"
    by (simp add: converted_def fun_eq_iff attributed_set [OF s(2)])
  have "\<forall>r\<in>set rs. \<exists>l. converted env functions r l \<and> convert_line env ?fs (raw_line r @ [nl]) = Inr (l @ [nl])"
    unfolding att using convert_record [OF assms(1) s(1)] assms(3) s(2) by blast
  then obtain g where "\<forall>r\<in>set rs. converted env functions r (g r) \<and> convert_line env ?fs (raw_line r @ [nl]) = Inr (g r @ [nl])"
    by metis
  moreover from this have "convert_lines env ?fs (lines_text (map raw_line rs)) [] = Inr ([] @ lines_text (map g rs))"
    using raw_line_clean by (intro convert_lines_each) (simp add: list_all2_conv_all_nth)
  ultimately show ?thesis
    by (intro exI [of _ "map g rs"]) (simp add: ConvertIP_def ReadRawFile_lines list_all2_conv_all_nth)
qed

text \<open>The combined file: the lines of both inputs side by side, numbered, without unknown places.\<close>

fun combined :: "int \<Rightarrow> string list \<Rightarrow> string list \<Rightarrow> string" where
  "combined k (f # fs) (g # gs) =
     (if take 4 f = ''??:0'' then [] else fmt_d k @ [tab] @ f @ [tab] @ g @ [nl]) @ combined (k + 1) fs gs"
| "combined k _ _ = []"

lemma take4_nl: "take 4 (f @ [nl]) = ''??:0'' \<longleftrightarrow> take 4 f = ''??:0''"
proof (cases "length f < 4")
  case True
  then have "take 4 (f @ [nl]) = f @ [nl]" by simp
  moreover have "f @ [nl] \<noteq> ''??:0''"
  proof
    assume "f @ [nl] = ''??:0''"
    then have "last (f @ [nl]) = last ''??:0''" by (rule arg_cong)
    then show False by simp
  qed
  moreover have "take 4 f \<noteq> ''??:0''"
  proof
    assume "take 4 f = ''??:0''"
    then have "length (take 4 f) = 4" by simp
    with True show False by simp
  qed
  ultimately show ?thesis by simp
qed simp

lemma combine_lines_run:
  assumes "strcmp_ok (strcmp env)" and "list_all (\<lambda>f. clean f \<and> length f < 1999) fs"
    and "list_all (\<lambda>g. clean g \<and> length g < 199) gs"
  shows "combine_lines env (lines_text fs) (lines_text gs) k out = Inr (out @ combined k fs gs)"
  using assms(2,3)
proof (induction k fs gs arbitrary: out rule: combined.induct)
  case (1 k f fs g gs)
  have lines: "fgets 2000 (f @ nl # lines_text fs) = Some (f @ [nl], lines_text fs)"
    "fgets 200 (g @ nl # lines_text gs) = Some (g @ [nl], lines_text gs)"
    "c_str (f @ [nl]) = f @ [nl]" "c_str (g @ [nl]) = g @ [nl]"
    using "1.prems" by (simp_all add: fgets_clean c_str_clean)
  have "g @ [nl] \<noteq> ''invalid''"
  proof
    assume "g @ [nl] = ''invalid''"
    then have "last (g @ [nl]) = last ''invalid''" by (rule arg_cong)
    then show False by simp
  qed
  then have "strcmp env (g @ [nl]) ''invalid'' \<noteq> 0" using assms(1) by (simp add: strcmp_ok_def)
  then show ?case
    using 1 lines by (subst combine_lines.simps) (simp add: take4_nl Let_def del: take_append)
qed (simp_all add: combine_lines.simps [of env "[]"] combine_lines.simps [of env _ "[]"] fgets_end split: option.splits)

section \<open>Properties of the look-up\<close>

definition example_strcmp :: "string \<Rightarrow> string \<Rightarrow> int" where
  "example_strcmp a b = (if a = b then 0 else if str_less a b then - 1 else 10)"

definition example_env :: "string \<Rightarrow> string \<Rightarrow> convert_env" where
  "example_env table places = \<lparr>std_sort = sort_key entry_offset, strcmp = example_strcmp,
     readelf_output = Some table, addr2line_output = (\<lambda>_. Some places)\<rparr>"

definition example_functions :: "RacezFunctionEntry list" where
  "example_functions = [\<lparr>function_name = ''main'', entry_offset = 96, entry_size = 200000\<rparr>,
     \<lparr>function_name = ''init'', entry_offset = 16, entry_size = 64\<rparr>]"

lemma str_less_irrefl: "\<not> str_less a a"
  by (induction a) auto

lemma example_strcmp_ok: "strcmp_ok (strcmp (example_env table places))"
  by (auto simp: strcmp_ok_def example_env_def example_strcmp_def str_less_irrefl)

lemma example_sorts: "sorts (std_sort (example_env table places))"
proof -
  have "sorted_wrt (\<lambda>a b. \<not> MyCompare b a) (sort_key entry_offset xs)" for xs
    using sorted_sort_key [of entry_offset xs] by (simp add: sorted_map MyCompare_def not_less)
  then show ?thesis by (simp add: sorts_def example_env_def)
qed

text \<open>An address with the top bit set (a kernel address; the counters sample the kernel too)
  is read back by \<open>strtoll\<close> as the largest signed number, so all of them are attributed as
  if they were that one address.\<close>

lemma high_address_saturates:
  assumes "strcmp_ok (strcmp env)" and "2 ^ 63 \<le> uint ip"
  shows "convert_line env functions (fmt_llx ip @ [nl]) = convert_line env functions (fmt_llx (2 ^ 63 - 1) @ [nl])"
proof -
  have "word_of_int (strtoll (fmt_llx ip @ [nl]) 16) = (word_of_int (strtoll (fmt_llx (2 ^ 63 - 1) @ [nl]) 16) :: ptr)"
    using assms(2) by (simp add: address_line_read)
  then show ?thesis
    using address_not_invalid [OF assms(1)] by (simp add: convert_line_def)
qed

lemma high_address_saturates_example:
  "convert_line (example_env [] []) example_functions (fmt_llx (2 ^ 63 + 4096) @ [nl]) =
   convert_line (example_env [] []) example_functions (fmt_llx (2 ^ 63 - 1) @ [nl])"
  by (rule high_address_saturates [OF example_strcmp_ok]) simp

section \<open>Properties of the symbol table\<close>

abbreviation sp :: string where "sp \<equiv> '' ''"

definition word_text :: "string \<Rightarrow> bool" where
  "word_text s \<longleftrightarrow> s \<noteq> [] \<and> CHR '' '' \<notin> set s"

lemma skip_spaces_word: "word_text s \<Longrightarrow> skip_spaces (replicate k (CHR '' '') @ s @ r) = s @ r"
proof (induction k)
  case 0
  then show ?case by (cases s) (auto simp: skip_spaces_def word_text_def)
qed (simp add: skip_spaces_def)

lemma skip_field_word: "word_text s \<Longrightarrow> skip_field (s @ sp @ r) = Inr r"
  using strchr_field [of "CHR '' ''" s r] by (simp add: skip_field_def word_text_def)

lemma word_field: "word_text s \<Longrightarrow> strchr (s @ sp @ r) (CHR '' '') = Some (sp @ r) \<and> before (s @ sp @ r) (CHR '' '') = s"
  using strchr_field [of "CHR '' ''" s r] by (simp add: word_text_def)

lemma word_num_str: "2 \<le> b \<Longrightarrow> b \<le> 16 \<Longrightarrow> word_text (num_str b n)"
  using num_str_graphic [of b n] by (auto simp: word_text_def)

lemma word_zero_pad: "word_text s \<Longrightarrow> word_text (zero_pad w s)"
  by (auto simp: word_text_def zero_pad_def)

text \<open>Four fields that are skipped.\<close>

fun fields :: "(nat \<times> string) list \<Rightarrow> string" where
  "fields [] = []"
| "fields ((k, f) # fs) = replicate k (CHR '' '') @ f @ sp @ fields fs"

lemma skip_fields_words: "list_all (\<lambda>(k, f). word_text f) fs \<Longrightarrow> skip_fields (length fs) (fields fs @ r) = Inr r"
proof (induction fs)
  case (Cons kf fs)
  then show ?case
    using skip_spaces_word [of "snd kf" "fst kf" "sp @ fields fs @ r"] skip_field_word [of "snd kf" "fields fs @ r"]
    by (cases kf) simp
qed simp

lemma not_space_digit: "d < 16 \<Longrightarrow> \<not> isspace (digit_char d) \<and> digit_char d \<noteq> CHR ''-'' \<and> digit_char d \<noteq> CHR ''+''"
proof -
  assume d: "d < 16"
  have "list_all (\<lambda>d. \<not> isspace (digit_char d) \<and> digit_char d \<noteq> CHR ''-'' \<and> digit_char d \<noteq> CHR ''+'') [0..<16]" by code_simp
  with d show ?thesis by (simp add: list_all_iff)
qed

lemma strtoll_digits:
  assumes "s \<noteq> []" and "hd s = digit_char d" and "d < 16" and "\<not> has_0x s"
    and "base = (if base' = 0 then (if hd s = CHR ''0'' then 8 else 10) else base')" and "int (digits_value base 0 s) < 2 ^ 63"
  shows "strtoll s base' = int (digits_value base 0 s)"
proof -
  obtain t where t: "s = digit_char d # t" using assms(1,2) by (cases s) auto
  have "\<not> isspace (hd s)" "hd s \<noteq> CHR ''-''" "hd s \<noteq> CHR ''+''" using not_space_digit [OF assms(3)] assms(2) by simp_all
  moreover from this(1) have "dropWhile isspace s = s" by (simp add: t)
  ultimately have "strtoll s base' = max LLONG_MIN (min LLONG_MAX (int (digits_value base 0 s)))"
    unfolding strtoll_def Let_def assms(5) using assms(1,4) by (simp only: if_False HOL.simp_thms)
  also have "\<dots> = int (digits_value base 0 s)"
    using assms(6) by (simp add: LLONG_MAX_def LLONG_MIN_def)
  finally show ?thesis .
qed

lemma has_0x_digits: "CHR ''x'' \<notin> set s \<Longrightarrow> CHR ''X'' \<notin> set s \<Longrightarrow> \<not> has_0x s"
  by (auto simp: has_0x_def split: list.splits)

lemma num_str_no_x: "2 \<le> b \<Longrightarrow> b \<le> 16 \<Longrightarrow> CHR ''x'' \<notin> set (num_str b n) \<and> CHR ''X'' \<notin> set (num_str b n)"
proof (induction b n rule: num_str.induct)
  case (1 b n)
  have x: "digit_char d \<noteq> CHR ''x'' \<and> digit_char d \<noteq> CHR ''X''" if "d < 16" for d
  proof -
    have "digit_val (CHR ''x'') = 33" "digit_val (CHR ''X'') = 33" by code_simp+
    with digit_val_digit_char [OF that] that show ?thesis by auto
  qed
  show ?case
  proof (cases "n < b")
    case True
    with 1 x [of n] show ?thesis by (subst (1 2) num_str.simps) auto
  next
    case False
    have "n mod b < 16" using 1 mod_less_divisor [of b n] by linarith
    with False 1 x [of "n mod b"] show ?thesis by (subst (1 2) num_str.simps) auto
  qed
qed

lemma read_offset: "n < 2 ^ 63 \<Longrightarrow> strtoll (zero_pad 16 (num_str 16 n)) 16 = int n"
proof -
  assume n: "n < 2 ^ 63"
  let ?s = "zero_pad 16 (num_str 16 n)"
  obtain d where d: "d < 16" "hd ?s = digit_char d" using hd_zero_pad_num_str [of 16 n] by blast
  have "\<not> has_0x ?s" using num_str_no_x [of 16 n] by (intro has_0x_digits) (auto simp: zero_pad_def)
  moreover have v: "digits_value 16 0 ?s = n"
    using digits_value_num_str [of 16 "[]" n] by (simp add: zero_pad_def digits_value_zeros no_digit_def)
  moreover have "int (digits_value 16 0 ?s) < 2 ^ 63" using n by (simp add: v)
  ultimately show ?thesis using strtoll_digits [of ?s d 16 16] d by (simp add: zero_pad_not_Nil)
qed

lemma num_str_0_hd: "0 < n \<Longrightarrow> hd (num_str 10 n) \<noteq> CHR ''0''"
proof (induction "10 :: nat" n rule: num_str.induct)
  case (1 n)
  have nz: "digit_char d \<noteq> CHR ''0''" if "d < 10" "0 < d" for d
  proof -
    have "digit_val (CHR ''0'') = 0" by code_simp
    with digit_val_digit_char [of d] that show ?thesis by auto
  qed
  show ?case
  proof (cases "n < 10")
    case True
    with 1 nz [of n] show ?thesis by (subst num_str.simps) simp
  next
    case False
    with 1 have "hd (num_str 10 (n div 10)) \<noteq> CHR ''0''" by simp
    with False show ?thesis by (subst num_str.simps) (simp add: hd_append)
  qed
qed

lemma read_size: "n < 2 ^ 63 \<Longrightarrow> strtoll (num_str 10 n) 0 = int n"
proof (cases "n = 0")
  case True
  have "strtoll (num_str 10 0) 0 = 0" by code_simp
  with True show ?thesis by simp
next
  case False
  assume n: "n < 2 ^ 63"
  obtain d where d: "d < 10" "hd (num_str 10 n) = digit_char d" using hd_num_str [of 10 n] by auto
  have "\<not> has_0x (num_str 10 n)" using num_str_no_x [of 10 n] by (intro has_0x_digits) auto
  moreover have v: "digits_value 10 0 (num_str 10 n) = n"
    using digits_value_num_str [of 10 "[]" n] by (simp add: no_digit_def)
  moreover have "int (digits_value 10 0 (num_str 10 n)) < 2 ^ 63" using n by (simp add: v)
  ultimately show ?thesis
    using strtoll_digits [of "num_str 10 n" d 10 0] d num_str_0_hd [of n] False by simp
qed

text \<open>A size in hexadecimal carries its prefix, from which base 0 takes the base.\<close>

lemma read_hex_size:
  assumes "n < 2 ^ 63"
  shows "strtoll (''0x'' @ num_str 16 n) 0 = int n"
proof -
  obtain d t where d: "d < 16" "num_str 16 n = digit_char d # t"
    using hd_num_str [of 16 n] num_str_not_Nil [of 16 n] by (metis list.collapse order_refl numeral_le_iff semiring_norm(68,69,71))
  have "has_0x (CHR ''0'' # CHR ''x'' # num_str 16 n)"
    by (simp add: has_0x_def d digit_val_digit_char)
  moreover have "digits_value 16 0 (num_str 16 n) = n"
    using digits_value_num_str [of 16 "[]" n] by (simp add: no_digit_def)
  ultimately show ?thesis
    using assms by (simp add: strtoll_def isspace_def Let_def LLONG_MAX_def LLONG_MIN_def)
qed

text \<open>One line in the form \<open>readelf\<close> prints is read back as its symbol.\<close>

lemma symbol_line_read:
  assumes "word_text num" and "n < 2 ^ 63" and "word_text z" and "strtoll z 0 = int k" and "length fs = 4" and "list_all (\<lambda>(k, f). word_text f) fs"
    and "nl \<notin> set name"
  shows "parse_sym_line (replicate i (CHR '' '') @ num @ sp @ zero_pad 16 (num_str 16 n) @ sp @
      replicate j (CHR '' '') @ z @ sp @ fields fs @ name @ [nl]) =
    Inr (Some \<lparr>function_name = name, entry_offset = word_of_nat n, entry_size = word_of_nat k\<rparr>)"
proof -
  let ?v = "zero_pad 16 (num_str 16 n)" and ?tail = "name @ [nl]"
  have w: "word_text ?v" "word_text z" using assms(3) by (simp_all add: word_num_str word_zero_pad)
  let ?r2 = "fields fs @ ?tail"
  let ?r1 = "replicate j (CHR '' '') @ z @ sp @ ?r2"
  have "skip_spaces (replicate i (CHR '' '') @ num @ sp @ ?v @ sp @ ?r1) = num @ sp @ ?v @ sp @ ?r1"
    by (rule skip_spaces_word [OF assms(1)])
  moreover have "skip_field (num @ sp @ ?v @ sp @ ?r1) = Inr (?v @ sp @ ?r1)" by (rule skip_field_word [OF assms(1)])
  moreover have "strchr (?v @ sp @ ?r1) (CHR '' '') = Some (sp @ ?r1)" "before (?v @ sp @ ?r1) (CHR '' '') = ?v"
    using word_field [OF w(1), of ?r1] by blast+
  moreover have "skip_spaces ?r1 = z @ sp @ ?r2" by (rule skip_spaces_word [OF w(2)])
  moreover have "strchr (z @ sp @ ?r2) (CHR '' '') = Some (sp @ ?r2)" "before (z @ sp @ ?r2) (CHR '' '') = z"
    using word_field [OF w(2), of ?r2] by blast+
  moreover have "skip_fields 4 ?r2 = Inr ?tail" using skip_fields_words [OF assms(6), of ?tail] assms(5) by simp
  moreover have "strchr ?tail nl = Some [nl]" "before ?tail nl = name" using strchr_field [OF assms(7), of "[]"] by auto
  moreover have "tl (sp @ r) = r" for r by simp
  ultimately show ?thesis
    by (simp only: parse_sym_line_def read_offset [OF assms(2)] assms(4) Let_def rbind.simps
        option.case of_int_of_nat_eq)
qed

text \<open>
  The table \<open>readelf -s -W\<close> prints: index in six columns, value in sixteen hexadecimal digits,
  the size, four more columns of any content, the name. A size up to 99999 is printed in five
  decimal columns, a larger one in hexadecimal behind \<open>0x\<close>.
\<close>

definition blank_pad :: "nat \<Rightarrow> string \<Rightarrow> string" where
  "blank_pad w s = replicate (w - length s) (CHR '' '') @ s"

definition readelf_size :: "nat \<Rightarrow> string" where
  "readelf_size z = (if z \<le> 99999 then blank_pad 5 (num_str 10 z) else ''0x'' @ num_str 16 z)"

definition readelf_line :: "nat \<times> (nat \<times> string) list \<times> RacezFunctionEntry \<Rightarrow> string" where
  "readelf_line = (\<lambda>(i, columns, f). blank_pad 6 (num_str 10 i) @ '':'' @ sp @
     zero_pad 16 (num_str 16 (unat (entry_offset f))) @ sp @ readelf_size (unat (entry_size f)) @ sp @
     fields columns @ function_name f)"

definition printable_entry :: "nat \<times> (nat \<times> string) list \<times> RacezFunctionEntry \<Rightarrow> bool" where
  "printable_entry = (\<lambda>(i, columns, f). length columns = 4 \<and> list_all (\<lambda>(k, c). word_text c \<and> clean c) columns \<and>
     clean (function_name f) \<and> unat (entry_offset f) < 2 ^ 63 \<and> unat (entry_size f) < 2 ^ 63 \<and>
     length (readelf_line (i, columns, f)) < 9998)"

lemma readelf_size_text:
  assumes "z < 2 ^ 63"
  shows "\<exists>j t. readelf_size z = replicate j (CHR '' '') @ t \<and> word_text t \<and> clean t \<and> strtoll t 0 = int z"
proof (cases "z \<le> 99999")
  case True
  then show ?thesis
    using assms read_size [of z]
    by (intro exI [of _ "5 - length (num_str 10 z)"] exI [of _ "num_str 10 z"])
      (simp add: readelf_size_def blank_pad_def word_num_str clean_num_str)
next
  case False
  have "word_text (''0x'' @ num_str 16 z)" using word_num_str [of 16 z] by (simp add: word_text_def)
  moreover have "clean (''0x'' @ num_str 16 z)" by (simp add: clean_num_str)
  ultimately show ?thesis
    using False read_hex_size [OF assms] by (intro exI [of _ 0] exI [of _ "''0x'' @ num_str 16 z"]) (simp add: readelf_size_def)
qed

lemma readelf_line_read:
  assumes "printable_entry (i, columns, f)"
  shows "parse_sym_line (readelf_line (i, columns, f) @ [nl]) = Inr (Some f)"
proof -
  have num: "word_text (num_str 10 i @ '':'')" using word_num_str [of 10 i] by (simp add: word_text_def)
  have "list_all (\<lambda>(k, c). word_text c) columns" using assms by (auto simp: printable_entry_def list_all_iff)
  moreover have "nl \<notin> set (function_name f)" using assms by (simp add: printable_entry_def clean_def)
  moreover obtain j t where "readelf_size (unat (entry_size f)) = replicate j (CHR '' '') @ t" "word_text t"
      "strtoll t 0 = int (unat (entry_size f))"
    using readelf_size_text [of "unat (entry_size f)"] assms by (auto simp: printable_entry_def)
  ultimately show ?thesis
    using symbol_line_read [OF num, of "unat (entry_offset f)" t "unat (entry_size f)" columns "function_name f"] assms
    by (simp add: printable_entry_def readelf_line_def blank_pad_def)
qed

lemma clean_fields: "list_all (\<lambda>(k, c). clean c) columns \<Longrightarrow> clean (fields columns)"
  by (induction columns) (auto simp: clean_replicate)

lemma readelf_line_clean:
  assumes "printable_entry (i, columns, f)"
  shows "clean (readelf_line (i, columns, f))"
proof -
  have "list_all (\<lambda>(k, c). clean c) columns" using assms by (auto simp: printable_entry_def list_all_iff)
  moreover have "clean (readelf_size (unat (entry_size f)))"
    using readelf_size_text [of "unat (entry_size f)"] assms by (auto simp: printable_entry_def clean_replicate)
  ultimately show ?thesis
    using assms by (simp add: printable_entry_def readelf_line_def blank_pad_def zero_pad_def clean_num_str clean_replicate clean_fields)
qed

lemma ReadSymLine_clean: "clean l \<Longrightarrow> length l < 9998 \<Longrightarrow> ReadSymLine (l @ nl # r) = Inr (Some (l @ [nl], r))"
  by (simp add: ReadSymLine_def fgets_clean c_str_clean Let_def)

lemma read_symbols:
  "list_all2 (\<lambda>l f. clean l \<and> length l < 9998 \<and> parse_sym_line (l @ [nl]) = Inr (Some f)) ls gs \<Longrightarrow>
    2 \<le> k \<Longrightarrow> read_sym_lines (lines_text ls) k fs = Inr (True, fs @ gs)"
proof (induction arbitrary: k fs rule: list_all2_induct)
  case Nil
  show ?case by (simp add: read_sym_lines.simps ReadSymLine_def fgets_end)
next
  case (Cons l ls g gs)
  then show ?case by (subst read_sym_lines.simps) (simp add: ReadSymLine_clean)
qed

lemma read_table_head:
  assumes "clean head" and "length head < 9998" and "contains (head @ [nl]) ''.symtab''" and "clean titles" and "length titles < 9998"
  shows "read_sym_lines (head @ nl # titles @ nl # r) 0 [] = read_sym_lines r 2 []"
  using assms
  by (simp add: ReadSymLine_clean read_sym_lines.simps [of "head @ _"] read_sym_lines.simps [of "titles @ _"] numeral_2_eq_2)

lemma skip_other_tables:
  "list_all (\<lambda>l. clean l \<and> length l < 9998 \<and> \<not> contains (l @ [nl]) ''.symtab'') others \<Longrightarrow>
    read_sym_lines (lines_text others @ r) 0 [] = read_sym_lines r 0 []"
proof (induction others)
  case (Cons l others)
  then have "read_sym_lines (lines_text (l # others) @ r) 0 [] = read_sym_lines (lines_text others @ r) 0 []"
    by (subst read_sym_lines.simps) (simp add: ReadSymLine_clean)
  with Cons show ?case by simp
qed simp

lemma lines_text_append [simp]: "lines_text (ls @ ms) = lines_text ls @ lines_text ms"
  by (simp add: lines_text_def)

lemma symbol_table_read:
  assumes "list_all (\<lambda>l. clean l \<and> length l < 9998 \<and> \<not> contains (l @ [nl]) ''.symtab'') others"
    and "clean head" and "length head < 9998" and "contains (head @ [nl]) ''.symtab''" and "clean titles" and "length titles < 9998"
    and "list_all2 (\<lambda>l f. clean l \<and> length l < 9998 \<and> parse_sym_line (l @ [nl]) = Inr (Some f)) ls gs"
  shows "ReadSymFile (lines_text (others @ head # titles # ls)) = Inr (True, gs)"
  using skip_other_tables [OF assms(1)] read_table_head [OF assms(2-6)] read_symbols [OF assms(7)] by (simp add: ReadSymFile_def)

lemma printable_lines: "list_all printable_entry entries \<Longrightarrow>
  list_all2 (\<lambda>l f. clean l \<and> length l < 9998 \<and> parse_sym_line (l @ [nl]) = Inr (Some f))
    (map readelf_line entries) (map (snd \<circ> snd) entries)"
proof (induction entries)
  case (Cons e entries)
  then show ?case
    using readelf_line_read [of "fst e" "fst (snd e)" "snd (snd e)"] readelf_line_clean [of "fst e" "fst (snd e)" "snd (snd e)"]
    by (simp add: printable_entry_def split: prod.splits)
qed simp

text \<open>C35: The converter reads a symbol table as \<open>readelf -s -W\<close> prints it, sizes up to 99999 in
  decimal and larger ones in hexadecimal with their prefix: whatever other tables come first, the
  vector holds exactly the printed symbols, in order, with name, offset and size. Lines fit the
  buffer of the reader, and offsets and sizes are below \<open>2 ^ 63\<close>.\<close>

theorem symbol_table_roundtrip:
  assumes "list_all (\<lambda>l. clean l \<and> length l < 9998 \<and> \<not> contains (l @ [nl]) ''.symtab'') others"
    and "clean head" and "length head < 9998" and "contains (head @ [nl]) ''.symtab''" and "clean titles" and "length titles < 9998"
    and "list_all printable_entry entries"
  shows "ReadSymFile (lines_text (others @ head # titles # map readelf_line entries)) = Inr (True, map (snd \<circ> snd) entries)"
  by (rule symbol_table_read [OF assms(1-6) printable_lines [OF assms(7)]])

definition example_columns :: "(nat \<times> string) list" where
  "example_columns = [(0, ''FUNC''), (3, ''GLOBAL''), (0, ''DEFAULT''), (2, ''13'')]"

definition example_entries :: "(nat \<times> (nat \<times> string) list \<times> RacezFunctionEntry) list" where
  "example_entries = map2 (\<lambda>i f. (i, example_columns, f)) [0, 1] example_functions"

lemma example_lengths:
  "length (num_str 10 0) = 1" "length (num_str 10 (Suc 0)) = 1" "length (num_str 10 64) = 2" "length (num_str 16 96) = 2"
  "length (num_str 16 16) = 2" "length (num_str 16 200000) = 5"
  by (simp_all add: num_str.simps)

lemma example_entries_printable: "list_all printable_entry example_entries"
proof -
  have "list_all (\<lambda>e. length (readelf_line e) < 100) example_entries"
    by (simp add: example_entries_def example_functions_def example_columns_def readelf_line_def readelf_size_def blank_pad_def
        zero_pad_def example_lengths)
  then have short: "list_all (\<lambda>e. length (readelf_line e) < 9998) example_entries" by (auto simp: list_all_iff)
  have "list_all (\<lambda>(i, columns, f). columns = example_columns \<and> f \<in> set example_functions) example_entries"
    by (simp add: example_entries_def example_functions_def)
  moreover have "length example_columns = 4" "list_all (\<lambda>(k, c). word_text c \<and> clean c) example_columns"
    by (simp_all add: example_columns_def word_text_def)
  moreover have "clean (function_name f) \<and> unat (entry_offset f) < 2 ^ 63 \<and> unat (entry_size f) < 2 ^ 63" if "f \<in> set example_functions" for f
    using that by (auto simp: example_functions_def)
  ultimately show ?thesis using short by (fastforce simp: list_all_iff printable_entry_def)
qed

definition example_before :: "string list" where
  "example_before = [[], ''Symbol table .dynsym contains 1 entry:'', ''   Num:    Value          Size Type'']"

definition example_head :: string where
  "example_head = ''Symbol table .symtab contains 2 entries:''"

definition example_titles :: string where
  "example_titles = ''   Num:    Value          Size Type    Bind   Vis      Ndx Name''"

theorem symbol_table_roundtrip_witness:
  "ReadSymFile (lines_text (example_before @ example_head # example_titles # map readelf_line example_entries)) =
    Inr (True, map (snd \<circ> snd) example_entries)"
  by (rule symbol_table_roundtrip) (simp_all add: example_before_def example_head_def example_titles_def example_entries_printable)

text \<open>A line behind the head of the symbol table that has no blank after its first word makes
  the converter read through the null pointer that \<open>strchr\<close> returned: an empty line, say, ends it before any
  address is converted, and it writes nothing.\<close>

lemma line_without_fields_crashes:
  assumes "CHR '' '' \<notin> set (skip_spaces line)" and "clean line" and "length line < 9998"
    and "clean head" and "length head < 9998" and "contains (head @ [nl]) ''.symtab''" and "clean titles" and "length titles < 9998"
    and "readelf_output env = Some (lines_text [head, titles, line] @ rest)"
  shows "convert_main env raw_file = Inl Null_pointer"
proof -
  have "CHR '' '' \<notin> set (skip_spaces (line @ [nl]))"
    using assms(1) by (simp add: skip_spaces_def dropWhile_append split: if_splits)
  then have crash: "parse_sym_line (line @ [nl]) = Inl Null_pointer"
    by (simp add: parse_sym_line_def skip_field_def strchr_None)
  have "ReadSymFile (head @ nl # titles @ nl # line @ nl # rest) = Inl Null_pointer"
    unfolding ReadSymFile_def read_table_head [OF assms(4-8)]
    using assms(2,3) crash by (subst read_sym_lines.simps) (simp add: ReadSymLine_clean)
  then show ?thesis using assms(9) by (simp add: convert_main_def Let_def)
qed

lemma line_without_fields_crashes_example:
  "convert_main (example_env (lines_text [''Symbol table '' @ [CHR 0x27] @ ''.symtab'', ''   Num:    Value'', []]) []) None =
    Inl Null_pointer"
  by (rule line_without_fields_crashes [of "[]" "''Symbol table '' @ [CHR 0x27] @ ''.symtab''" "''   Num:    Value''" _ "[]"])
    (simp_all add: skip_spaces_def example_env_def)

section \<open>The whole conversion\<close>

lemma converted_line:
  assumes "converted env functions r l" and "list_all (\<lambda>f. clean (function_name f) \<and> length (function_name f) < 179) functions"
    and "looked_up env r \<Longrightarrow> uint (address r) < 2 ^ 63"
  shows "clean l \<and> length l < 199"
proof (cases "looked_up env r")
  case False
  with assms(1) show ?thesis by (simp add: converted_def)
next
  case True
  with assms(1) obtain f where f: "attributed functions (address r) f" "l = function_line (address r) f"
    by (auto simp: converted_def)
  then have "uint (entry_offset f) \<le> uint (address r)" "clean (function_name f)" "length (function_name f) < 179"
    using assms(2) by (auto simp: attributed_def word_le_def list_all_iff)
  then show ?thesis
    using f(2) assms(3) [OF True] clean_fmt_d [of "uint (address r) - uint (entry_offset f)"]
      length_fmt_d [of "uint (address r) - uint (entry_offset f)"] uint_ge_0 [of "entry_offset f"]
    by (simp add: function_line_def)
qed

text \<open>C10: The file written for the Mao pass has, for every record of the log whose place is known,
  a line that starts with the position of the record in the log, followed by the source place
  of its address and its symbol with the distance; the index is right because skipped lines are
  counted too. This holds for addresses below \<open>2 ^ 63\<close> above the lowest symbol, names that fit
  the buffers and one line of \<open>addr2line\<close> per address.\<close>

theorem index_is_position:
  assumes "strcmp_ok (strcmp env)" and "sorts (std_sort env)"
    and "readelf_output env = Some table" and "ReadSymFile table = Inr (ok, functions)"
    and "addr2line_output env (ReadRawFile rs) = Some (lines_text places)"
    and "list_all (\<lambda>f. clean f \<and> length f < 1999) places"
    and "list_all (\<lambda>f. clean (function_name f) \<and> length (function_name f) < 179) functions"
    and "\<forall>r\<in>set rs. looked_up env r \<longrightarrow> uint (address r) < 2 ^ 63 \<and> (\<exists>f\<in>set functions. entry_offset f \<le> address r)"
  shows "\<exists>ls. list_all2 (converted env functions) rs ls \<and> convert_main env (Some rs) = Inr (combined 0 places ls)"
proof -
  obtain ls where ls: "list_all2 (converted env functions) rs ls" "ConvertIP env functions (ReadRawFile rs) = Inr (lines_text ls)"
    using convert_records [OF assms(1,2), of rs "functions"] assms(8) by blast
  have "list_all (\<lambda>g. clean g \<and> length g < 199) ls"
    using ls(1) assms(8) converted_line [OF _ assms(7)]
    by (fastforce simp: list_all_iff in_set_conv_nth list_all2_conv_all_nth)
  then have "combine_lines env (lines_text places) (lines_text ls) 0 [] = Inr ([] @ combined 0 places ls)"
    by (rule combine_lines_run [OF assms(1) assms(6)])
  then show ?thesis
    using ls assms(3-5) by (auto simp: convert_main_def Combine_def Let_def)
qed

definition example_table :: string where
  "example_table = lines_text (example_before @ example_head # example_titles # map readelf_line example_entries)"

lemma example_table_read: "ReadSymFile example_table = Inr (True, example_functions)"
proof -
  have "ReadSymFile example_table = Inr (True, map (snd \<circ> snd) example_entries)"
    unfolding example_table_def
    by (rule symbol_table_read)
      (simp_all add: example_before_def example_head_def example_titles_def printable_lines [OF example_entries_printable])
  then show ?thesis by (simp add: example_entries_def example_functions_def)
qed

definition example_log :: "Record list" where
  "example_log = map (\<lambda>ip. set_pip ip (zero_record\<lparr>record_type := MEMORY_OP\<rparr>)) [100, 7000, 20]"

definition example_places :: "string list" where
  "example_places = [''main.c:7'', ''??:0'', ''init.c:3'']"

theorem index_is_position_witness:
  "\<exists>ls. list_all2 (converted (example_env example_table (lines_text example_places)) example_functions) example_log ls \<and>
     convert_main (example_env example_table (lines_text example_places)) (Some example_log) = Inr (combined 0 example_places ls)"
proof (rule index_is_position [OF example_strcmp_ok example_sorts])
  show "ReadSymFile example_table = Inr (True, example_functions)" by (rule example_table_read)
  show "\<forall>r\<in>set example_log. looked_up (example_env example_table (lines_text example_places)) r \<longrightarrow>
      uint (address r) < 2 ^ 63 \<and> (\<exists>f\<in>set example_functions. entry_offset f \<le> address r)"
    by (simp add: example_log_def example_functions_def address_def pip_def set_pip_def)
qed (simp_all add: example_env_def example_places_def example_functions_def)

end
