(* ===== verification/Mao_Pass_Properties.thy ===== *)
theory Mao_Pass_Properties
  imports Mao_Pass Mao_Properties Convert_Properties
begin

text \<open>
  Between the tools: the pass reads the file of the converter as it was meant, and hands the
  samples to the right instructions.
\<close>

section \<open>Reading what the converter wrote\<close>

lemma digits_all:
  assumes "b \<le> 16" and "2 \<le> b" and "\<not> has_0x (num_str b n)" and "base = b \<or> base = 0 \<and> b = 10 \<and> 0 < n"
  shows "strtoll_rest (num_str b n) base = []"
proof -
  let ?s = "num_str b n"
  have digits: "\<forall>c\<in>set (num_str b n). digit_val c < b" using assms(1,2)
  proof (induction b n rule: num_str.induct)
    case (1 b n)
    have v: "digit_val (digit_char (n mod b)) = n mod b" if "\<not> n < b"
      using 1 mod_less_divisor [of b n] by (intro digit_val_digit_char) linarith
    show ?case
    proof (cases "n < b")
      case True
      with 1 show ?thesis by (subst num_str.simps) (simp add: digit_val_digit_char)
    next
      case False
      with 1 v show ?thesis by (subst num_str.simps) auto
    qed
  qed
  obtain d where d: "d < b" "hd ?s = digit_char d" using hd_num_str [OF assms(2,1), of n] by blast
  obtain t where t: "?s = digit_char d # t" using d(2) by (cases ?s) auto
  have ns: "\<not> isspace (hd ?s)" "hd ?s \<noteq> CHR ''-''" "hd ?s \<noteq> CHR ''+''"
    using not_space_digit [of d] d assms(1) by simp_all
  then have drop: "dropWhile isspace ?s = ?s" by (simp add: t)
  have "digit_val (hd ?s) < b" using digits t by simp
  moreover have "dropWhile (\<lambda>c. digit_val c < b) ?s = []" using digits by simp
  moreover have "base = 0 \<Longrightarrow> hd ?s \<noteq> CHR ''0''" using num_str_0_hd assms(2,4) by auto
  ultimately show ?thesis
    using assms(3,4) ns drop by (auto simp: strtoll_rest_def Let_def simp del: dropWhile_eq_Nil_conv)
qed

lemma decimal_rest: "strtoll_rest (num_str 10 n) 0 = []"
proof (cases "n = 0")
  case True
  have "strtoll_rest (num_str 10 0) 0 = []" by code_simp
  with True show ?thesis by simp
next
  case False
  have "\<not> has_0x (num_str 10 n)" using num_str_no_x [of 10 n] by (intro has_0x_digits) auto
  with False show ?thesis by (intro digits_all) auto
qed

lemma fmt_d_read: "0 \<le> i \<Longrightarrow> i < 2 ^ 63 \<Longrightarrow> strtoll (fmt_d i) 0 = i \<and> strtoll_rest (fmt_d i) 0 = []"
  using read_size [of "nat i"] by (simp add: fmt_d_def decimal_rest nat_less_iff)

lemma fmt_d_no_tab: "tab \<notin> set (fmt_d i)"
proof -
  have nt: "digit_char d \<noteq> tab" if "d < 16" for d
  proof -
    have "digit_val tab = 99" by code_simp
    with digit_val_digit_char [OF that] that show ?thesis by auto
  qed
  have "tab \<notin> set (num_str 10 n)" for n
  proof (induction "10 :: nat" n rule: num_str.induct)
    case (1 n)
    have "tab \<noteq> digit_char (n mod 10)" using nt [of "n mod 10"] mod_less_divisor [of 10 n] by force
    with 1 nt [of n] show ?case by (cases "n < 10"; subst num_str.simps; simp)
  qed
  then show ?thesis by (auto simp: fmt_d_def)
qed

text \<open>
  What the converter knows of a record: the source file and line of its address, its symbol and
  the distance.
\<close>

type_synonym place = "(string \<times> string) \<times> (string \<times> int)"

definition place_text :: "place \<Rightarrow> string" where
  "place_text = (\<lambda>((source, line), _). source @ '':'' @ line)"

definition symbol_text :: "place \<Rightarrow> string" where
  "symbol_text = (\<lambda>(_, (name, distance)). name @ [tab] @ fmt_d distance)"

definition place_ok :: "place \<Rightarrow> bool" where
  "place_ok = (\<lambda>((source, line), (name, distance)).
     clean source \<and> clean line \<and> clean name \<and> CHR '':'' \<notin> set source \<and> tab \<notin> set line \<and> tab \<notin> set name \<and>
     0 \<le> distance \<and> distance < 2 ^ 63 \<and> length source + length line < 1998 \<and> length name < 179)"

text \<open>The samples of one function in one file, with the positions of their records.\<close>

fun samples_of :: "string \<Rightarrow> string \<Rightarrow> int \<Rightarrow> place list \<Rightarrow> RacezInstructionSample list" where
  "samples_of fn source k [] = []"
| "samples_of fn source k (((file_name, line), (name, distance)) # ps) =
     (if take 4 (place_text ((file_name, line), (name, distance))) \<noteq> ''??:0'' \<and> file_name = source \<and> name = fn
      then [\<lparr>sample_file = source, sample_index = k, sample_offset = distance, sample_value = 0\<rparr>] else []) @
     samples_of fn source (k + 1) ps"

lemma place_texts_ok:
  "place_ok p \<Longrightarrow> clean (place_text p) \<and> length (place_text p) < 1999 \<and> clean (symbol_text p) \<and> length (symbol_text p) < 199"
proof -
  assume p: "place_ok p"
  obtain source line name d where [simp]: "p = ((source, line), (name, d))" by (cases p) auto
  have "0 \<le> d" "d < 2 ^ 63" using p by (simp_all add: place_ok_def)
  then have "length (fmt_d d) \<le> 19" by (rule length_fmt_d)
  then show ?thesis
    using p clean_fmt_d [of d] by (simp add: place_ok_def place_text_def symbol_text_def)
qed

lemma parse_converter_line:
  assumes "place_ok ((source', line), (name, d))" and "0 \<le> k" and "k < 2 ^ 63"
  shows "parse_profile_line fn source
      (fmt_d k @ tab # source' @ CHR '':'' # line @ tab # name @ tab # fmt_d d @ [nl]) =
    Inr (if source' = source \<and> name = fn
         then Sample \<lparr>sample_file = source, sample_index = k, sample_offset = d, sample_value = 0\<rparr> else Skipped)"
proof -
  have ok: "CHR '':'' \<notin> set source'" "tab \<notin> set (CHR '':'' # line)" "tab \<notin> set name" "nl \<notin> set (fmt_d d)" "0 \<le> d" "d < 2 ^ 63"
    using assms(1) clean_fmt_d [of d] by (simp_all add: place_ok_def clean_def)
  let ?r4 = "fmt_d d @ [nl]"
  let ?r3 = "name @ tab # ?r4"
  let ?r2 = "(CHR '':'' # line) @ tab # ?r3"
  let ?r1 = "source' @ CHR '':'' # line @ tab # ?r3"
  have "strchr (fmt_d k @ tab # ?r1) tab = Some (tab # ?r1)" "before (fmt_d k @ tab # ?r1) tab = fmt_d k"
    using strchr_field [OF fmt_d_no_tab, of k ?r1] by simp_all
  moreover have "strchr ?r1 (CHR '':'') = Some (CHR '':'' # line @ tab # ?r3)" "before ?r1 (CHR '':'') = source'"
    using strchr_field [OF ok(1), of "line @ tab # ?r3"] by simp_all
  moreover have "strchr (CHR '':'' # line @ tab # ?r3) tab = Some (tab # ?r3)"
    using strchr_field [OF ok(2), of ?r3] by simp
  moreover have "strchr ?r3 tab = Some (tab # ?r4)" "before ?r3 tab = name"
    using strchr_field [OF ok(3), of ?r4] by simp_all
  moreover have "strchr ?r4 nl = Some [nl]" "before ?r4 nl = fmt_d d"
    using strchr_field [OF ok(4), of "[]"] by simp_all
  moreover have "strtoll (fmt_d k) 0 = k" "strtoll_rest (fmt_d k) 0 = []" "strtoll (fmt_d d) 0 = d" "strtoll_rest (fmt_d d) 0 = []"
    using fmt_d_read [OF assms(2,3)] fmt_d_read [OF ok(5,6)] by simp_all
  ultimately show ?thesis
    by (auto simp: parse_profile_line_def Let_def)
qed

lemma ReadLine_clean: "clean l \<Longrightarrow> length l < 8190 \<Longrightarrow> ReadLine (l @ nl # r) = Inr (Some (l @ [nl], r))"
  by (simp add: ReadLine_def BUFSIZ_def fgets_clean c_str_clean Let_def)

lemma read_combined:
  assumes "list_all place_ok ps" and "0 \<le> k" and "k + int (length ps) < 2 ^ 63"
  shows "read_profile_lines fn source (combined k (map place_text ps) (map symbol_text ps)) samples =
    Inr (True, samples @ samples_of fn source k ps)"
  using assms
proof (induction fn source k ps arbitrary: samples rule: samples_of.induct)
  case (1 fn source k)
  show ?case by (simp add: read_profile_lines.simps ReadLine_def fgets_end)
next
  case (2 fn source k source' line name d ps)
  let ?p = "((source', line), (name, d))"
  let ?l = "fmt_d k @ [tab] @ place_text ?p @ [tab] @ symbol_text ?p"
  let ?r = "combined (k + 1) (map place_text ps) (map symbol_text ps)"
  have p: "place_ok ?p" "k < 2 ^ 63" using "2.prems" by simp_all
  have "length (fmt_d k) \<le> 19" using "2.prems"(2) p(2) by (rule length_fmt_d)
  then have "clean ?l" "length ?l < 8190" using place_texts_ok [OF p(1)] clean_fmt_d [of k] by simp_all
  then have line: "ReadLine (?l @ nl # ?r) = Inr (Some (?l @ [nl], ?r))" by (rule ReadLine_clean)
  have parse: "parse_profile_line fn source (?l @ [nl]) =
      Inr (if source' = source \<and> name = fn
           then Sample \<lparr>sample_file = source, sample_index = k, sample_offset = d, sample_value = 0\<rparr> else Skipped)"
    using parse_converter_line [OF p(1) "2.prems"(2) p(2), of fn source] by (simp add: place_text_def symbol_text_def)
  have IH: "read_profile_lines fn source ?r xs = Inr (True, xs @ samples_of fn source (k + 1) ps)" for xs
    using "2.IH" [of xs] "2.prems" by (simp add: algebra_simps)
  show ?case
  proof (cases "take 4 (place_text ?p) = ''??:0''")
    case True
    then show ?thesis by (simp add: IH)
  next
    case False
    then have eq: "combined k (map place_text (?p # ps)) (map symbol_text (?p # ps)) = ?l @ nl # ?r" by simp
    let ?s = "\<lparr>sample_file = source, sample_index = k, sample_offset = d, sample_value = 0\<rparr>"
    have step: "read_profile_lines fn source (?l @ nl # ?r) samples =
        (if source' = source \<and> name = fn then read_profile_lines fn source ?r (samples @ [?s])
         else read_profile_lines fn source ?r samples)"
      by (subst read_profile_lines.simps) (simp only: line parse sum.case option.case prod.case rbind.simps line_outcome.case split: if_splits, blast)
    show ?thesis unfolding eq step using False by (simp add: IH)
  qed
qed

text \<open>C38: The file that the converter combines is read by the pass as it was meant: for each function
  and source file the pass gets exactly the samples whose address lies in that function and file and
  whose place is known, in the order of the log, each with the position of its record in the log and
  its distance from the start of the function.\<close>

theorem converter_output_is_read:
  assumes "strcmp_ok (strcmp env)" and "list_all place_ok ps" and "int (length ps) < 2 ^ 63"
  shows "\<exists>out. Combine env (lines_text (map symbol_text ps)) (lines_text (map place_text ps)) = Inr out \<and>
    profile_Read fn source (Some out) = Inr (True, samples_of fn source 0 ps)"
proof -
  have "list_all (\<lambda>f. clean f \<and> length f < 1999) (map place_text ps)" "list_all (\<lambda>g. clean g \<and> length g < 199) (map symbol_text ps)"
    using assms(2) place_texts_ok by (auto simp: list_all_iff)
  then have "combine_lines env (lines_text (map place_text ps)) (lines_text (map symbol_text ps)) 0 [] =
      Inr ([] @ combined 0 (map place_text ps) (map symbol_text ps))"
    by (rule combine_lines_run [OF assms(1)])
  then show ?thesis
    using read_combined [OF assms(2), of 0 fn source "[]"] assms(3) by (simp add: Combine_def profile_Read_def)
qed

definition example_ps :: "place list" where
  "example_ps = [((''/src/main.c'', ''7''), (''main'', 12)), ((''??'', ''0''), (''main'', 40)), ((''/src/main.c'', ''9''), (''main'', 20))]"

theorem converter_output_is_read_witness:
  "\<exists>out. Combine (example_env [] []) (lines_text (map symbol_text example_ps)) (lines_text (map place_text example_ps)) = Inr out \<and>
     profile_Read ''main'' ''/src/main.c'' (Some out) =
       Inr (True, [\<lparr>sample_file = ''/src/main.c'', sample_index = 0, sample_offset = 12, sample_value = 0\<rparr>,
         \<lparr>sample_file = ''/src/main.c'', sample_index = 2, sample_offset = 20, sample_value = 0\<rparr>])"
proof -
  have "list_all place_ok example_ps" by (simp add: example_ps_def place_ok_def)
  from converter_output_is_read [OF example_strcmp_ok this, of "[]" "[]" "''main''" "''/src/main.c''"] show ?thesis
    by (simp add: example_ps_def place_text_def)
qed

section \<open>From offsets to instructions\<close>

text \<open>The instruction that starts at an offset from the first of the entries.\<close>

fun insn_at :: "(mao_entry \<times> int) list \<Rightarrow> int \<Rightarrow> nat option" where
  "insn_at [] off = None"
| "insn_at ((e, sz) # es) off =
     (case e of
        Insn_entry n \<Rightarrow> if off = 0 then Some n else insn_at es (off - sz)
      | _ \<Rightarrow> insn_at es (off - sz))"

definition sizes_ok :: "pass_input \<Rightarrow> bool" where
  "sizes_ok inp \<longleftrightarrow> list_all (\<lambda>(_, sz). 0 \<le> sz) (entries inp)"

text \<open>The function is compiled from one file: no directive leads out of it, up to the end iterator.\<close>

definition stays_in :: "pass_input \<Rightarrow> string list \<Rightarrow> string \<Rightarrow> bool" where
  "stays_in inp tbl source \<longleftrightarrow>
     list_all (\<lambda>(e, _). UpdateSourceFile tbl e source = Inr source) (entries inp) \<and>
     (case end_entry inp of None \<Rightarrow> False | Some (e, _) \<Rightarrow> UpdateSourceFile tbl e source = Inr source)"

lemma insn_at_nonneg: "insn_at es off = Some n \<Longrightarrow> list_all (\<lambda>(_, sz). 0 \<le> sz) es \<Longrightarrow> 0 \<le> off"
proof (induction es off rule: insn_at.induct)
  case (2 e sz es off)
  show ?case
  proof (cases "off = 0")
    case False
    with 2 have "0 \<le> off - sz" by (cases e) auto
    with 2 show ?thesis by simp
  qed simp
qed simp

lemma insn_at_drop_nonneg: "insn_at (drop pos (entries inp)) off = Some n \<Longrightarrow> sizes_ok inp \<Longrightarrow> 0 \<le> off"
  by (erule insn_at_nonneg) (auto simp: sizes_ok_def list_all_iff dest: in_set_dropD)

lemma entry_stays:
  assumes "stays_in inp tbl source" and "pos \<le> length (entries inp)"
  obtains e sz where "entry_at inp pos = Inr (e, sz)" and "UpdateSourceFile tbl e source = Inr source"
proof (cases "pos < length (entries inp)")
  case True
  obtain e sz where e: "entries inp ! pos = (e, sz)" by fastforce
  then have "(e, sz) \<in> set (entries inp)" using True nth_mem by metis
  with True e that [of e sz] assms(1) show ?thesis by (auto simp: stays_in_def entry_at_def list_all_iff)
next
  case False
  with assms that show ?thesis by (auto simp: stays_in_def entry_at_def split: option.splits)
qed

lemma insn_at_drop:
  assumes "pos < length (entries inp)" and "entries inp ! pos = (e, sz)"
  shows "insn_at (drop pos (entries inp)) k =
    (case e of Insn_entry n \<Rightarrow> if k = 0 then Some n else insn_at (drop (Suc pos) (entries inp)) (k - sz)
     | _ \<Rightarrow> insn_at (drop (Suc pos) (entries inp)) (k - sz))"
  using assms by (simp add: Cons_nth_drop_Suc [symmetric])

text \<open>The first loop stops at the offset of the sample.\<close>

lemma advance_stops:
  assumes "sizes_ok inp" and "stays_in inp tbl source" and "sample_file s = source"
    and "insn_at (drop pos (entries inp)) (sample_offset s - offset) = Some n"
  shows "\<exists>pos'. advance inp tbl s offset pos source = Inr (Some (sample_offset s, pos', source)) \<and>
    insn_at (drop pos' (entries inp)) 0 = Some n \<and>
    (\<forall>k \<ge> sample_offset s. insn_at (drop pos (entries inp)) (k - offset) = insn_at (drop pos' (entries inp)) (k - sample_offset s))"
  using assms(4)
proof (induction "length (entries inp) - pos" arbitrary: pos offset rule: less_induct)
  case less
  have le: "offset \<le> sample_offset s" using insn_at_drop_nonneg [OF less.prems assms(1)] by simp
  have pos: "pos < length (entries inp)" using less.prems by (cases "pos < length (entries inp)") simp_all
  show ?case
  proof (cases "offset = sample_offset s")
    case True
    with less.prems show ?thesis by (auto simp: advance.simps)
  next
    case False
    then have lt: "offset < sample_offset s" using le by simp
    obtain e sz where e: "entries inp ! pos = (e, sz)" by fastforce
    have next_pos: "insn_at (drop pos (entries inp)) (k - offset) = insn_at (drop (Suc pos) (entries inp)) (k - (offset + sz))"
      if "sample_offset s \<le> k" for k
      using insn_at_drop [OF pos e, of "k - offset"] lt that by (cases e) (auto simp: algebra_simps)
    obtain e' sz' where at: "entry_at inp (Suc pos) = Inr (e', sz')" "UpdateSourceFile tbl e' source = Inr source"
      using entry_stays [OF assms(2), of "Suc pos"] pos by auto
    have step: "advance inp tbl s offset pos source = advance inp tbl s (offset + sz) (Suc pos) source"
      by (subst advance.simps) (use lt pos e at assms(3) in simp)
    have "insn_at (drop (Suc pos) (entries inp)) (sample_offset s - (offset + sz)) = Some n"
      using next_pos [of "sample_offset s"] less.prems by simp
    with less.hyps [of "Suc pos" "offset + sz"] pos show ?thesis unfolding step using next_pos by auto
  qed
qed

text \<open>The second one goes on to the instruction.\<close>

lemma skip_finds:
  assumes "sizes_ok inp" and "insn_at (drop pos (entries inp)) 0 = Some n"
  shows "\<exists>pos' sz. skip_to_insn inp source source pos = Inr (pos', n, sz) \<and> pos' < length (entries inp) \<and>
    (\<forall>k > 0. insn_at (drop pos (entries inp)) k = insn_at (drop (Suc pos') (entries inp)) (k - sz))"
  using assms(2)
proof (induction "length (entries inp) - pos" arbitrary: pos rule: less_induct)
  case less
  have pos: "pos < length (entries inp)" using less.prems by (cases "pos < length (entries inp)") simp_all
  obtain e sz where e: "entries inp ! pos = (e, sz)" by fastforce
  have at: "entry_at inp pos = Inr (e, sz)" using pos e by (simp add: entry_at_def)
  show ?case
  proof (cases "\<exists>m. e = Insn_entry m")
    case True
    then obtain m where m: "e = Insn_entry m" by blast
    then have "m = n" using less.prems insn_at_drop [OF pos e, of 0] by simp
    with m pos at e show ?thesis by (auto simp: skip_to_insn.simps insn_at_drop)
  next
    case False
    then have next_pos: "insn_at (drop pos (entries inp)) k = insn_at (drop (Suc pos) (entries inp)) (k - sz)" for k
      using insn_at_drop [OF pos e, of k] by (cases e) auto
    have "(e, sz) \<in> set (entries inp)" using pos e nth_mem by metis
    then have "0 \<le> sz" using assms(1) by (auto simp: sizes_ok_def list_all_iff)
    moreover have "0 \<le> 0 - sz" using insn_at_drop_nonneg [OF _ assms(1)] less.prems next_pos [of 0] by metis
    ultimately have sz: "sz = 0" by simp
    have step: "skip_to_insn inp source source pos = skip_to_insn inp source source (Suc pos)"
      by (subst skip_to_insn.simps) (use at False in \<open>cases e; simp\<close>)
    show ?thesis unfolding step next_pos sz using less.hyps [of "Suc pos"] less.prems next_pos [of 0] pos sz by auto
  qed
qed

text \<open>Each sample at the instruction that starts at its offset.\<close>

definition attribute_sample :: "pass_input \<Rightarrow> RacezInstructionSample \<Rightarrow> sim_state \<Rightarrow> sim_state result" where
  "attribute_sample inp s st =
     (case insn_at (entries inp) (sample_offset s) of
        None \<Rightarrow> Inl Bad_iterator
      | Some n \<Rightarrow> process_sample (pass_function inp) n s st)"

lemma rfold_cong: "(\<And>x s. x \<in> set xs \<Longrightarrow> f x s = g x s) \<Longrightarrow> rfold f xs s = rfold g xs s"
proof (induction xs arbitrary: s)
  case (Cons x xs)
  then have "rfold f xs = rfold g xs" by (intro ext) simp
  with Cons.prems show ?case by simp
qed simp

lemma sorted_rest_greater:
  assumes "sorted (map sample_offset samples)" and "samples = s # others"
    and "x \<in> set (dropWhile (\<lambda>x. sample_offset x = sample_offset s) samples)"
  shows "sample_offset s < sample_offset x"
proof -
  let ?P = "\<lambda>x. sample_offset x = sample_offset s"
  obtain y ys where y: "dropWhile ?P samples = y # ys" using assms(3) by (cases "dropWhile ?P samples") auto
  then have "sample_offset y \<noteq> sample_offset s" using hd_dropWhile [of ?P samples] by simp
  moreover have "y \<in> set samples" using y set_dropWhileD [of y ?P samples] by simp
  moreover have "sorted (map sample_offset (y # ys))"
    using assms(1) takeWhile_dropWhile_id [of ?P samples] y by (metis map_append sorted_append)
  ultimately show ?thesis using assms y by (force simp: sorted_wrt_map)
qed

text \<open>A round of the loop: it handles the samples at the offset of the first one, and goes on behind the instruction.\<close>

lemma go_samples_step:
  assumes "sizes_ok inp" and "stays_in inp tbl source" and "samples = s # others" and "\<forall>x\<in>set samples. sample_file x = source"
    and "insn_at (drop pos (entries inp)) (sample_offset s - offset) = Some n"
  defines "same \<equiv> takeWhile (\<lambda>x. sample_offset x = sample_offset s) samples"
    and "rest \<equiv> dropWhile (\<lambda>x. sample_offset x = sample_offset s) samples"
  shows "\<exists>pos' sz. go_samples inp tbl samples offset pos source st =
      rbind (rfold (process_sample (pass_function inp) n) same st) (\<lambda>st'.
        if rest = [] \<and> \<not> end_readable inp then Inl Bad_iterator
        else go_samples inp tbl rest (sample_offset s + sz) (Suc pos') source st') \<and>
    (\<forall>k > sample_offset s. insn_at (drop pos (entries inp)) (k - offset) =
      insn_at (drop (Suc pos') (entries inp)) (k - (sample_offset s + sz)))"
proof -
  have file_s: "sample_file s = source" using assms(3,4) by simp
  obtain pos1 where p1: "advance inp tbl s offset pos source = Inr (Some (sample_offset s, pos1, source))"
      "insn_at (drop pos1 (entries inp)) 0 = Some n"
      "\<And>k. sample_offset s \<le> k \<Longrightarrow> insn_at (drop pos (entries inp)) (k - offset) = insn_at (drop pos1 (entries inp)) (k - sample_offset s)"
    using advance_stops [OF assms(1,2) file_s assms(5)] by blast
  obtain pos2 sz where p2: "skip_to_insn inp source source pos1 = Inr (pos2, n, sz)" "pos2 < length (entries inp)"
      "\<And>k. 0 < k \<Longrightarrow> insn_at (drop pos1 (entries inp)) k = insn_at (drop (Suc pos2) (entries inp)) (k - sz)"
    using skip_finds [OF assms(1) p1(2)] by blast
  have same: "samples = same @ rest" "drop (length same) samples = rest"
    by (simp_all add: same_def rest_def dropWhile_eq_drop [symmetric])
  have ne: "same \<noteq> []" by (simp add: same_def assms(3))
  have last_file: "sample_file (last same) = source" using same(1) ne assms(4) by (metis UnI1 last_in_set set_append)
  obtain e' sz' where at: "entry_at inp (Suc pos2) = Inr (e', sz')" "UpdateSourceFile tbl e' source = Inr source"
    using entry_stays [OF assms(2), of "Suc pos2"] p2(2) by auto
  have whole: "same = samples \<longleftrightarrow> rest = []" using same(1) by auto
  have "go_samples inp tbl samples offset pos source st =
      rbind (rfold (process_sample (pass_function inp) n) same st) (\<lambda>st'.
        if rest = [] \<and> \<not> end_readable inp then Inl Bad_iterator
        else go_samples inp tbl rest (sample_offset s + sz) (Suc pos2) source st')"
    by (subst go_samples.simps)
      (simp only: assms(3) list.case p1(1) file_s p2(1) rbind.simps option.case prod.case Let_def same_def [unfolded assms(3), symmetric]
        at last_file ne same(2) [unfolded assms(3)] whole [unfolded assms(3)] if_False if_True simp_thms)
  moreover have "insn_at (drop pos (entries inp)) (k - offset) = insn_at (drop (Suc pos2) (entries inp)) (k - (sample_offset s + sz))"
    if "sample_offset s < k" for k
    using p1(3) [of k] p2(3) [of "k - sample_offset s"] that by (simp add: diff_diff_eq)
  ultimately show ?thesis by blast
qed

lemma go_samples_run:
  assumes "sizes_ok inp" and "stays_in inp tbl source"
    and "sorted (map sample_offset samples)" and "samples \<noteq> []"
    and "\<forall>s\<in>set samples. sample_file s = source \<and> insn_at (entries inp) (sample_offset s) \<noteq> None \<and>
      insn_at (drop pos (entries inp)) (sample_offset s - offset) = insn_at (entries inp) (sample_offset s)"
  shows "go_samples inp tbl samples offset pos source st =
    rbind (rfold (attribute_sample inp) samples st) (\<lambda>st'. if end_readable inp then Inr st' else Inl Bad_iterator)"
  using assms(3-5)
proof (induction "length samples" arbitrary: samples offset pos st rule: less_induct)
  case less
  obtain s others where s: "samples = s # others" using less.prems(2) by (cases samples) auto
  obtain n where n: "insn_at (entries inp) (sample_offset s) = Some n" "insn_at (drop pos (entries inp)) (sample_offset s - offset) = Some n"
    using less.prems(3) s by auto
  have files: "\<forall>x\<in>set samples. sample_file x = source" using less.prems(3) by blast
  define same where "same = takeWhile (\<lambda>x. sample_offset x = sample_offset s) samples"
  define rest where "rest = dropWhile (\<lambda>x. sample_offset x = sample_offset s) samples"
  obtain pos' sz where step: "go_samples inp tbl samples offset pos source st =
      rbind (rfold (process_sample (pass_function inp) n) same st) (\<lambda>st'.
        if rest = [] \<and> \<not> end_readable inp then Inl Bad_iterator
        else go_samples inp tbl rest (sample_offset s + sz) (Suc pos') source st')"
    and behind: "\<And>k. sample_offset s < k \<Longrightarrow> insn_at (drop pos (entries inp)) (k - offset) =
      insn_at (drop (Suc pos') (entries inp)) (k - (sample_offset s + sz))"
    using go_samples_step [OF assms(1,2) s files n(2), of st] unfolding same_def rest_def by blast
  have same: "samples = same @ rest" by (simp add: same_def rest_def)
  have "rfold (process_sample (pass_function inp) n) same st = rfold (attribute_sample inp) same st"
    by (rule rfold_cong) (auto simp: attribute_sample_def same_def n(1) dest: set_takeWhileD)
  note step = step [unfolded this]
  show ?case
  proof (cases "rest = []")
    case True
    have "go_samples inp tbl [] o' p' source st' = Inr st'" for o' p' st' by (subst go_samples.simps) simp
    then show ?thesis unfolding step True using same True by (cases "end_readable inp") simp_all
  next
    case False
    have "go_samples inp tbl rest (sample_offset s + sz) (Suc pos') source st' =
        rbind (rfold (attribute_sample inp) rest st') (\<lambda>st'. if end_readable inp then Inr st' else Inl Bad_iterator)" for st'
    proof (rule less.hyps)
      show "length rest < length samples" using length_dropWhile_le [of _ others] by (simp add: rest_def s less_Suc_eq_le)
      show "sorted (map sample_offset rest)" using less.prems(1) same by (metis map_append sorted_append)
      show "rest \<noteq> []" by (rule False)
      show "\<forall>x\<in>set rest. sample_file x = source \<and> insn_at (entries inp) (sample_offset x) \<noteq> None \<and>
          insn_at (drop (Suc pos') (entries inp)) (sample_offset x - (sample_offset s + sz)) = insn_at (entries inp) (sample_offset x)"
        using less.prems(3) same behind sorted_rest_greater [OF less.prems(1) s] unfolding rest_def by (metis UnI2 set_append)
    qed
    then show ?thesis unfolding step using False same by (simp add: rfold_append rbind_assoc)
  qed
qed

lemma Go_attributes:
  assumes "BuildFileTable (working_dir inp) (unit_entries inp) = Inr tbl" and "1 < length tbl"
    and "profile_Read (pass_name inp) (tbl ! 1) profile = Inr (True, samples)" and "samples \<noteq> []"
    and "sizes_ok inp" and "stays_in inp tbl (tbl ! 1)"
    and "\<forall>s\<in>set samples. sample_file s = tbl ! 1 \<and> insn_at (entries inp) (sample_offset s) \<noteq> None"
  shows "Go inp profile st =
    rbind (rfold (attribute_sample inp) (sort_key sample_offset samples) st) (\<lambda>st'.
      if end_readable inp then Inr st' else Inl Bad_iterator)"
proof -
  obtain e sz where e: "entry_at inp 0 = Inr (e, sz)" "UpdateSourceFile tbl e (tbl ! 1) = Inr (tbl ! 1)"
    using entry_stays [OF assms(6), of 0] by auto
  have "array_read tbl 1 = Inr (tbl ! 1)" using assms(2) by (simp add: array_read_def)
  then have "Go inp profile st = go_samples inp tbl (sort_key sample_offset samples) 0 0 (tbl ! 1) st"
    using assms(1,3,4) e by (simp add: Go_def)
  moreover have "sort_key sample_offset samples \<noteq> []" using assms(4) by (metis length_0_conv length_sort)
  ultimately show ?thesis
    using go_samples_run [OF assms(5,6), of "sort_key sample_offset samples" 0 0 st] assms(7) by simp
qed

text \<open>C12: Samples are attributed to the right instructions: when the function is compiled from the file with
  number 1 and every sample lies at the start of an instruction, the pass handles the samples in
  the order of their offsets, and each of them at the instruction that starts there. But it always
  reads through the end iterator of the list of samples after the last of them, and whether it
  survives that is not up to it.\<close>

theorem samples_reach_their_instructions:
  assumes "BuildFileTable (working_dir inp) (unit_entries inp) = Inr tbl" and "1 < length tbl"
    and "profile_Read (pass_name inp) (tbl ! 1) profile = Inr (True, samples)" and "samples \<noteq> []"
    and "sizes_ok inp" and "stays_in inp tbl (tbl ! 1)"
    and "\<forall>s\<in>set samples. sample_file s = tbl ! 1 \<and> insn_at (entries inp) (sample_offset s) \<noteq> None"
  shows "Go inp profile st =
    rbind (rfold (attribute_sample inp) (sort_key sample_offset samples) st) (\<lambda>st'.
      if end_readable inp then Inr st' else Inl Bad_iterator)"
  using assms by (rule Go_attributes)

definition example_places :: "place list" where
  "example_places = [((''/src/main.c'', ''9''), (''main'', 8)), ((''/src/main.c'', ''7''), (''main'', 0)), ((''/src/main.c'', ''7''), (''work'', 0))]"

definition example_profile :: string where
  "example_profile = combined 0 (map place_text example_places) (map symbol_text example_places)"

definition example_unit :: pass_input where
  "example_unit = \<lparr>pass_function = one_block example_block, pass_name = ''main'',
     unit_entries = [Directive_entry \<lparr>dir_op = FILE, dir_operands = [INT_operand 1, STRING_operand (CHR 34 # ''main.c'' @ [CHR 34])]\<rparr>],
     working_dir = ''/src'',
     entries = [(Directive_entry \<lparr>dir_op = LOC, dir_operands = [INT_operand 1]\<rparr>, 0), (Insn_entry 0, 4), (Insn_entry 1, 4),
       (Other_entry, 0), (Insn_entry 2, 4)],
     end_entry = Some (Other_entry, 0), end_readable = True\<rparr>"

abbreviation example_sample :: "int \<Rightarrow> int \<Rightarrow> RacezInstructionSample" where
  "example_sample k off \<equiv> \<lparr>sample_file = ''/src/main.c'', sample_index = k, sample_offset = off, sample_value = 0\<rparr>"

lemma example_profile_read: "profile_Read ''main'' ''/src/main.c'' (Some example_profile) = Inr (True, [example_sample 0 8, example_sample 1 0])"
proof -
  have "list_all place_ok example_places" by (simp add: example_places_def place_ok_def)
  from read_combined [OF this, of 0 "''main''" "''/src/main.c''" "[]"] show ?thesis
    by (simp add: profile_Read_def example_profile_def) (simp add: example_places_def place_text_def)
qed

theorem samples_reach_their_instructions_witness:
  "Go example_unit (Some example_profile) example_state =
     rbind (process_sample (one_block example_block) 0 (example_sample 1 0) example_state)
       (process_sample (one_block example_block) 2 (example_sample 0 8))"
proof -
  let ?tbl = "[[], ''/src/main.c'']"
  have "BuildFileTable (working_dir example_unit) (unit_entries example_unit) = Inr ?tbl" by code_simp
  moreover have "profile_Read (pass_name example_unit) (?tbl ! 1) (Some example_profile) = Inr (True, [example_sample 0 8, example_sample 1 0])"
    using example_profile_read by (simp add: example_unit_def)
  moreover have "sizes_ok example_unit" "stays_in example_unit ?tbl (?tbl ! 1)" by code_simp+
  moreover have at: "insn_at (entries example_unit) 8 = Some 2" "insn_at (entries example_unit) 0 = Some 0" by code_simp+
  ultimately have "Go example_unit (Some example_profile) example_state =
      rbind (rfold (attribute_sample example_unit) (sort_key sample_offset [example_sample 0 8, example_sample 1 0]) example_state)
        (\<lambda>st'. if end_readable example_unit then Inr st' else Inl Bad_iterator)"
    by (intro samples_reach_their_instructions [where tbl = ?tbl]) auto
  moreover have "attribute_sample example_unit (example_sample 0 8) = process_sample (one_block example_block) 2 (example_sample 0 8)"
      "attribute_sample example_unit (example_sample 1 0) = process_sample (one_block example_block) 0 (example_sample 1 0)"
    by (rule ext, simp only: attribute_sample_def RacezInstructionSample.select_convs at option.case, simp add: example_unit_def)+
  moreover have "end_readable example_unit" by (simp add: example_unit_def)
  ultimately show ?thesis by (simp add: rbind_assoc rbind_Inr_right rfold_single)
qed

end
