(* ===== verification/Mao_Detect.thy ===== *)
theory Mao_Detect
  imports Mao_Pass_Properties Detect_Properties
begin

text \<open>
  The pass and the detector together: whatever the pass stores in the log and in its second file,
  the detector can be run on both, and every record it sees has thread and locks of a sample. And
  the pass with the processor: the records it adds are accesses the program makes.
\<close>

section \<open>What the pass keeps\<close>

text \<open>A step of the loop over the samples: it handles some of them at one instruction, and goes on with the others.\<close>

lemma go_samples_cases:
  assumes "go_samples inp tbl samples offset pos current st = Inr st'"
  obtains (stopped) "st' = st"
  | (step) f n same st1 where "rfold (process_sample f n) same st = Inr st1"
      "st' = st1 \<or> (\<exists>rest o' p' c'. length rest < length samples \<and> go_samples inp tbl rest o' p' c' st1 = Inr st')"
proof (cases samples)
  case Nil
  with assms stopped show thesis by (simp add: go_samples.simps)
next
  case (Cons s others)
  obtain here where here: "advance inp tbl s offset pos current = Inr here"
    using assms Cons by (cases "advance inp tbl s offset pos current") (simp_all add: go_samples.simps)
  show thesis
  proof (cases here)
    case None
    with assms here Cons stopped show thesis by (simp add: go_samples.simps)
  next
    case (Some t)
    obtain o' p' c' where t: "t = (o', p', c')" by (cases t) auto
    define same where "same = takeWhile (\<lambda>x. sample_offset x = o') (s # others)"
    define rest where "rest = (if same = [] then others else drop (length same) (s # others))"
    have "length rest < length samples" by (simp add: rest_def Cons)
    obtain n sz p'' where skip: "skip_to_insn inp c' (sample_file s) p' = Inr (p'', n, sz)"
      using assms here Some t Cons by (cases "skip_to_insn inp c' (sample_file s) p'") (auto simp: go_samples.simps)
    have run: "go_samples inp tbl samples offset pos current st =
        rbind (rfold (process_sample (pass_function inp) n) same st) (\<lambda>st1.
          if same = s # others \<and> \<not> end_readable inp then Inl Bad_iterator
          else rbind (entry_at inp (Suc p'')) (\<lambda>(e, _).
               rbind (UpdateSourceFile tbl e c') (\<lambda>c''.
                 if c'' \<noteq> sample_file (if same = [] then s else last same) then Inr st1
                 else go_samples inp tbl rest (o' + sz) (Suc p'') c'' st1)))"
      unfolding Cons
      by (subst go_samples.simps) (simp only: list.case here Some t option.case prod.case rbind.simps skip Let_def same_def rest_def)
    obtain st1 where st1: "rfold (process_sample (pass_function inp) n) same st = Inr st1"
        "st' = st1 \<or> (\<exists>c''. go_samples inp tbl rest (o' + sz) (Suc p'') c'' st1 = Inr st')"
      using assms unfolding run by (auto split: if_splits)
    have "length rest < length samples" by (simp add: rest_def Cons)
    with st1 step show thesis by blast
  qed
qed

text \<open>
  The pass changes what it is given in two places only: where it stores the address of a sampled
  instruction, and where it writes a record for a neighbour. A property of the two files that
  survives both survives the whole pass.
\<close>

locale pass_invariant =
  fixes keep :: "Record list \<Rightarrow> Record list \<Rightarrow> bool"
  assumes keep_store: "keep raws news \<Longrightarrow> raws ! k = r \<Longrightarrow> k < length raws \<Longrightarrow> wr = 0 \<or> wr = 1 \<Longrightarrow> r' = r \<or> r' = set_memory_address a r \<Longrightarrow>
      keep (raws[k := r'\<lparr>is_write := wr\<rparr>]) news"
    and keep_add: "keep raws news \<Longrightarrow> seed \<in> set raws \<Longrightarrow> wr = 0 \<or> wr = 1 \<Longrightarrow> extended_record seed wr ip a = Inr r \<Longrightarrow> keep raws (news @ [r])"
begin

definition kept :: "sim_state \<Rightarrow> bool" where
  "kept st \<longleftrightarrow> keep (raw_record st) (new_records st)"

lemma kept_maps [simp]:
  "kept (st\<lparr>forward_reg_map := m\<rparr>) = kept st" "kept (st\<lparr>backward_reg_map := m\<rparr>) = kept st" "kept (spoil d i st) = kept st"
  by (simp_all add: kept_def)

lemma update_operand_kept:
  assumes "kept st" and "update_operand i index k wr st = Inr st'" and "wr = 0 \<or> wr = 1"
  shows "kept st'"
proof (cases "IsMemOperand i k")
  case True
  then obtain a where a: "update_raw index (\<lambda>r. (if a \<noteq> - 1 then set_memory_address a r else r)\<lparr>is_write := wr\<rparr>) st = Inr st'"
    using assms(2) by (auto simp: update_operand_def)
  let ?r = "raw_record st ! nat index"
  have "nat index < length (raw_record st)"
      "st' = st\<lparr>raw_record := (raw_record st)[nat index := (if a \<noteq> - 1 then set_memory_address a ?r else ?r)\<lparr>is_write := wr\<rparr>]\<rparr>"
    using a by (auto simp: update_raw_def array_read_def array_write_def split: if_splits)
  with assms(1,3) keep_store [of "raw_record st" "new_records st" "nat index" ?r wr _ a] show ?thesis by (simp add: kept_def)
qed (use assms in \<open>simp add: update_operand_def\<close>)

lemma UpdateMemory_kept: "kept st \<Longrightarrow> UpdateMemory i index st = Inr st' \<Longrightarrow> kept st'"
  by (auto simp: UpdateMemory_def split: if_splits intro: update_operand_kept)

lemma write_new_kept:
  assumes "kept st" and "write_new index wr delta a st = Inr st'" and "wr = 0 \<or> wr = 1"
  shows "kept st'"
proof -
  obtain seed r where r: "array_read (raw_record st) index = Inr seed" "st' = st\<lparr>new_records := new_records st @ [r]\<rparr>"
      "extended_record seed wr (pebs_ip (mem_op seed) + delta) a = Inr r"
    using assms(2) by (auto simp: write_new_def)
  then have "seed \<in> set (raw_record st)" by (auto simp: array_read_def split: if_splits)
  with keep_add [OF _ this assms(3) r(3)] assms(1) show ?thesis by (simp add: kept_def r(2))
qed

lemma new_sample_kept: "kept st \<Longrightarrow> ComputeNewSampleWhole i index offset d st = Inr (go, st') \<Longrightarrow> kept st'"
  by (auto simp: ComputeNewSampleWhole_def Let_def split: if_splits intro: write_new_kept [rotated])

lemma backward_loop_kept: "kept st \<Longrightarrow> backward_loop f index n k st = Inr st' \<Longrightarrow> kept st'"
  by (induction f index n k st rule: backward_loop.induct) (auto split: if_splits dest: new_sample_kept)

lemma forward_loop_kept: "kept st \<Longrightarrow> forward_loop f index n k st = Inr st' \<Longrightarrow> kept st'"
proof (induction f index n k st rule: forward_loop.induct)
  case (1 f index n k st)
  then show ?case by (subst (asm) (2) forward_loop.simps) (auto split: if_splits dest: new_sample_kept)
qed

lemma ExecuteSimWhole_kept: "kept st \<Longrightarrow> ExecuteSimWhole f n index st = Inr st' \<Longrightarrow> kept st'"
  by (auto simp: ExecuteSimWhole_def Let_def split: if_splits dest!: backward_loop_kept [rotated] forward_loop_kept [rotated])

lemma process_sample_kept: "kept st \<Longrightarrow> process_sample f n s st = Inr st' \<Longrightarrow> kept st'"
  by (auto simp: process_sample_def dest: UpdateMemory_kept ExecuteSimWhole_kept)

lemma process_samples_kept: "kept st \<Longrightarrow> rfold (process_sample f n) ss st = Inr st' \<Longrightarrow> kept st'"
  by (induction ss arbitrary: st) (auto dest: process_sample_kept)

lemma go_samples_kept: "kept st \<Longrightarrow> go_samples inp tbl samples offset pos current st = Inr st' \<Longrightarrow> kept st'"
proof (induction "length samples" arbitrary: samples offset pos current st rule: less_induct)
  case less
  from less.prems(2) show ?case
  proof (cases rule: go_samples_cases)
    case (step f n same st1)
    then have "kept st1" using process_samples_kept less.prems(1) by blast
    with step show ?thesis using less.hyps by blast
  qed (use less.prems in simp)
qed

lemma Go_kept: "kept st \<Longrightarrow> Go inp profile st = Inr st' \<Longrightarrow> kept st'"
  by (auto simp: Go_def split: if_splits dest: go_samples_kept)

lemma run_pass_kept: "keep raws news \<Longrightarrow> run_pass fs u (raws, news) = Inr (raws', news') \<Longrightarrow> keep raws' news'"
proof -
  assume k: "keep raws news" and run: "run_pass fs u (raws, news) = Inr (raws', news')"
  let ?st = "\<lparr>raw_record = raws, new_records = news, backward_reg_map = cleared, forward_reg_map = cleared\<rparr>"
  obtain st' where "Go (fst u) (snd u) ?st = Inr st'" "raws' = raw_record st'" "news' = new_records st'"
    using run by (cases u) (auto simp: run_pass_def InstructSimPass_def split: if_splits)
  moreover have "kept ?st" using k by (simp add: kept_def)
  ultimately show ?thesis using Go_kept [of ?st] by (simp add: kept_def)
qed

lemma unit_kept: "keep raws news \<Longrightarrow> rfold (run_pass fs) units (raws, news) = Inr (raws', news') \<Longrightarrow> keep raws' news'"
  by (induction units arbitrary: raws news) (auto dest: run_pass_kept)

end

section \<open>The two files\<close>

text \<open>A record of the log after the pass, and a record of the second file, against the sample they come from.\<close>

definition updated :: "Record \<Rightarrow> Record \<Rightarrow> bool" where
  "updated s r \<longleftrightarrow> r = s \<or> (\<exists>a wr. (wr = 0 \<or> wr = 1) \<and> r = s\<lparr>op_word0 := a, is_write := wr\<rparr>)"

definition extends :: "Record \<Rightarrow> Record \<Rightarrow> bool" where
  "extends s r \<longleftrightarrow> record_type r = MEMORY_OP \<and> (is_write r = 0 \<or> is_write r = 1) \<and> record_no r = record_no s \<and>
     thread_id r = thread_id s \<and> locks r = locks s \<and> layout_ok r \<and> lock_count r \<le> 10 \<and> trace_depth r = 0"

definition extended_from :: "Record list \<Rightarrow> Record list \<Rightarrow> Record list \<Rightarrow> bool" where
  "extended_from log raws news \<longleftrightarrow> list_all2 updated log raws \<and> (\<forall>r\<in>set news. \<exists>s\<in>set log. extends s r)"

lemma updated_store:
  "updated s r \<Longrightarrow> wr = 0 \<or> wr = 1 \<Longrightarrow> r' = r \<or> r' = set_memory_address a r \<Longrightarrow> updated s (r'\<lparr>is_write := wr\<rparr>)"
proof -
  assume "updated s r" and wr: "wr = 0 \<or> wr = 1" and "r' = r \<or> r' = set_memory_address a r"
  then obtain b where "r'\<lparr>is_write := wr\<rparr> = s\<lparr>op_word0 := b, is_write := wr\<rparr>"
    by (cases s) (auto simp: updated_def set_memory_address_def)
  with wr show ?thesis by (auto simp: updated_def)
qed

lemma updated_views: "updated s r \<Longrightarrow> record_no r = record_no s \<and> thread_id r = thread_id s \<and> locks r = locks s \<and> lock_count r = lock_count s"
  by (auto simp: updated_def locks_def)

lemma extended_record_extends:
  assumes "extended_record seed wr ip a = Inr r" and "wr = 0 \<or> wr = 1" and "updated s seed"
  shows "extends s r"
proof -
  obtain ls where ls: "copy_prefix (lockset seed) (lock_count seed) (lockset zero_record) = Inr ls"
    using assms(1) by (auto simp: extended_record_def)
  then have "length ls = 10" "lock_count seed \<le> 10" "take (nat (lock_count seed)) ls = take (nat (lock_count seed)) (lockset seed)"
    by (auto simp: copy_prefix_Inr_iff zero_record_def)
  moreover have "r = (set_memory_address a (set_pip ip (zero_record\<lparr>record_type := MEMORY_OP\<rparr>)))
      \<lparr>is_write := wr, record_no := record_no seed, thread_id := thread_id seed, sip := ip, lock_count := lock_count seed, lockset := ls\<rparr>"
    using assms(1) ls by (simp add: extended_record_def)
  ultimately have "record_type r = MEMORY_OP" "is_write r = wr" "record_no r = record_no seed" "thread_id r = thread_id seed"
      "locks r = locks seed" "layout_ok r" "lock_count r \<le> 10" "trace_depth r = 0"
    by (simp_all add: locks_def layout_ok_def union_store_defs zero_record_def)
  with assms(2) updated_views [OF assms(3)] show ?thesis by (simp add: extends_def)
qed

lemma updated_sample:
  assumes "extended_from log raws news" and "r \<in> set raws"
  shows "\<exists>s\<in>set log. updated s r"
proof -
  obtain k where "k < length raws" "raws ! k = r" using assms(2) by (auto simp: in_set_conv_nth)
  with assms(1) have "log ! k \<in> set log" "updated (log ! k) r" by (auto simp: extended_from_def list_all2_conv_all_nth)
  then show ?thesis by blast
qed

interpretation pass: pass_invariant "extended_from log" for log
proof
  fix raws news :: "Record list" and k :: nat and wr :: int and a :: ptr and r r' :: Record
  assume "extended_from log raws news" "raws ! k = r" "k < length raws" "wr = 0 \<or> wr = 1" "r' = r \<or> r' = set_memory_address a r"
  then show "extended_from log (raws[k := r'\<lparr>is_write := wr\<rparr>]) news"
    using updated_store [of "log ! k" r wr r' a] by (auto simp: extended_from_def list_all2_conv_all_nth nth_list_update)
next
  fix raws news :: "Record list" and wr :: int and ip a :: ptr and seed r :: Record
  assume k: "extended_from log raws news" and "seed \<in> set raws" and wr: "wr = 0 \<or> wr = 1" and r: "extended_record seed wr ip a = Inr r"
  then obtain s where "s \<in> set log" "updated s seed" using updated_sample by blast
  then show "extended_from log raws (news @ [r])" using k extended_record_extends [OF r wr] by (auto simp: extended_from_def)
qed

section \<open>The detector on the extended log\<close>

definition comes_from :: "Record \<Rightarrow> Record \<Rightarrow> bool" where
  "comes_from s r \<longleftrightarrow> record_no r = record_no s \<and> thread_id r = thread_id s \<and> locks r = locks s"

lemma extended_comes_from:
  assumes "extended_from log raws news" and "r \<in> set (raws @ news)"
  shows "\<exists>s\<in>set log. comes_from s r"
proof (cases "r \<in> set raws")
  case True
  with updated_sample [OF assms(1)] updated_views show ?thesis unfolding comes_from_def by blast
next
  case False
  with assms show ?thesis by (auto simp: extended_from_def extends_def comes_from_def)
qed

lemma extended_log_ok:
  assumes "extended_from log raws news" and "\<forall>r\<in>set log. writable r \<and> record_ok r \<and> record_type r \<noteq> MEMORY_ALLOC"
    and "distinct (map record_no log)"
  shows "log_ok (raws @ news)"
proof -
  have "record_ok r" if "r \<in> set raws" for r
  proof -
    from that obtain s where "s \<in> set log" "updated s r" using updated_sample [OF assms(1)] by blast
    with assms(2) show ?thesis by (auto simp: updated_def record_ok_def access_ok_def writable_def layout_ok_def)
  qed
  moreover have "record_ok r" if "r \<in> set news" for r
    using assms(1) that by (auto simp: extended_from_def extends_def record_ok_def access_ok_def)
  moreover have "thread_id r = thread_id r'" if rs: "r \<in> set (raws @ news)" "r' \<in> set (raws @ news)" "record_no r = record_no r'" for r r'
  proof -
    obtain s s' where "s \<in> set log" "s' \<in> set log" "comes_from s r" "comes_from s' r'"
      using extended_comes_from [OF assms(1)] rs(1,2) by blast
    with rs(3) assms(3) show ?thesis by (metis comes_from_def distinct_map inj_on_def)
  qed
  ultimately show ?thesis unfolding log_ok_def by (metis Un_iff set_append)
qed

lemma racy_mono: "racy h \<Longrightarrow> set h \<subseteq> set h' \<Longrightarrow> racy h'"
  unfolding racy_def shared_def written_def candidate_def by blast

lemma log_ok_mono: "log_ok log \<Longrightarrow> set log' \<subseteq> set log \<Longrightarrow> log_ok log'"
  unfolding log_ok_def by blast

lemma main_schedule: "\<exists>log. detect_main cfg raws (Some news) = rfold (offline_detection cfg) log init_detector \<and> set log \<subseteq> set (raws @ news)"
proof (cases "raws = [] \<or> news = []")
  case True
  then show ?thesis by (auto simp: detect_main_def split: list.splits intro: exI [of _ "[]"] exI [of _ raws])
next
  case False
  have "set (schedule raws (set_insert_all record_less news [])) \<subseteq> set (raws @ news)"
    using set_schedule [of raws "set_insert_all record_less news []"] set_new_records [of news "[]"] by auto
  moreover have "detect_main cfg raws (Some news) = rfold (offline_detection cfg) (schedule raws (set_insert_all record_less news [])) init_detector"
    using False by (auto simp: detect_main_def detect_merge_schedule split: list.splits)
  ultimately show ?thesis by blast
qed

text \<open>C13: The detector can be run on what the pass leaves. Take a log of records the library wrote, with different
  numbers and without records of allocations, and let the pass run over the functions of a unit.
  Then every record of the log and of the second file has number, thread and locks of a sample of the
  original log, the detector runs to its end on the two files, and what it reports is a location
  that two threads accessed, that was written, and that no lock protected in these records.\<close>

theorem extended_log_is_analysed:
  assumes "\<forall>r\<in>set log. writable r \<and> record_ok r \<and> record_type r \<noteq> MEMORY_ALLOC" and "distinct (map record_no log)"
    and "rfold (run_pass fs) units (log, []) = Inr (raws, news)" and "addr2line_ok cfg" and "\<not> enable_memory_reuse cfg"
  shows "(\<forall>r\<in>set (raws @ news). \<exists>s\<in>set log. comes_from s r) \<and>
    (\<exists>d. detect_main cfg raws (Some news) = Inr d \<and>
       (\<forall>a. map_of (rw_map d) a = Some 4 \<longrightarrow> racy (accesses (raws @ news) a)))"
proof -
  have "list_all2 updated log log" by (rule list.rel_refl) (simp add: updated_def)
  then have "extended_from log log []" by (simp add: extended_from_def)
  from pass.unit_kept [OF this assms(3)] have ext: "extended_from log raws news" .
  have ok: "log_ok (raws @ news)" using extended_log_ok [OF ext assms(1,2)] .
  obtain seq where seq: "detect_main cfg raws (Some news) = rfold (offline_detection cfg) seq init_detector" "set seq \<subseteq> set (raws @ news)"
    using main_schedule by blast
  obtain d where d: "rfold (offline_detection cfg) seq init_detector = Inr d"
    using run_total [OF sim_init spec_inv_init ok seq(2) assms(4)] by blast
  have "racy (accesses (raws @ news) a)" if "map_of (rw_map d) a = Some 4" for a
  proof (rule racy_mono)
    show "racy (accesses seq a)"
      using log_run_reported [OF log_ok_mono [OF ok seq(2)] assms(5) d] that reported_racy by blast
    show "set (accesses seq a) \<subseteq> set (accesses (raws @ news) a)" using seq(2) by (auto simp: accesses_def)
  qed
  with extended_comes_from [OF ext] seq(1) d show ?thesis by auto
qed

text \<open>Two threads sampled at the same instruction, one of which holds a lock.\<close>

definition two_samples :: "Record list" where
  "two_samples = [example_seed, example_seed\<lparr>record_no := 4, thread_id := 8, lock_count := 0\<rparr>]"

definition two_profile :: string where
  "two_profile = ''0'' @ tab # ''/src/main.c:7'' @ tab # ''main'' @ tab # ''0'' @ nl # ''1'' @ tab # ''/src/main.c:7'' @ tab # ''main'' @ tab # ''0'' @ [nl]"

definition example_files :: pass_files where
  "example_files = \<lparr>racez_raw_file = Some ''racez.log'', pmuprofile_file = Some ''samples'', raw_opened = True, fstat_works = True,
     mmap_works = True, new_opened = True\<rparr>"

lemma two_samples_run:
  "map_sum (\<lambda>_. ()) (\<lambda>(raws, news). length news) (rfold (run_pass example_files) [(example_unit, Some two_profile)] (two_samples, [])) = Inr 4"
  by code_simp

theorem extended_log_is_analysed_witness:
  "\<exists>raws news d. rfold (run_pass example_files) [(example_unit, Some two_profile)] (two_samples, []) = Inr (raws, news) \<and> length news = 4 \<and>
     detect_main (example_config False) raws (Some news) = Inr d"
proof -
  obtain raws news where run: "rfold (run_pass example_files) [(example_unit, Some two_profile)] (two_samples, []) = Inr (raws, news)"
      "length news = 4"
    using two_samples_run by (cases "rfold (run_pass example_files) [(example_unit, Some two_profile)] (two_samples, [])") auto
  have "\<forall>r\<in>set two_samples. writable r \<and> record_ok r \<and> record_type r \<noteq> MEMORY_ALLOC" "distinct (map record_no two_samples)"
    by (simp_all add: two_samples_def example_seed_def writable_def layout_ok_def record_ok_def is_access_def access_ok_def zero_record_def
        memory_address_def)
  from extended_log_is_analysed [OF this run(1) addr2line_ok_example no_reuse_example] run show ?thesis by blast
qed

section \<open>What the pass adds\<close>

text \<open>The pass and the processor: the instruction of a sample, and the machine states around it.\<close>

definition sampled_run ::
  "(insn \<Rightarrow> registers \<Rightarrow> registers) \<Rightarrow> pass_input \<Rightarrow> Record list \<Rightarrow> (RacezInstructionSample \<Rightarrow> nat \<Rightarrow> registers) \<Rightarrow>
   RacezInstructionSample \<Rightarrow> bool" where
  "sampled_run exec inp log states s \<longleftrightarrow>
     (\<exists>n seed. insn_at (entries inp) (sample_offset s) = Some n \<and> n < length (insns (pass_function inp)) \<and>
        array_read log (sample_index s) = Inr seed \<and> straight_run exec (pass_function inp) n (states s) \<and>
        registers_at (mem_op seed) (states s n))"

definition access_near ::
  "pass_input \<Rightarrow> Record list \<Rightarrow> (RacezInstructionSample \<Rightarrow> nat \<Rightarrow> registers) \<Rightarrow> RacezInstructionSample \<Rightarrow> Record \<Rightarrow> bool" where
  "access_near inp log states s r \<longleftrightarrow>
     (\<exists>n seed. insn_at (entries inp) (sample_offset s) = Some n \<and> array_read log (sample_index s) = Inr seed \<and>
        extension_of (pass_function inp) n seed (states s) r)"

interpretation upd: pass_invariant "\<lambda>raws news. list_all2 updated log raws" for log
proof
  fix raws :: "Record list" and k :: nat and wr :: int and a :: ptr and r r' :: Record
  assume "list_all2 updated log raws" "raws ! k = r" "k < length raws" "wr = 0 \<or> wr = 1" "r' = r \<or> r' = set_memory_address a r"
  then show "list_all2 updated log (raws[k := r'\<lparr>is_write := wr\<rparr>])"
    using updated_store [of "log ! k" r wr r' a] by (auto simp: list_all2_conv_all_nth nth_list_update)
qed

lemma extension_of_updated: "updated s s' \<Longrightarrow> extension_of f n s' states r = extension_of f n s states r"
proof -
  assume u: "updated s s'"
  then have "mem_op s' = mem_op s" by (auto simp: updated_def)
  with updated_views [OF u] show ?thesis by (simp add: extension_of_def access_at_def)
qed

lemma updated_read:
  assumes "list_all2 updated log raws" and "array_read log k = Inr s"
  shows "\<exists>s'. array_read raws k = Inr s' \<and> updated s s'"
  using assms by (auto simp: array_read_def list_all2_conv_all_nth split: if_splits)

lemma UpdateMemory_new: "UpdateMemory i index st = Inr st' \<Longrightarrow> new_records st' = new_records st"
  by (auto simp: UpdateMemory_def update_operand_def update_raw_def split: if_splits)

lemma attribute_sample_adds:
  assumes "processor_ok exec" and "list_all insn_ok (insns (pass_function inp))" and "sampled_run exec inp log states s"
    and "list_all2 updated log (raw_record st)" and "attribute_sample inp s st = Inr st'"
  shows "list_all2 updated log (raw_record st') \<and>
    (\<exists>rs. new_records st' = new_records st @ rs \<and> (\<forall>r\<in>set rs. access_near inp log states s r))"
proof -
  let ?f = "pass_function inp"
  obtain n seed where n: "insn_at (entries inp) (sample_offset s) = Some n" "n < length (insns ?f)"
      "array_read log (sample_index s) = Inr seed" "straight_run exec ?f n (states s)" "registers_at (mem_op seed) (states s n)"
    using assms(3) by (auto simp: sampled_run_def)
  obtain st1 where st1: "UpdateMemory (insns ?f ! n) (sample_index s) st = Inr st1" "ExecuteSimWhole ?f n (sample_index s) st1 = Inr st'"
    using assms(5) n(1) by (auto simp: attribute_sample_def process_sample_def)
  have upd1: "list_all2 updated log (raw_record st1)"
    using upd.UpdateMemory_kept [of log st] assms(4) st1(1) by (simp add: upd.kept_def)
  obtain seed1 where seed1: "array_read (raw_record st1) (sample_index s) = Inr seed1" "updated seed seed1"
    using updated_read [OF upd1 n(3)] by blast
  have "registers_at (mem_op seed1) (states s n)" using n(5) seed1(2) by (auto simp: updated_def)
  from ExecuteSimWhole_adds [OF assms(1,2) n(2,4) seed1(1) this st1(2)]
  obtain rs where "raw_record st' = raw_record st1" "new_records st' = new_records st1 @ rs"
      "\<forall>r\<in>set rs. extension_of ?f n seed (states s) r"
    unfolding adds_def extension_of_updated [OF seed1(2)] by blast
  with upd1 UpdateMemory_new [OF st1(1)] n(1,3) show ?thesis by (auto simp: access_near_def)
qed

lemma attribute_samples_add:
  assumes "processor_ok exec" and "list_all insn_ok (insns (pass_function inp))" and "\<forall>s\<in>set samples. sampled_run exec inp log states s"
    and "list_all2 updated log (raw_record st)" and "rfold (attribute_sample inp) samples st = Inr st'"
  shows "\<exists>rs. new_records st' = new_records st @ rs \<and> (\<forall>r\<in>set rs. \<exists>s\<in>set samples. access_near inp log states s r)"
  using assms(3-5)
proof (induction samples arbitrary: st)
  case (Cons s samples)
  obtain st1 where st1: "attribute_sample inp s st = Inr st1" "rfold (attribute_sample inp) samples st1 = Inr st'"
    using Cons.prems(3) by auto
  obtain rs where rs: "list_all2 updated log (raw_record st1)" "new_records st1 = new_records st @ rs"
      "\<forall>r\<in>set rs. access_near inp log states s r"
    using attribute_sample_adds [OF assms(1,2) _ Cons.prems(2) st1(1), of states] Cons.prems(1) by auto
  obtain rs' where "new_records st' = new_records st1 @ rs'" "\<forall>r\<in>set rs'. \<exists>s\<in>set samples. access_near inp log states s r"
    using Cons.IH [OF _ rs(1) st1(2)] Cons.prems(1) by auto
  with rs show ?case by (intro exI [of _ "rs @ rs'"]) auto
qed simp

text \<open>C14: What the pass adds stands for the memory operands of instructions near a sample. Take a
  function compiled from one source file, number 1 of the table, whose samples all lie in that file
  and at the starts of instructions, with the registers of each sample as the processor had them at
  that instruction, on any processor on which the handled instructions change their destination
  only; the destinations are registers the pass knows by name (the 64-bit names, and the
  32-bit names of the eight older registers; not \<open>r8d\<close>, see \<open>narrow_target_missed\<close>) and addresses are formed from 64-bit
  registers. Then every record the pass over the function writes to the second file belongs to an
  instruction in the basic block of some sample: its address is the effective address of the memory
  operand in the state in which the instruction runs, with its direction, and thread, number and
  locks of that sample. For a move, addition or subtraction this is an access the instruction
  makes; a \<open>lea\<close> counts as a load of the address it computes, although it makes no
  access.\<close>

theorem added_records_are_accesses:
  assumes "BuildFileTable (working_dir inp) (unit_entries inp) = Inr tbl" and "1 < length tbl"
    and "profile_Read (pass_name inp) (tbl ! 1) profile = Inr (True, samples)" and "samples \<noteq> []"
    and "sizes_ok inp" and "stays_in inp tbl (tbl ! 1)" and "\<forall>s\<in>set samples. sample_file s = tbl ! 1"
    and "processor_ok exec" and "list_all insn_ok (insns (pass_function inp))"
    and "\<forall>s\<in>set samples. sampled_run exec inp (raw_record st) states s" and "Go inp profile st = Inr st'"
  shows "\<exists>rs. new_records st' = new_records st @ rs \<and>
    (\<forall>r\<in>set rs. \<exists>s\<in>set samples. access_near inp (raw_record st) states s r)"
proof -
  have "\<forall>s\<in>set samples. sample_file s = tbl ! 1 \<and> insn_at (entries inp) (sample_offset s) \<noteq> None"
    using assms(7,10) by (fastforce simp: sampled_run_def)
  from assms(11) [unfolded Go_attributes [OF assms(1-6) this]]
  have "rfold (attribute_sample inp) (sort_key sample_offset samples) st = Inr st'" by (auto split: if_splits)
  moreover have "list_all2 updated (raw_record st) (raw_record st)" by (rule list.rel_refl) (simp add: updated_def)
  ultimately show ?thesis
    using attribute_samples_add [OF assms(8,9), of "sort_key sample_offset samples" "raw_record st" states st st'] assms(10) by auto
qed

definition two_state :: sim_state where
  "two_state = \<lparr>raw_record = two_samples, new_records = [], backward_reg_map = cleared, forward_reg_map = cleared\<rparr>"

lemma two_state_run:
  "map_sum (\<lambda>_. ()) (length \<circ> new_records) (Go example_unit (Some two_profile) two_state) = Inr 4"
  "profile_Read ''main'' ''/src/main.c'' (Some two_profile) = Inr (True, [example_sample 0 0, example_sample 1 0])"
  "insn_at (entries example_unit) 0 = Some 0"
  by code_simp+

lemma two_sampled:
  assumes "k = 0 \<or> k = 1"
  shows "sampled_run zero_exec example_unit (raw_record two_state) (\<lambda>_. zero_run example_block example_registers) (example_sample k 0)"
proof -
  let ?seed = "two_samples ! nat k"
  have "array_read two_samples k = Inr ?seed" "mem_op ?seed = mem_op example_seed"
    using assms by (auto simp: two_samples_def array_read_def)
  moreover have "straight_run zero_exec (pass_function example_unit) 0 (zero_run example_block example_registers)"
      "0 < length (insns (pass_function example_unit))"
    using zero_run_straight [of example_block 0] by (simp_all add: example_unit_def one_block_def example_block_def)
  ultimately show ?thesis using two_state_run(3) example_registers_at by (auto simp: sampled_run_def two_state_def)
qed

theorem added_records_are_accesses_witness:
  "\<exists>st'. Go example_unit (Some two_profile) two_state = Inr st' \<and> length (new_records st') = 4 \<and>
     (\<forall>r\<in>set (new_records st'). \<exists>s\<in>{example_sample 0 0, example_sample 1 0}.
        access_near example_unit two_samples (\<lambda>_. zero_run example_block example_registers) s r)"
proof -
  let ?tbl = "[[], ''/src/main.c'']" and ?samples = "[example_sample 0 0, example_sample 1 0]"
  obtain st' where st': "Go example_unit (Some two_profile) two_state = Inr st'" "length (new_records st') = 4"
    using two_state_run(1) by (cases "Go example_unit (Some two_profile) two_state") auto
  have "BuildFileTable (working_dir example_unit) (unit_entries example_unit) = Inr ?tbl" by code_simp
  moreover have "profile_Read (pass_name example_unit) (?tbl ! 1) (Some two_profile) = Inr (True, ?samples)"
    using two_state_run(2) by (simp add: example_unit_def)
  moreover have "sizes_ok example_unit" "stays_in example_unit ?tbl (?tbl ! 1)" by code_simp+
  moreover have "list_all insn_ok (insns (pass_function example_unit))" by code_simp
  moreover have "\<forall>s\<in>set ?samples. sampled_run zero_exec example_unit (raw_record two_state) (\<lambda>_. zero_run example_block example_registers) s"
    using two_sampled [of 0] two_sampled [of 1] by simp
  ultimately have "\<exists>rs. new_records st' = new_records two_state @ rs \<and> (\<forall>r\<in>set rs. \<exists>s\<in>set ?samples.
      access_near example_unit (raw_record two_state) (\<lambda>_. zero_run example_block example_registers) s r)"
    using zero_exec_ok st'(1) by (intro added_records_are_accesses [where tbl = ?tbl and samples = ?samples and profile = "Some two_profile" and exec = zero_exec]) auto
  with st' show ?thesis by (auto simp: two_state_def)
qed

end
