(* ===== verification/Mao_Unit.thy ===== *)
theory Mao_Unit
  imports Mao_Pass
begin

text \<open>
  What the patch adds to Mao itself: walking from instruction to instruction over the linked list
  of entries, and the map from instructions to basic blocks. The simulation counts instructions
  instead of following pointers; lemmas at the end justify that: the loops over the list do the same.
\<close>

section \<open>Walking over the entries\<close>

definition IsInstruction :: "mao_entry \<Rightarrow> bool" where
  "IsInstruction e = (case e of Insn_entry n \<Rightarrow> True | _ \<Rightarrow> False)"

text \<open>An entry is its position in the list of the unit; \<open>None\<close> is a null pointer.\<close>

function NextInstruction :: "mao_entry list \<Rightarrow> nat \<Rightarrow> nat option" where
  "NextInstruction es pos =
     (if Suc pos < length es then (if IsInstruction (es ! Suc pos) then Some (Suc pos) else NextInstruction es (Suc pos)) else None)"
  by pat_completeness auto
termination
  by (relation "measure (\<lambda>(es, pos). length es - pos)") auto

declare NextInstruction.simps [simp del]

fun PrevInstruction :: "mao_entry list \<Rightarrow> nat \<Rightarrow> nat option" where
  "PrevInstruction es 0 = None"
| "PrevInstruction es (Suc pos) = (if IsInstruction (es ! pos) then Some pos else PrevInstruction es pos)"

definition AsInstruction :: "mao_entry \<Rightarrow> nat" where
  "AsInstruction e = (case e of Insn_entry n \<Rightarrow> n | _ \<Rightarrow> 0)"

lemma NextInstruction_Some:
  "NextInstruction es pos = Some p \<Longrightarrow>
   pos < p \<and> p < length es \<and> IsInstruction (es ! p) \<and> (\<forall>q. pos < q \<and> q < p \<longrightarrow> \<not> IsInstruction (es ! q))"
proof (induction es pos rule: NextInstruction.induct)
  case (1 es pos)
  show ?case
  proof (cases "Suc pos < length es \<and> \<not> IsInstruction (es ! Suc pos)")
    case True
    then have "NextInstruction es (Suc pos) = Some p" using 1(2) by (simp add: NextInstruction.simps [of es pos])
    with 1(1) True show ?thesis by (metis Suc_lessD Suc_lessI)
  next
    case False
    with 1(2) show ?thesis by (auto simp: NextInstruction.simps [of es pos] split: if_splits)
  qed
qed

lemma NextInstruction_None: "NextInstruction es pos = None \<Longrightarrow> pos < q \<Longrightarrow> q < length es \<Longrightarrow> \<not> IsInstruction (es ! q)"
proof (induction es pos rule: NextInstruction.induct)
  case (1 es pos)
  then have "Suc pos < length es" "\<not> IsInstruction (es ! Suc pos)" "NextInstruction es (Suc pos) = None"
    by (auto simp: NextInstruction.simps [of es pos] split: if_splits)
  with 1 show ?case by (cases "q = Suc pos") auto
qed

lemma PrevInstruction_Some:
  "PrevInstruction es pos = Some p \<Longrightarrow> p < pos \<and> IsInstruction (es ! p) \<and> (\<forall>q. p < q \<and> q < pos \<longrightarrow> \<not> IsInstruction (es ! q))"
  by (induction es pos rule: PrevInstruction.induct) (auto simp: less_Suc_eq split: if_splits)

lemma PrevInstruction_None: "PrevInstruction es pos = None \<Longrightarrow> q < pos \<Longrightarrow> \<not> IsInstruction (es ! q)"
  by (induction es pos rule: PrevInstruction.induct) (auto simp: less_Suc_eq split: if_splits)

text \<open>The loops of \<open>ExecuteSimWhole\<close> over pointers, for comparison with the ones over numbers.\<close>

function walk_backward :: "mao_function \<Rightarrow> mao_entry list \<Rightarrow> int \<Rightarrow> nat \<Rightarrow> nat option \<Rightarrow> sim_state \<Rightarrow> sim_state result" where
  "walk_backward f es index n prev st =
     (case prev of
        None \<Rightarrow> Inr st
      | Some pos \<Rightarrow>
          (let k = AsInstruction (es ! pos)
           in if bb_of f k \<noteq> bb_of f n then Inr st
              else rbind (ComputeNewSampleWhole (insns f ! k) index (offsets f n - offsets f k) 0 st) (\<lambda>(can_execute, st').
                     if \<not> can_execute \<or> is_first f n k then Inr st'
                     else walk_backward f es index n (PrevInstruction es pos) st')))"
  by pat_completeness auto
termination
  by (relation "measure (\<lambda>(_, _, _, _, prev, _). case prev of None \<Rightarrow> 0 | Some pos \<Rightarrow> Suc pos)")
    (auto dest: PrevInstruction_Some split: option.splits)

function walk_forward :: "mao_function \<Rightarrow> mao_entry list \<Rightarrow> int \<Rightarrow> nat \<Rightarrow> nat option \<Rightarrow> sim_state \<Rightarrow> sim_state result" where
  "walk_forward f es index n next_entry st =
     (case next_entry of
        None \<Rightarrow> Inr st
      | Some pos \<Rightarrow>
          (let k = AsInstruction (es ! pos)
           in if bb_of f k \<noteq> bb_of f n then Inr st
              else rbind (ComputeNewSampleWhole (insns f ! k) index (offsets f k - offsets f n) 1 st) (\<lambda>(can_execute, st').
                     if \<not> can_execute \<or> is_last f n k then Inr st'
                     else walk_forward f es index n (NextInstruction es pos) st')))"
  by pat_completeness auto
termination
  by (relation "measure (\<lambda>(_, es, _, _, next_entry, _). case next_entry of None \<Rightarrow> 0 | Some pos \<Rightarrow> Suc (length es - pos))")
    (auto dest: NextInstruction_Some split: option.splits)

declare walk_backward.simps [simp del] walk_forward.simps [simp del]

section \<open>Counting instructions\<close>

text \<open>
  The instructions of the list carry the numbers from 0 on, in order. An instruction of another
  function in the list counts too, as one without a block.
\<close>

definition numbered :: "mao_entry list \<Rightarrow> nat \<Rightarrow> bool" where
  "numbered es len \<longleftrightarrow> map AsInstruction (filter IsInstruction es) = [0..<len]"

text \<open>So the number of an instruction is the number of instructions before it.\<close>

lemma numbered_before:
  assumes "numbered es len" and "pos < length es" and "IsInstruction (es ! pos)"
  shows "AsInstruction (es ! pos) = length (filter IsInstruction (take pos es))" and "AsInstruction (es ! pos) < len"
proof -
  let ?k = "length (filter IsInstruction (take pos es))"
  have "filter IsInstruction es = filter IsInstruction (take pos es) @ es ! pos # filter IsInstruction (drop (Suc pos) es)"
    using assms(2,3) id_take_nth_drop [of pos es] by (metis filter.simps(2) filter_append)
  then have "map AsInstruction (filter IsInstruction es) ! ?k = AsInstruction (es ! pos)" "?k < length (filter IsInstruction es)"
    by (simp_all add: nth_append)
  moreover have "length (filter IsInstruction es) = len" using assms(1) unfolding numbered_def by (metis length_map length_upt minus_nat.diff_0)
  ultimately have "[0..<len] ! ?k = AsInstruction (es ! pos)" "?k < len" using assms(1) by (simp_all only: numbered_def)
  then show "AsInstruction (es ! pos) = ?k" "AsInstruction (es ! pos) < len" by simp_all
qed

lemma filter_between:
  assumes "p \<le> q" and "q \<le> length es" and "\<And>x. p \<le> x \<Longrightarrow> x < q \<Longrightarrow> \<not> IsInstruction (es ! x)"
  shows "filter IsInstruction (take q es) = filter IsInstruction (take p es)"
  using assms
proof (induction q)
  case (Suc q)
  show ?case
  proof (cases "p = Suc q")
    case False
    with Suc show ?thesis by (simp add: take_Suc_conv_app_nth)
  qed simp
qed simp

lemma next_number:
  assumes "numbered es len" and "pos < length es" and "es ! pos = Insn_entry n"
  shows "case NextInstruction es pos of
      None \<Rightarrow> len \<le> Suc n
    | Some p \<Rightarrow> p < length es \<and> es ! p = Insn_entry (Suc n) \<and> Suc n < len"
proof -
  have i: "IsInstruction (es ! pos)" "AsInstruction (es ! pos) = n" using assms(3) by (simp_all add: IsInstruction_def AsInstruction_def)
  have n: "n = length (filter IsInstruction (take pos es))" using numbered_before(1) [OF assms(1,2) i(1)] i(2) by simp
  have upto: "length (filter IsInstruction (take (Suc pos) es)) = Suc n"
    using assms(2) i(1) n by (simp add: take_Suc_conv_app_nth)
  show ?thesis
  proof (cases "NextInstruction es pos")
    case None
    then have "filter IsInstruction (take (length es) es) = filter IsInstruction (take (Suc pos) es)"
      using assms(2) NextInstruction_None by (intro filter_between) auto
    then have "length (filter IsInstruction es) = Suc n" using upto by simp
    then have "len = Suc n" using assms(1) unfolding numbered_def by (metis length_map length_upt minus_nat.diff_0)
    with None show ?thesis by simp
  next
    case (Some p)
    then have p: "pos < p" "p < length es" "IsInstruction (es ! p)" "\<And>q. pos < q \<Longrightarrow> q < p \<Longrightarrow> \<not> IsInstruction (es ! q)"
      using NextInstruction_Some by blast+
    then have "length (filter IsInstruction (take p es)) = Suc n" using upto filter_between [of "Suc pos" p es] by simp
    with numbered_before [OF assms(1) p(2,3)] p(2,3) Some show ?thesis
      by (cases "es ! p") (simp_all add: IsInstruction_def AsInstruction_def)
  qed
qed

lemma prev_number:
  assumes "numbered es len" and "pos < length es" and "es ! pos = Insn_entry n"
  shows "case PrevInstruction es pos of
      None \<Rightarrow> n = 0
    | Some p \<Rightarrow> p < length es \<and> n = Suc (AsInstruction (es ! p)) \<and> es ! p = Insn_entry (AsInstruction (es ! p))"
proof -
  have i: "IsInstruction (es ! pos)" "AsInstruction (es ! pos) = n" using assms(3) by (simp_all add: IsInstruction_def AsInstruction_def)
  have n: "n = length (filter IsInstruction (take pos es))" using numbered_before(1) [OF assms(1,2) i(1)] i(2) by simp
  show ?thesis
  proof (cases "PrevInstruction es pos")
    case None
    then have "filter IsInstruction (take pos es) = filter IsInstruction (take 0 es)"
      using assms(2) PrevInstruction_None by (intro filter_between) auto
    with None n show ?thesis by simp
  next
    case (Some p)
    then have p: "p < pos" "IsInstruction (es ! p)" "\<And>q. p < q \<Longrightarrow> q < pos \<Longrightarrow> \<not> IsInstruction (es ! q)"
      using PrevInstruction_Some by blast+
    then have "length (filter IsInstruction (take pos es)) = length (filter IsInstruction (take (Suc p) es))"
      using assms(2) filter_between [of "Suc p" pos es] by simp
    also have "\<dots> = Suc (AsInstruction (es ! p))"
      using p assms(2) numbered_before(1) [OF assms(1), of p] by (simp add: take_Suc_conv_app_nth)
    finally show ?thesis using n p assms(2) Some by (cases "es ! p") (simp_all add: IsInstruction_def AsInstruction_def)
  qed
qed

section \<open>The loops\<close>

lemma walk_backward_counts:
  "numbered es (length (insns f)) \<Longrightarrow> pos < length es \<Longrightarrow> es ! pos = Insn_entry k \<Longrightarrow>
   walk_backward f es index n (PrevInstruction es pos) st = backward_loop f index n k st"
proof (induction k arbitrary: pos st)
  case 0
  with prev_number [OF 0(1,2,3)] show ?case by (simp add: walk_backward.simps split: option.splits)
next
  case (Suc k)
  obtain p where p: "PrevInstruction es pos = Some p" "p < length es" "es ! p = Insn_entry k"
    using prev_number [OF Suc.prems] by (auto split: option.splits)
  then have "AsInstruction (es ! p) = k" by (simp add: AsInstruction_def)
  with p Suc.IH [OF Suc.prems(1) p(2,3)] show ?case
    by (subst walk_backward.simps) (simp add: Let_def cong: if_cong)
qed

lemma walk_forward_counts:
  "numbered es (length (insns f)) \<Longrightarrow> pos < length es \<Longrightarrow> es ! pos = Insn_entry k \<Longrightarrow>
   walk_forward f es index n (NextInstruction es pos) st = forward_loop f index n (Suc k) st"
proof (induction "length (insns f) - k" arbitrary: k pos st)
  case (0 k)
  then have "NextInstruction es pos = None" using next_number [OF 0(2,3,4)] by (auto split: option.splits)
  with 0 show ?case by (simp add: walk_forward.simps forward_loop.simps)
next
  case (Suc m)
  show ?case
  proof (cases "NextInstruction es pos")
    case None
    with next_number [OF Suc.prems] show ?thesis by (simp add: walk_forward.simps forward_loop.simps)
  next
    case (Some p)
    then have p: "p < length es" "es ! p = Insn_entry (Suc k)" "Suc k < length (insns f)"
      using next_number [OF Suc.prems] by auto
    then have "AsInstruction (es ! p) = Suc k" by (simp add: AsInstruction_def)
    moreover have "m = length (insns f) - Suc k" using Suc.hyps(2) by simp
    ultimately show ?thesis
      using Some p Suc.hyps(1) [OF _ Suc.prems(1) p(1,2)]
      by (subst walk_forward.simps, subst forward_loop.simps) (simp add: Let_def cong: if_cong)
  qed
qed

section \<open>Basic blocks\<close>

text \<open>The builder of the control-flow graph enters every instruction with its block; entering one twice fails.\<close>

definition MapInsnBasicBlock :: "nat \<Rightarrow> nat \<Rightarrow> (nat \<rightharpoonup> nat) \<Rightarrow> (nat \<rightharpoonup> nat) result" where
  "MapInsnBasicBlock insn_entry bb m = (if m insn_entry = None then Inr (m(insn_entry \<mapsto> bb)) else Inl Assertion_failed)"

definition FindBasicBlock :: "(nat \<rightharpoonup> nat) \<Rightarrow> nat \<Rightarrow> nat option" where
  "FindBasicBlock m insn_entry = m insn_entry"

definition map_entry :: "mao_entry \<times> nat \<Rightarrow> (nat \<rightharpoonup> nat) \<Rightarrow> (nat \<rightharpoonup> nat) result" where
  "map_entry = (\<lambda>(entry, current) m. if IsInstruction entry then MapInsnBasicBlock (AsInstruction entry) current m else Inr m)"

definition mapped_pairs :: "(mao_entry \<times> nat) list \<Rightarrow> (nat \<times> nat) list" where
  "mapped_pairs ces = map (\<lambda>(e, bb). (AsInstruction e, bb)) (filter (\<lambda>x. IsInstruction (fst x)) ces)"

lemma map_entries_pairs: "rfold map_entry ces m = rfold (\<lambda>(i, bb). MapInsnBasicBlock i bb) (mapped_pairs ces) m"
proof (induction ces arbitrary: m)
  case (Cons x ces)
  have "rfold map_entry ces = rfold (\<lambda>(i, bb). MapInsnBasicBlock i bb) (mapped_pairs ces)" using Cons by (rule ext)
  then show ?case by (cases x) (simp add: mapped_pairs_def map_entry_def)
qed (simp add: mapped_pairs_def)

lemma map_pairs:
  "rfold (\<lambda>(i, bb). MapInsnBasicBlock i bb) ps m =
     (if distinct (map fst ps) \<and> fst ` set ps \<inter> dom m = {} then Inr (m ++ map_of ps) else Inl Assertion_failed)"
proof (induction ps arbitrary: m)
  case (Cons p ps)
  obtain i bb where p: "p = (i, bb)" by (cases p)
  show ?case
  proof (cases "m i")
    case None
    have "m(i \<mapsto> bb) ++ map_of ps = m ++ map_of (p # ps)" if "i \<notin> fst ` set ps"
      using map_of_eq_None_iff [of ps i] that by (auto simp: p fun_eq_iff map_add_def split: option.splits)
    moreover have "fst ` set ps \<inter> dom (m(i \<mapsto> bb)) = {} \<longleftrightarrow> i \<notin> fst ` set ps \<and> fst ` set ps \<inter> dom m = {}" by auto
    moreover have "rfold (\<lambda>(i, bb). MapInsnBasicBlock i bb) (p # ps) m = rfold (\<lambda>(i, bb). MapInsnBasicBlock i bb) ps (m(i \<mapsto> bb))"
      using None by (simp add: p MapInsnBasicBlock_def)
    moreover have "fst ` set (p # ps) \<inter> dom m = {} \<longleftrightarrow> fst ` set ps \<inter> dom m = {}" using None by (auto simp: p)
    ultimately show ?thesis by (auto simp only: Cons.IH p list.map distinct.simps fst_conv set_map split: if_splits)
  qed (simp add: p MapInsnBasicBlock_def domIff)
qed simp

lemma distinct_mapped_pairs: "distinct (map fst (mapped_pairs ces)) \<longleftrightarrow> distinct (filter IsInstruction (map fst ces))"
proof -
  have "inj_on AsInstruction {e. IsInstruction e}"
    by (auto simp: inj_on_def IsInstruction_def AsInstruction_def split: mao_entry.splits)
  then have "inj_on AsInstruction (set (filter IsInstruction (map fst ces)))" by (rule inj_on_subset) auto
  moreover have "map fst (mapped_pairs ces) = map AsInstruction (filter IsInstruction (map fst ces))"
    by (simp add: mapped_pairs_def filter_map comp_def case_prod_beta)
  ultimately show ?thesis by (simp add: distinct_map)
qed

lemma in_mapped_pairs: "(n, bb) \<in> set (mapped_pairs ces) \<longleftrightarrow> (Insn_entry n, bb) \<in> set ces"
  by (force simp: mapped_pairs_def IsInstruction_def AsInstruction_def split: mao_entry.splits)

text \<open>C40: The map from instructions to basic blocks that the builder of the control-flow graph fills: over
  the entries of a function, each with the block that is current there, the builder succeeds exactly
  when no instruction comes twice, and otherwise stops at the assertion for an instruction that is
  already there. After it has succeeded, looking up an instruction gives the block it was entered
  with, and no block for what is no instruction of the function.\<close>

theorem blocks_of_instructions:
  "case rfold map_entry ces Map.empty of
     Inl e \<Rightarrow> e = Assertion_failed \<and> \<not> distinct (filter IsInstruction (map fst ces))
   | Inr m \<Rightarrow> distinct (filter IsInstruction (map fst ces)) \<and>
       (\<forall>n bb. FindBasicBlock m n = Some bb \<longleftrightarrow> (Insn_entry n, bb) \<in> set ces)"
  by (simp add: map_entries_pairs map_pairs distinct_mapped_pairs FindBasicBlock_def in_mapped_pairs
      flip: distinct_mapped_pairs)

section \<open>Justification of the counting\<close>

text \<open>Going from a sampled instruction to its neighbours over the linked list of entries, past labels and
  directives and to the end of the unit, visits the same instructions in the same order, stops at the
  same place and leaves the same records as counting the instructions.\<close>

lemma walks_are_counted:
  assumes "numbered es (length (insns f))" and "pos < length es" and "es ! pos = Insn_entry n"
  shows "walk_backward f es index n (PrevInstruction es pos) st = backward_loop f index n n st"
    and "walk_forward f es index n (NextInstruction es pos) st = forward_loop f index n (Suc n) st"
  using walk_backward_counts [OF assms] walk_forward_counts [OF assms] by blast+

end
