(* ===== verification/Mao_Expression.thy ===== *)
theory Mao_Expression
  imports Mao_Properties "HOL-Library.Product_Lexorder"
begin

text \<open>
  The older simulation of the pass (\<open>ExecuteSim\<close> and what it calls in mao-patch/patch), which nothing
  calls any more. It starts from the address of a sampled access, keeps a file of register values,
  in which \<open>~0\<close> is an unknown value, and a map from operands to values.

  The numbers of the registers are Mao's. The constructor of an operand initialises its index
  register with itself; what it finds in the new block is a parameter, by the number of the
  allocation.
\<close>

section \<open>Operands\<close>

record ExpressionEntry =
  base_register :: int
  index_register :: int
  expr_offset :: long
  expr_scale :: long
  is_memory :: bool
  is_valid :: bool

definition eqstr :: "ExpressionEntry \<Rightarrow> ExpressionEntry \<Rightarrow> bool" where
  "eqstr s1 s2 \<longleftrightarrow>
     (if base_register s1 < base_register s2 then True
      else if base_register s1 = base_register s2 \<and> index_register s1 < index_register s2 then True
      else if base_register s1 = base_register s2 \<and> index_register s1 = index_register s2 \<and>
              expr_offset s1 <s expr_offset s2 then True
      else if base_register s1 = base_register s2 \<and> index_register s1 = index_register s2 \<and>
              expr_offset s1 = expr_offset s2 \<and> expr_scale s1 <s expr_scale s2 then True
      else if base_register s1 = base_register s2 \<and> index_register s1 = index_register s2 \<and>
              expr_offset s1 = expr_offset s2 \<and> expr_scale s1 = expr_scale s2 \<and> is_memory s1 < is_memory s2 then True
      else False)"

text \<open>The order is the lexicographic one of the members it looks at.\<close>

definition expr_key :: "ExpressionEntry \<Rightarrow> int \<times> int \<times> int \<times> int \<times> bool" where
  "expr_key e = (base_register e, index_register e, sint (expr_offset e), sint (expr_scale e), is_memory e)"

lemma eqstr_key: "eqstr a b \<longleftrightarrow> expr_key a < expr_key b"
proof -
  have "sint x = sint y \<longleftrightarrow> x = y" for x y :: long by (auto intro: signed_word_eqI)
  then show ?thesis by (auto simp: eqstr_def expr_key_def word_sless_alt)
qed

interpretation expr_order: strict_weak_order eqstr
  by unfold_locales (simp_all add: eqstr_key)

lemma equivalent_expr: "equivalent eqstr a b \<longleftrightarrow> expr_key a = expr_key b"
  by (auto simp: equivalent_def eqstr_key)

type_synonym ExpressionEntryMap = "(ExpressionEntry \<times> long) list"

definition entry_less :: "ExpressionEntry \<times> long \<Rightarrow> ExpressionEntry \<times> long \<Rightarrow> bool" where
  "entry_less a b = eqstr (fst a) (fst b)"

definition expr_find :: "ExpressionEntry \<Rightarrow> ExpressionEntryMap \<Rightarrow> (ExpressionEntry \<times> long) option" where
  "expr_find e m = List.find (\<lambda>(k, _). equivalent eqstr e k) m"

text \<open>\<open>insert\<close>, then storing through the iterator: the present key stays.\<close>

definition expr_store :: "ExpressionEntry \<Rightarrow> long \<Rightarrow> ExpressionEntryMap \<Rightarrow> ExpressionEntryMap" where
  "expr_store e v m =
     map (\<lambda>(k, w). if equivalent eqstr e k then (k, v) else (k, w)) (set_insert entry_less (e, 0) m)"

section \<open>State\<close>

record expr_env =
  reg_num :: "reg_entry \<Rightarrow> int option"
  i386_regtab_size :: nat
  fresh_index :: "nat \<Rightarrow> int"
  tracing :: bool

record expr_state =
  register_file :: "long list"
  expr_map :: ExpressionEntryMap
  allocated :: nat
  printed :: "(insn \<times> long) list"

definition num_of :: "expr_env \<Rightarrow> reg_entry \<Rightarrow> int result" where
  "num_of env reg = (case reg_num env reg of None \<Rightarrow> Inl Bad_iterator | Some n \<Rightarrow> Inr n)"

definition GetBaseRegisterNum :: "expr_env \<Rightarrow> insn \<Rightarrow> int result" where
  "GetBaseRegisterNum env i = (case GetBaseRegister i of Some reg \<Rightarrow> num_of env reg | None \<Rightarrow> Inr (- 1))"

definition GetIndexRegisterNum :: "expr_env \<Rightarrow> insn \<Rightarrow> int result" where
  "GetIndexRegisterNum env i = (case GetIndexRegister i of Some reg \<Rightarrow> num_of env reg | None \<Rightarrow> Inr (- 1))"

definition GetRegisterOperandNum :: "expr_env \<Rightarrow> insn \<Rightarrow> nat \<Rightarrow> int result" where
  "GetRegisterOperandNum env i op_index =
     (case GetRegisterOperand i op_index of Some reg \<Rightarrow> num_of env reg | None \<Rightarrow> Inl Assertion_failed)"

definition new_entry :: "expr_env \<Rightarrow> int \<Rightarrow> int \<Rightarrow> long \<Rightarrow> long \<Rightarrow> bool \<Rightarrow> expr_state \<Rightarrow> ExpressionEntry \<times> expr_state" where
  "new_entry env base idx off sc mem st =
     (\<lparr>base_register = base, index_register = fresh_index env (allocated st), expr_offset = off, expr_scale = sc,
       is_memory = mem, is_valid = True\<rparr>, st\<lparr>allocated := Suc (allocated st)\<rparr>)"

definition PrintNewSample :: "expr_env \<Rightarrow> insn \<Rightarrow> long \<Rightarrow> expr_state \<Rightarrow> expr_state" where
  "PrintNewSample env i address st = (if tracing env then st\<lparr>printed := printed st @ [(i, address)]\<rparr> else st)"

section \<open>Operations\<close>

text \<open>An operand that is not in the map is inserted and erased again.\<close>

definition ComputeAddress :: "expr_env \<Rightarrow> insn \<Rightarrow> nat \<Rightarrow> expr_state \<Rightarrow> (bool \<times> long \<times> expr_state) result" where
  "ComputeAddress env i op_index st =
     (let offset = GetSimpleDisp i op_index in
      rbind (GetBaseRegisterNum env i) (\<lambda>base_num.
      rbind (GetIndexRegisterNum env i) (\<lambda>index_num.
      rbind (GetScaleValue i) (\<lambda>scale.
        let (e, st1) = new_entry env base_num index_num offset scale True st
        in case expr_find e (expr_map st1) of
             Some (k, v) \<Rightarrow> Inr (\<not> is_memory k, v, st1)
           | None \<Rightarrow>
               if offset \<noteq> - 1 then
                 rbind (array_read (register_file st1) base_num) (\<lambda>base_value.
                 rbind (if index_num \<noteq> - 1 then array_read (register_file st1) index_num else Inr 0) (\<lambda>index_value.
                   if base_value \<noteq> - 1 \<and> index_value \<noteq> - 1 \<and> scale \<noteq> - 1
                   then Inr (True, offset + base_value + index_value * scale, st1)
                   else Inr (False, - 1, st1)))
               else Inr (False, - 1, st1)))))"

definition set_register :: "int \<Rightarrow> long \<Rightarrow> expr_state \<Rightarrow> expr_state result" where
  "set_register num value st = rbind (array_write (register_file st) num value) (\<lambda>rf. Inr (st\<lparr>register_file := rf\<rparr>))"

definition UpdateState :: "expr_env \<Rightarrow> insn \<Rightarrow> nat \<Rightarrow> long \<Rightarrow> bool \<Rightarrow> expr_state \<Rightarrow> expr_state result" where
  "UpdateState env i op_index value mem st =
     (let offset = GetSimpleDisp i op_index in
      rbind (GetBaseRegisterNum env i) (\<lambda>base_num.
      rbind (GetIndexRegisterNum env i) (\<lambda>index_num.
      rbind (GetScaleValue i) (\<lambda>scale.
        let (e, st1) = new_entry env base_num index_num offset scale mem st;
            st2 = st1\<lparr>expr_map := expr_store e value (expr_map st1)\<rparr>
        in if index_num = - 1 \<and> offset \<noteq> - 1 \<and> \<not> mem then set_register base_num (value - offset) st2 else Inr st2))))"

text \<open>Instructions other than \<open>mov\<close>, \<open>add\<close>, \<open>sub\<close> and \<open>lea\<close>; the number of operands is a natural number.\<close>

definition other_instruction :: "expr_env \<Rightarrow> insn \<Rightarrow> expr_state \<Rightarrow> (bool \<times> expr_state) result" where
  "other_instruction env i st =
     (if NumOperands i = 0 then Inr (True, st)
      else if NumOperands i = 1 then
        (if insn_op i = OP_push then Inr (True, st)
         else if insn_op i = OP_pop then
           rbind (GetRegisterOperandNum env i 0) (\<lambda>reg_num. rbind (set_register reg_num (- 1) st) (\<lambda>st'. Inr (True, st')))
         else Inr (False, st))
      else if NumOperands i = 2 then
        (if IsPredicated i \<or> insn_op i = OP_xor then
           rbind (GetRegisterOperandNum env i 1) (\<lambda>reg_num. rbind (set_register reg_num (- 1) st) (\<lambda>st'. Inr (True, st')))
         else if insn_op i = OP_cmp \<or> insn_op i = OP_test then Inr (True, st)
         else Inr (False, st))
      else Inr (False, st))"

definition new_address :: "expr_env \<Rightarrow> insn \<Rightarrow> nat \<Rightarrow> long \<times> expr_state \<Rightarrow> (long \<times> expr_state) result" where
  "new_address env i op_index = (\<lambda>(_, st).
     rbind (ComputeAddress env i op_index st) (\<lambda>(known, address, st').
       Inr (address, if known then PrintNewSample env i address st' else st')))"

definition remember :: "expr_env \<Rightarrow> insn \<Rightarrow> nat \<Rightarrow> nat \<Rightarrow> expr_state \<Rightarrow> (bool \<times> expr_state) result" where
  "remember env i op_index reg_index st =
     rbind (GetRegisterOperandNum env i reg_index) (\<lambda>num.
     rbind (array_read (register_file st) num) (\<lambda>value.
     rbind (if value \<noteq> - 1 then UpdateState env i op_index value True st else Inr st) (\<lambda>st'. Inr (True, st'))))"

definition ComputeNewSample :: "expr_env \<Rightarrow> insn \<Rightarrow> bool \<Rightarrow> expr_state \<Rightarrow> (bool \<times> expr_state) result" where
  "ComputeNewSample env i direction st =
     (if \<not> (IsOpMov i \<or> IsAdd i \<or> IsSub i \<or> IsLea i) then other_instruction env i st
      else
        rbind (if IsOpMov i \<or> IsAdd i \<or> IsSub i then
                 (if NumOperands i \<noteq> 2 then Inl Assertion_failed
                  else rbind (if IsMemOperand i 0 \<and> direction then new_address env i 0 (- 1, st) else Inr (- 1, st))
                         (\<lambda>r. if IsMemOperand i 1 then new_address env i 1 r else Inr r))
               else Inr (- 1, st)) (\<lambda>(address, st1).
          if \<not> direction then
            (if IsMemOperand i 0 then remember env i 0 1 st1
             else if IsMemOperand i 1 then remember env i 1 0 st1
             else Inr (False, st1))
          else
            (if IsMemOperand i 1 then remember env i 0 0 st1
             else if IsMemOperand i 0 then
               rbind (GetRegisterOperandNum env i 1) (\<lambda>num. rbind (set_register num address st1) (\<lambda>st2. Inr (True, st2)))
             else Inr (False, st1))))"

text \<open>The two loops do not look at the basic block, only at its first and last entry.\<close>

fun sim_backward :: "expr_env \<Rightarrow> mao_function \<Rightarrow> nat \<Rightarrow> nat \<Rightarrow> expr_state \<Rightarrow> expr_state result" where
  "sim_backward env f n 0 st = Inr st"
| "sim_backward env f n (Suc k) st =
     rbind (ComputeNewSample env (insns f ! k) False st) (\<lambda>(can_execute, st').
       if \<not> can_execute \<or> is_first f n k then Inr st' else sim_backward env f n k st')"

function sim_forward :: "expr_env \<Rightarrow> mao_function \<Rightarrow> nat \<Rightarrow> nat \<Rightarrow> expr_state \<Rightarrow> expr_state result" where
  "sim_forward env f n k st =
     (if \<not> k < length (insns f) then Inr st
      else rbind (ComputeNewSample env (insns f ! k) True st) (\<lambda>(can_execute, st').
             if \<not> can_execute \<or> is_last f n k then Inr st' else sim_forward env f n (Suc k) st'))"
  by pat_completeness auto
termination
  by (relation "measure (\<lambda>(_, f, _, k, _). length (insns f) - k)") auto

declare sim_forward.simps [simp del]

definition ExecuteSim :: "expr_env \<Rightarrow> mao_function \<Rightarrow> nat \<Rightarrow> long \<Rightarrow> expr_state \<Rightarrow> expr_state result" where
  "ExecuteSim env f n value st =
     (let st0 = st\<lparr>register_file := replicate (i386_regtab_size env) (- 1), expr_map := []\<rparr>; i = insns f ! n
      in if bb_of f n = None then Inl Assertion_failed
         else if \<not> (IsOpMov i \<or> IsAdd i \<or> IsSub i \<or> NumOperands i \<noteq> 2) then Inr st0
         else if \<not> IsMemOperand i 1 \<and> \<not> IsMemOperand i 0 then Inr st0
         else rbind (if IsMemOperand i 0 then UpdateState env i 0 value False st0 else Inr st0) (\<lambda>st1.
              rbind (if IsMemOperand i 1 then UpdateState env i 1 value False st1 else Inr st1) (\<lambda>st2.
              rbind (if is_first f n n then Inr st2 else sim_backward env f n n st2) (\<lambda>st3.
                if is_last f n n then Inr st3 else sim_forward env f n (Suc n) st3))))"

section \<open>What it keeps\<close>

text \<open>The file has a value for every register, and the map is ordered.\<close>

definition expr_ok :: "expr_env \<Rightarrow> expr_state \<Rightarrow> bool" where
  "expr_ok env st \<longleftrightarrow> length (register_file st) = i386_regtab_size env \<and> sorted_wrt entry_less (expr_map st)"

interpretation entry_order: strict_weak_order entry_less
  by unfold_locales (simp_all add: entry_less_def eqstr_key)

lemma expr_store_sorted: "sorted_wrt entry_less m \<Longrightarrow> sorted_wrt entry_less (expr_store e v m)"
proof -
  assume "sorted_wrt entry_less m"
  then have "sorted_wrt entry_less (set_insert entry_less (e, 0) m)" by (rule entry_order.sorted_set_insert)
  then show ?thesis unfolding expr_store_def sorted_wrt_map
    by (rule sorted_wrt_mono_rel [rotated]) (auto simp: entry_less_def)
qed

lemma new_entry_ok: "new_entry env b x off sc mem st = (e, st1) \<Longrightarrow> expr_ok env st \<Longrightarrow> expr_ok env st1"
  by (auto simp: new_entry_def expr_ok_def)

lemma set_register_ok: "set_register num v st = Inr st' \<Longrightarrow> expr_ok env st \<Longrightarrow> expr_ok env st'"
  by (auto simp: set_register_def array_write_def expr_ok_def split: if_splits)

lemma UpdateState_ok: "UpdateState env i k v mem st = Inr st' \<Longrightarrow> expr_ok env st \<Longrightarrow> expr_ok env st'"
  by (auto simp: UpdateState_def new_entry_def Let_def expr_ok_def expr_store_sorted set_register_def array_write_def split: if_splits)

text \<open>An address: the value of an operand in the map, or one computed from registers.\<close>

lemma ComputeAddress_cases:
  assumes "ComputeAddress env i k st = Inr (known, a, st')"
  obtains num idx sc e where "GetBaseRegisterNum env i = Inr num" "GetScaleValue i = Inr sc"
    "new_entry env num idx (GetSimpleDisp i k) sc True st = (e, st')"
    "(\<exists>key. expr_find e (expr_map st') = Some (key, a) \<and> known = (\<not> is_memory key)) \<or>
     (known \<longrightarrow> GetSimpleDisp i k \<noteq> - 1 \<and> (\<exists>b x. array_read (register_file st') num = Inr b \<and> b \<noteq> - 1 \<and> x \<noteq> - 1 \<and>
        a = GetSimpleDisp i k + b + x * sc))"
proof -
  obtain num idx sc where n: "GetBaseRegisterNum env i = Inr num" "GetIndexRegisterNum env i = Inr idx" "GetScaleValue i = Inr sc"
    using assms by (auto simp: ComputeAddress_def Let_def)
  obtain e st1 where e: "new_entry env num idx (GetSimpleDisp i k) sc True st = (e, st1)" by fastforce
  note run = assms [unfolded ComputeAddress_def n rbind.simps Let_def e prod.case]
  show thesis
  proof (cases "expr_find e (expr_map st1)")
    case (Some p)
    with run have "st' = st1" "\<exists>key. p = (key, a) \<and> known = (\<not> is_memory key)" by (cases p; auto)+
    with Some that n(1,3) e show thesis by blast
  next
    case None
    with run have "st' = st1" by (auto split: if_splits)
    moreover have "GetSimpleDisp i k \<noteq> - 1 \<and> (\<exists>b x. array_read (register_file st1) num = Inr b \<and> b \<noteq> - 1 \<and> x \<noteq> - 1 \<and>
        a = GetSimpleDisp i k + b + x * sc)" if k: known
    proof -
      have disp: "GetSimpleDisp i k \<noteq> - 1" using run None k by (auto split: if_splits)
      then obtain b x where "array_read (register_file st1) num = Inr b"
          "(if b \<noteq> - 1 \<and> x \<noteq> - 1 \<and> sc \<noteq> - 1 then Inr (True, GetSimpleDisp i k + b + x * sc, st1) else Inr (False, - 1, st1)) =
           (Inr (known, a, st') :: (bool \<times> long \<times> expr_state) result)"
        using run [unfolded None option.case if_P [OF disp] rbind_Inr_iff] by blast
      with disp k show ?thesis by (metis Inr_inject Pair_inject)
    qed
    ultimately show thesis using that n(1,3) e by blast
  qed
qed

lemma ComputeAddress_ok: "ComputeAddress env i k st = Inr (known, a, st') \<Longrightarrow> expr_ok env st \<Longrightarrow> expr_ok env st'"
  by (erule ComputeAddress_cases) (rule new_entry_ok)

lemma new_address_ok: "new_address env i k r = Inr (a, st') \<Longrightarrow> expr_ok env (snd r) \<Longrightarrow> expr_ok env st'"
  by (cases r) (auto simp: new_address_def PrintNewSample_def expr_ok_def dest!: ComputeAddress_ok [of env] split: if_splits)

lemma remember_ok: "remember env i k r st = Inr (go, st') \<Longrightarrow> expr_ok env st \<Longrightarrow> expr_ok env st'"
  by (auto simp: remember_def split: if_splits dest: UpdateState_ok)

lemma other_instruction_ok: "other_instruction env i st = Inr (go, st') \<Longrightarrow> expr_ok env st \<Longrightarrow> expr_ok env st'"
  by (auto simp: other_instruction_def split: if_splits dest: set_register_ok)

lemma ComputeNewSample_ok: "ComputeNewSample env i direction st = Inr (go, st') \<Longrightarrow> expr_ok env st \<Longrightarrow> expr_ok env st'"
  by (auto simp: ComputeNewSample_def split: if_splits prod.splits
      dest!: new_address_ok [of env] remember_ok [of env] other_instruction_ok [of env] set_register_ok [where env = env])

lemma sim_backward_ok: "sim_backward env f n k st = Inr st' \<Longrightarrow> expr_ok env st \<Longrightarrow> expr_ok env st'"
  by (induction k arbitrary: st) (auto split: if_splits dest: ComputeNewSample_ok)

lemma sim_forward_ok: "sim_forward env f n k st = Inr st' \<Longrightarrow> expr_ok env st \<Longrightarrow> expr_ok env st'"
proof (induction "length (insns f) - k" arbitrary: k st)
  case 0
  then show ?case by (simp add: sim_forward.simps)
next
  case (Suc m)
  then have "k < length (insns f)" "m = length (insns f) - Suc k" by simp_all
  with Suc.prems Suc.hyps(1) [of "Suc k"] show ?case
    by (subst (asm) sim_forward.simps) (auto split: if_splits dest: ComputeNewSample_ok)
qed

lemma ExecuteSim_ok:
  assumes "ExecuteSim env f n v st = Inr st'"
  shows "expr_ok env st'"
proof -
  have "expr_ok env (st\<lparr>register_file := replicate (i386_regtab_size env) (- 1), expr_map := []\<rparr>)" by (simp add: expr_ok_def)
  with assms show ?thesis
    by (auto simp: ExecuteSim_def Let_def split: if_splits dest!: UpdateState_ok [of env] dest: sim_backward_ok sim_forward_ok)
qed

section \<open>Addresses\<close>

text \<open>
  The map never gives an address: the operand that is looked up counts as memory, and the order
  tells memory from addresses. So a known address is one computed from known registers.
\<close>

lemma expr_find_key: "expr_find e m = Some (k, v) \<Longrightarrow> expr_key k = expr_key e"
  by (auto simp: expr_find_def find_Some_iff equivalent_expr)

lemma known_address_from_registers:
  assumes "ComputeAddress env i k st = Inr (True, a, st')"
  shows "\<exists>num b x sc. GetBaseRegisterNum env i = Inr num \<and> array_read (register_file st) num = Inr b \<and> GetScaleValue i = Inr sc \<and>
    b \<noteq> - 1 \<and> x \<noteq> - 1 \<and> GetSimpleDisp i k \<noteq> - 1 \<and> a = GetSimpleDisp i k + b + x * sc \<and> register_file st' = register_file st"
proof -
  from assms obtain num idx sc e where n: "GetBaseRegisterNum env i = Inr num" "GetScaleValue i = Inr sc"
      "new_entry env num idx (GetSimpleDisp i k) sc True st = (e, st')"
    and a: "(\<exists>key. expr_find e (expr_map st') = Some (key, a) \<and> \<not> is_memory key) \<or>
      GetSimpleDisp i k \<noteq> - 1 \<and> (\<exists>b x. array_read (register_file st') num = Inr b \<and> b \<noteq> - 1 \<and> x \<noteq> - 1 \<and> a = GetSimpleDisp i k + b + x * sc)"
    by (rule ComputeAddress_cases) auto
  from n(3) have e: "is_memory e" "register_file st' = register_file st" by (auto simp: new_entry_def)
  have "is_memory key" if "expr_find e (expr_map st') = Some (key, a)" for key
    using expr_find_key [OF that] e(1) by (simp add: expr_key_def)
  with a n(1,2) e(2) show ?thesis by auto
qed

text \<open>Without a base register the value in front of the file is read.\<close>

lemma absolute_operand_reads_off:
  assumes "GetBaseRegister i = None" and "GetIndexRegisterNum env i = Inr idx" and "GetScaleValue i = Inr sc"
    and "GetSimpleDisp i k \<noteq> - 1" and "expr_map st = []"
  shows "ComputeAddress env i k st = Inl Out_of_bounds"
  using assms by (simp add: ComputeAddress_def GetBaseRegisterNum_def new_entry_def expr_find_def array_read_def)

text \<open>
  A load on the way forward leaves in its target register the address it has loaded from, not what
  is stored there.
\<close>

lemma load_leaves_address:
  assumes "IsOpMov i" and "NumOperands i = 2" and "IsMemOperand i 0" and "\<not> IsMemOperand i 1"
    and "ComputeAddress env i 0 st = Inr (True, a, st1)" and "GetRegisterOperandNum env i 1 = Inr num"
    and "0 \<le> num" and "num < int (length (register_file st))"
  shows "\<exists>st'. ComputeNewSample env i True st = Inr (True, st') \<and> array_read (register_file st') num = Inr a"
proof -
  have "register_file st1 = register_file st" using known_address_from_registers [OF assms(5)] by blast
  with assms show ?thesis
    by (simp add: ComputeNewSample_def new_address_def PrintNewSample_def set_register_def array_write_def array_read_def)
qed

end
