(* ===== verification/Tool_Read.thy ===== *)
theory Tool_Read
  imports Racez_Record C_Library
begin

text \<open>
  Printing records: the log printer (tools/read.cc) and the debug printers of the detector
  (tools/detect.cc), with the line of registers they share. A record whose counts exceed its
  arrays makes the loops read outside them. What goes to the terminal is the string returned.
\<close>

section \<open>Parts of a printed record\<close>

definition record_head :: "Record \<Rightarrow> string" where
  "record_head r = ''record no: '' @ fmt_d (record_no r) @ '', thread_id = '' @ fmt_d (thread_id r) @ '' ''"

definition hex_list :: "string \<Rightarrow> ptr list \<Rightarrow> string" where
  "hex_list after xs = concat (map (\<lambda>x. fmt_llx x @ after) xs)"

text \<open>The registers; \<open>gap\<close> stands behind \<open>r10\<close>, where the detector's format has a newline.\<close>

definition registers_text :: "string \<Rightarrow> pebs_entry \<Rightarrow> string" where
  "registers_text gap e =
     ''ip:'' @ fmt_llx (pebs_ip e) @ '', eax:'' @ fmt_llx (pebs_eax e) @ '', ebx:'' @ fmt_llx (pebs_ebx e) @
     '', ecx:'' @ fmt_llx (pebs_ecx e) @ '', edx:'' @ fmt_llx (pebs_edx e) @ '', esi:'' @ fmt_llx (pebs_esi e) @
     '', edi:'' @ fmt_llx (pebs_edi e) @ '', ebp:'' @ fmt_llx (pebs_ebp e) @ '',  esp:'' @ fmt_llx (pebs_esp e) @
     '', r8:'' @ fmt_llx (pebs_r8 e) @ '', r9:'' @ fmt_llx (pebs_r9 e) @ '', r10:'' @ fmt_llx (pebs_r10 e) @ gap @
     '', r11:'' @ fmt_llx (pebs_r11 e) @ '', r12:'' @ fmt_llx (pebs_r12 e) @ '', r13:'' @ fmt_llx (pebs_r13 e) @
     '', r14:'' @ fmt_llx (pebs_r14 e) @ '', r15:'' @ fmt_llx (pebs_r15 e) @ '' ''"

definition unsupported_text :: string where
  "unsupported_text = ''we did not support other type yet'' @ [nl]"

section \<open>The log printer\<close>

text \<open>
  \<open>print_record\<close> of tools/read.cc. The size is passed as a 64-bit value for a \<open>%d\<close>, which
  on x86-64 prints its low half, the \<open>int\<close> it was.
\<close>

definition read_print_record :: "Record \<Rightarrow> string result" where
  "read_print_record r =
     (if record_type r = MEMORY_OP then
        rbind (array_prefix (lockset r) (lock_count r)) (\<lambda>ls.
        rbind (array_prefix (stack_trace r) (trace_depth r)) (\<lambda>sites.
          Inr (record_head r @ ''MEMORY_OP '' @ ''ip:'' @ fmt_llx (pip r) @ '' sip:'' @ fmt_llx (sip r) @
               '' m_addr:'' @ fmt_llx (memory_address r) @ '' '' @
               (if is_write r \<noteq> 0 then ''WRITE '' else ''READ '') @
               (if pebs_ip (mem_op r) \<noteq> 0 then registers_text [] (mem_op r) else []) @
               ''{ '' @ hex_list '' '' ls @ ''} '' @ hex_list ''->'' sites @ [nl])))
      else if record_type r = MEMORY_ALLOC then
        Inr (record_head r @ (if is_alloc r \<noteq> 0 then ''MEMORY_ALLOC '' else ''MEMORY_FREE '') @
             ''start_address:'' @ fmt_llx (start_address r) @ '' size:'' @ fmt_d (alloc_size r) @ [nl] @ [nl])
      else Inr unsupported_text)"

text \<open>A stream of records; the end-of-file mark is set by a read that finds nothing left.\<close>

record record_stream =
  unread :: "Record list"
  at_eof :: bool

definition fread_record :: "Record \<Rightarrow> record_stream \<Rightarrow> int \<times> Record \<times> record_stream" where
  "fread_record buf st =
     (case unread st of
        [] \<Rightarrow> (0, buf, st\<lparr>at_eof := True\<rparr>)
      | r # rs \<Rightarrow> (1, r, st\<lparr>unread := rs\<rparr>))"

text \<open>
  The loop of \<open>main\<close>. The result is the text printed and how the program ended, \<open>None\<close> for
  the \<open>return\<close> behind the loop.
\<close>

function read_loop :: "int \<Rightarrow> Record \<Rightarrow> record_stream \<Rightarrow> string \<Rightarrow> string \<times> fault option" where
  "read_loop cnt buf st out =
     (if at_eof st then (out, None)
      else case fread_record buf st of
        (result, r, st') \<Rightarrow>
          let out' = out @ ''count = '' @ fmt_d (cnt + 1) @ [nl]
          in if result \<noteq> 1 then (out' @ ''read error'' @ [nl], Some (Exit_program 0))
             else (case read_print_record r of
                     Inl e \<Rightarrow> (out', Some e)
                   | Inr text \<Rightarrow> read_loop (cnt + 1) r st' (out' @ text)))"
  by pat_completeness auto
termination
  by (relation "measure (\<lambda>(_, _, st, _). length (unread st))") (auto simp: fread_record_def split: list.splits)

declare read_loop.simps [simp del]

text \<open>\<open>sz\<close> is \<open>sizeof(struct Record)\<close>; \<open>opened\<close> is the log, \<open>None\<close> when it cannot be opened.\<close>

definition read_main :: "int \<Rightarrow> int \<Rightarrow> Record list option \<Rightarrow> string \<times> fault option" where
  "read_main argc sz opened =
     (let out = ''argc = '' @ fmt_d argc @ [nl]
      in if argc < 2 then (out @ ''you must specify a input file'' @ [nl], Some (Exit_program 0))
         else case opened of
           None \<Rightarrow> (out @ ''open error'' @ [nl], Some (Exit_program 0))
         | Some rs \<Rightarrow>
             read_loop 0 zero_record \<lparr>unread = rs, at_eof = False\<rparr> (out @ ''size is '' @ fmt_d sz @ [nl]))"

section \<open>The printers of the detector\<close>

definition print_simple_record :: "Record \<Rightarrow> string result" where
  "print_simple_record r =
     (if record_type r = MEMORY_OP then
        rbind (array_prefix (lockset r) (lock_count r)) (\<lambda>ls.
          Inr (record_head r @ ''MEMORY_OP '' @ ''m_addr:'' @ fmt_llx (memory_address r) @ ''{ '' @ hex_list '' '' ls @ ''}'' @ [nl]))
      else Inr unsupported_text)"

definition detect_print_record :: "Record \<Rightarrow> string result" where
  "detect_print_record r =
     (if record_type r = MEMORY_OP then
        rbind (array_prefix (lockset r) (lock_count r)) (\<lambda>ls.
          Inr (record_head r @ ''MEMORY_OP '' @ ''m_addr:'' @ fmt_llx (memory_address r) @ '','' @
               registers_text [nl] (mem_op r) @ ''{ '' @ hex_list '' '' ls @ ''}'' @ [nl]))
      else Inr unsupported_text)"

section \<open>Properties\<close>

definition counts_fit :: "Record \<Rightarrow> bool" where
  "counts_fit r \<longleftrightarrow> layout_ok r \<and> (record_type r = MEMORY_OP \<longrightarrow> lock_count r \<le> 10 \<and> trace_depth r \<le> 10)"

lemma print_record_total: "counts_fit r \<Longrightarrow> \<exists>t. read_print_record r = Inr t"
  by (auto simp: counts_fit_def read_print_record_def layout_ok_def array_prefix_ok)

text \<open>The numbered texts of the records, then the failed read.\<close>

fun numbered :: "int \<Rightarrow> string list \<Rightarrow> string" where
  "numbered k [] = ''count = '' @ fmt_d k @ [nl] @ ''read error'' @ [nl]"
| "numbered k (t # ts) = ''count = '' @ fmt_d k @ [nl] @ t @ numbered (k + 1) ts"

lemma read_loop_run:
  "list_all2 (\<lambda>r t. read_print_record r = Inr t) rs ts \<Longrightarrow>
   read_loop cnt buf \<lparr>unread = rs, at_eof = False\<rparr> out = (out @ numbered (cnt + 1) ts, Some (Exit_program 0))"
proof (induction arbitrary: cnt buf out rule: list_all2_induct)
  case Nil
  show ?case by (subst read_loop.simps) (simp add: fread_record_def Let_def)
next
  case (Cons r rs t ts)
  then show ?case by (subst read_loop.simps) (simp add: fread_record_def Let_def algebra_simps)
qed

text \<open>C36: The printer ends on every log whose memory records have lock counts and stack depths
  that fit their arrays of ten (what the library writes has; the first entry of a log, which nobody
  wrote, has when the fresh memory there was zero or is no memory record): it prints each record
  once, in order, behind its running number, and then leaves through the branch for a failed read,
  with the message \<open>read error\<close> and a number one too high, because the end of the file shows only
  in a read that fails.\<close>

theorem printer_ends_in_read_error:
  assumes "2 \<le> argc" and "list_all counts_fit rs"
  shows "\<exists>ts. list_all2 (\<lambda>r t. read_print_record r = Inr t) rs ts \<and>
    read_main argc sz (Some rs) =
      (''argc = '' @ fmt_d argc @ [nl] @ ''size is '' @ fmt_d sz @ [nl] @ numbered 1 ts, Some (Exit_program 0))"
proof -
  have "\<forall>r\<in>set rs. \<exists>t. read_print_record r = Inr t" using assms(2) print_record_total by (auto simp: list_all_iff)
  then obtain f where "\<forall>r\<in>set rs. read_print_record r = Inr (f r)" by metis
  then have ts: "list_all2 (\<lambda>r t. read_print_record r = Inr t) rs (map f rs)" by (simp add: list_all2_conv_all_nth)
  show ?thesis
    using assms(1) ts read_loop_run [OF ts, of 0] by (intro exI [of _ "map f rs"]) (simp add: read_main_def Let_def)
qed

theorem printer_ends_in_read_error_witness:
  "\<exists>ts. list_all2 (\<lambda>r t. read_print_record r = Inr t) [zero_record, zero_record\<lparr>record_type := MEMORY_OP, lock_count := 2\<rparr>] ts \<and>
     read_main 2 368 (Some [zero_record, zero_record\<lparr>record_type := MEMORY_OP, lock_count := 2\<rparr>]) =
       (''argc = '' @ fmt_d 2 @ [nl] @ ''size is '' @ fmt_d 368 @ [nl] @ numbered 1 ts, Some (Exit_program 0))"
  by (rule printer_ends_in_read_error) (simp_all add: counts_fit_def layout_ok_def zero_record_def)

end
