(* ===== verification/Detect_Program.thy ===== *)
theory Detect_Program
  imports Tool_Detect
begin

text \<open>
  The command line of the detector (main in tools/detect.cc). \<open>getopt\<close> belongs to the C
  library: its successive results, an option letter with its argument, are a list. Files are
  looked up by name; \<open>fopen_r\<close> gives the records of a file that can be read, \<open>fopen_w\<close> tells
  whether a file can be written.
\<close>

section \<open>Options\<close>

text \<open>
  \<open>input_file\<close> and \<open>new_input_file\<close> start as null pointers, \<open>output_file\<close> has no initial
  value; \<open>binary\<close> is a string object and starts empty.
\<close>

record detect_options =
  opt_binary :: string
  opt_input :: "string option"
  opt_new :: "string option"
  opt_output :: "string option"
  opt_reuse :: bool

definition default_options :: detect_options where
  "default_options = \<lparr>opt_binary = [], opt_input = None, opt_new = None, opt_output = None, opt_reuse = False\<rparr>"

text \<open>The loop over the options; \<open>None\<close> when \<open>main\<close> returns from it (help, invalid option).\<close>

fun parse_options :: "(char \<times> string) list \<Rightarrow> detect_options \<Rightarrow> detect_options option" where
  "parse_options [] opt = Some opt"
| "parse_options ((i, optarg) # args) opt =
     (if i = CHR ''h'' then None
      else if i = CHR ''b'' then parse_options args (opt\<lparr>opt_binary := optarg\<rparr>)
      else if i = CHR ''i'' then parse_options args (opt\<lparr>opt_input := Some optarg\<rparr>)
      else if i = CHR ''n'' then parse_options args (opt\<lparr>opt_new := Some optarg\<rparr>)
      else if i = CHR ''o'' then parse_options args (opt\<lparr>opt_output := Some optarg\<rparr>)
      else if i = CHR ''m'' then parse_options args (opt\<lparr>opt_reuse := True\<rparr>)
      else None)"

section \<open>The program\<close>

text \<open>
  \<open>None\<close> is a return before the output file is touched. Opening through a pointer that was never
  set is where the program leaves defined behaviour.
\<close>

definition detect_program ::
  "(string \<Rightarrow> string option) \<Rightarrow> (string \<Rightarrow> Record list option) \<Rightarrow> (string \<Rightarrow> bool) \<Rightarrow> int \<Rightarrow> (char \<times> string) list \<Rightarrow>
   detector option result" where
  "detect_program sh fopen_r fopen_w argc options =
     (case parse_options options default_options of
        None \<Rightarrow> Inr None
      | Some opt \<Rightarrow>
          if argc < 4 then Inr None
          else (case opt_input opt of
            None \<Rightarrow> Inl Null_pointer
          | Some input_file \<Rightarrow>
              (case fopen_r input_file of
                 None \<Rightarrow> Inl (Exit_program 0)
               | Some raws \<Rightarrow>
                   rbind (case opt_new opt of
                            None \<Rightarrow> Inr None
                          | Some new_input_file \<Rightarrow>
                              (case fopen_r new_input_file of None \<Rightarrow> Inl (Exit_program 0) | Some news \<Rightarrow> Inr (Some news)))
                     (\<lambda>new_input.
                        case opt_output opt of
                          None \<Rightarrow> Inl Indeterminate
                        | Some output_file \<Rightarrow>
                            if \<not> fopen_w output_file then Inl (Exit_program 0)
                            else rbind (detect_main \<lparr>binary = opt_binary opt, enable_memory_reuse = opt_reuse opt, shell = sh\<rparr>
                                          raws new_input) (\<lambda>d. Inr (Some d))))))"

section \<open>Properties\<close>

text \<open>The argument an option had last.\<close>

definition last_arg :: "char \<Rightarrow> (char \<times> string) list \<Rightarrow> string option" where
  "last_arg c options = map_of (rev options) c"

definition later :: "string option \<Rightarrow> string option \<Rightarrow> string option" where
  "later a b = (case b of None \<Rightarrow> a | Some _ \<Rightarrow> b)"

lemma later_simps [simp]: "later a None = a" "later a (Some x) = Some x"
  by (simp_all add: later_def)

lemma last_arg_simps [simp]:
  "last_arg c [] = None"
  "last_arg c ((d, x) # options) = later (if c = d then Some x else None) (last_arg c options)"
  by (auto simp: last_arg_def later_def map_add_def split: option.splits)

lemma later_assoc [simp]: "later a (later b c) = later (later a b) c"
  by (simp add: later_def split: option.splits)

lemma parse_options_run:
  "set (map fst options) \<subseteq> set ''binom'' \<Longrightarrow> parse_options options opt =
     Some \<lparr>opt_binary = (case last_arg (CHR ''b'') options of None \<Rightarrow> opt_binary opt | Some b \<Rightarrow> b),
           opt_input = later (opt_input opt) (last_arg (CHR ''i'') options),
           opt_new = later (opt_new opt) (last_arg (CHR ''n'') options),
           opt_output = later (opt_output opt) (last_arg (CHR ''o'') options),
           opt_reuse = (opt_reuse opt \<or> CHR ''m'' \<in> fst ` set options)\<rparr>"
proof (induction options opt rule: parse_options.induct)
  case (2 i optarg args opt)
  have "i \<in> set ''binom''" "set (map fst args) \<subseteq> set ''binom''" using "2.prems" by auto
  then consider "i = CHR ''b''" | "i = CHR ''i''" | "i = CHR ''n''" | "i = CHR ''o''" | "i = CHR ''m''" by auto
  then show ?case
    using 2 by cases (auto simp: later_def split: option.splits)
qed simp

text \<open>C37: With enough arguments and readable input files the options may come in any order, the last
  one of a kind counts, and the run is that of the detector on the files named. Without
  \<open>-o\<close> (the argument count does not tell) the program opens a file through a pointer that
  was never written.\<close>

theorem program_by_options:
  assumes "set (map fst options) \<subseteq> set ''binom''" and "4 \<le> argc"
    and "last_arg (CHR ''i'') options = Some input_file" and "fopen_r input_file = Some raws"
    and "new_input = Option.bind (last_arg (CHR ''n'') options) fopen_r"
    and "last_arg (CHR ''n'') options \<noteq> None \<longrightarrow> new_input \<noteq> None"
  shows "detect_program sh fopen_r fopen_w argc options =
    (case last_arg (CHR ''o'') options of
       None \<Rightarrow> Inl Indeterminate
     | Some output_file \<Rightarrow>
         if fopen_w output_file
         then rbind (detect_main \<lparr>binary = (case last_arg (CHR ''b'') options of None \<Rightarrow> [] | Some b \<Rightarrow> b),
                       enable_memory_reuse = (CHR ''m'' \<in> fst ` set options), shell = sh\<rparr> raws new_input) (\<lambda>d. Inr (Some d))
         else Inl (Exit_program 0))"
proof -
  have n: "(case later None (last_arg (CHR ''n'') options) of
      None \<Rightarrow> Inr None
    | Some f \<Rightarrow> (case fopen_r f of None \<Rightarrow> Inl (Exit_program 0) | Some news \<Rightarrow> Inr (Some news))) = Inr new_input"
    using assms(5,6) by (cases "last_arg (CHR ''n'') options") auto
  show ?thesis
    using assms(2-4) n
    by (cases "last_arg (CHR ''o'') options")
      (simp_all add: detect_program_def parse_options_run [OF assms(1)] default_options_def cong: option.case_cong)
qed

theorem program_by_options_witness:
  "detect_program (\<lambda>_. None) (\<lambda>f. if f = ''in'' then Some [zero_record] else None) (\<lambda>_. True) 5
     [(CHR ''b'', ''app''), (CHR ''i'', ''in'')] = Inl Indeterminate"
  using program_by_options [of "[(CHR ''b'', ''app''), (CHR ''i'', ''in'')]" 5 "''in''"
      "\<lambda>f. if f = ''in'' then Some [zero_record] else None" "[zero_record]" None "\<lambda>_. None" "\<lambda>_. True"]
  by simp

end
