(* ===== verification/Spec2Isabelle.thy ===== *)
theory Spec2Isabelle
  imports Benchmark_Test Mao_Detect Mao_Unit Mao_Expression Tool_Read Detect_Program
begin

text \<open>
  \<^bold>\<open>Racez: sampling-based race detection, verified\<close>

  Racez finds data races in running programs at low cost. A library, preloaded into the
  program, keeps for every thread the mutexes it holds and lets the performance counters of the
  processor interrupt the threads; each interrupt appends one record (thread, instruction,
  address, locks held, call stack) to a buffer, which is written to a file when the program
  stops the profiler. Offline tools read the file: the detector intersects the locksets of the
  accesses to each location and reports written, shared locations without a common lock; the
  converter attributes instruction addresses to symbols and source lines for the Mao assembly
  pass; a printer shows a log as text.

  \<^bold>\<open>Foundations\<close>
  \<^item> \<open>Racez_Prelude\<close>: pointers as 64-bit words, C integers and their conversion to 32 bits, the
    type \<open>fault\<close> of abnormal ends (failed assertion, exit, access out of bounds, null pointer,
    bad iterator, indeterminate value), \<open>result\<close> with its composition \<open>rbind\<close>, loops over
    lists, arrays with bounds.
  \<^item> \<open>Std_Containers\<close>: what the sources use of \<open>std::set\<close>, \<open>std::map\<close>,
    \<open>set_intersection\<close> and \<open>lower_bound\<close>, as sorted lists; locales \<open>strict_weak_order\<close> and
    \<open>ordered_map\<close> state what the clients rely on, and are interpreted on the records, the
    symbols, the pointers and the maps.
  \<^item> \<open>C_Library\<close>: the conversions of \<open>printf\<close>, \<open>strtoll\<close>, \<open>fgets\<close>, \<open>strchr\<close>, \<open>strstr\<close>.
  \<^item> \<open>Racez_Record\<close>: \<open>struct Record\<close> (racez_bufferdata.h and its copies in tools/). The union
    is kept as the two machine words its alternatives share.

  \<^bold>\<open>The library\<close>
  \<^item> \<open>Racez_Mutex\<close> (racez_lockset.cc, racez_mutex.cc): the per-thread lockset with its overflow
    flag; \<open>add_one_mutex\<close> and \<open>remove_one_mutex\<close>, store by store where a signal handler may come
    between. \<open>Mutex_Properties\<close>: the lockset never claims a lock that is not held and is exact
    up to ten locks, threads do not disturb each other, and what an interrupting handler can do.
  \<^item> \<open>Racez_Bufferdata\<close> (racez_bufferdata.cc): \<open>InitBuffer\<close>, \<open>WriteRecord\<close> split into the
    atomic increment and the stores, \<open>FlushBuffer\<close>, \<open>StopBuffer\<close>; locale \<open>record_sink\<close> is the
    contract of a log. \<open>Buffer_Properties\<close>: concurrent writers, the round trip from records to
    file, and what happens at and beyond the end of the buffer.
  \<^item> \<open>Racez_Runtime\<close>: all global variables of racez_preload.c and racez_pmuprofiler.cc as one
    state; the calls to the counters are kept as a trace.
  \<^item> \<open>Racez_Sampling\<close> (racez_pmuprofiler.cc, signal handler): backtrace, PEBS and IBS samples,
    randomised period. \<open>Sampling_Properties\<close>: one overflow logs the right record.
  \<^item> \<open>Racez_Interpose\<close> (racez_preload.c): the functions put in front of the C library.
    \<open>Racez_Pmu\<close> (racez_pmuprofiler.cc): attaching threads, starting, stopping.
    \<open>Racez_Control\<close>: thread start, \<open>racez_start\<close>, \<open>racez_stop\<close>, and the stubs of
    util/util.cc that take their place when the library is not preloaded.
  \<^item> \<open>Runtime_Invariant\<close>, \<open>Runtime_Properties\<close>: \<open>lib_step\<close> is one call of an entry point by some
    thread, or the kernel filling the sampling buffer of a thread, \<open>lib_run\<close> any sequence of them. Every reachable state has well-formed locksets, a
    registered descriptor for each sampled thread, and a buffer whose records are well typed;
    stopping always succeeds while the buffer has room.

  \<^bold>\<open>The tools\<close>
  \<^item> \<open>Tool_Detect\<close> (tools/detect.cc): reports, state machine, maps, memory-reuse filter, merging of
    two inputs; \<open>Detect_Program\<close>: the command line. \<open>Detect_Cell\<close> and \<open>Detect_Run\<close> give the
    abstract specification, a history of accesses per location, and the simulation of the
    detector by it; \<open>Detect_Properties\<close> draws the conclusions for whole logs: soundness,
    completeness up to a stated exception, the meaning of the states, independence of the
    interleaving of locations, absence of aborts.
  \<^item> \<open>Tool_Convert\<close>, \<open>Convert_Properties\<close> (tools/convert.cc): the symbol table is read back as it is
    printed, each address is attributed to the symbol with the greatest offset not above it, and
    the index printed is the position in the log.
  \<^item> \<open>Mao_Sim\<close> (mao-patch/patch, class \<open>InstructSimPass\<close>): the address of a sampled instruction, and the
    extension of a sample to its neighbours; \<open>Mao_Pass\<close>: \<open>RacezProfileReader\<close>, the table of source
    files and \<open>Go\<close>. \<open>Mao_Properties\<close>: with any processor that only changes destination registers,
    each record added stands for the memory operand of an instruction near the sample; \<open>Mao_Pass_Properties\<close>: the file of the
    converter is read as meant, and each sample handled at the instruction it belongs to.
    \<open>Mao_Unit\<close>: what the patch adds to Mao, walking over the entries of a unit and the map of
    instructions to basic blocks, which is filled and read as meant; lemmas there justify that the
    simulation counts instructions instead of following the list.
    \<open>Mao_Expression\<close>: the older simulation (\<open>ExecuteSim\<close>), which nothing calls, with its register
    file and its map of operands; what it keeps, and where its addresses come from.
  \<^item> \<open>Tool_Read\<close> (tools/read.cc, printers of tools/detect.cc): the printer with its output.

  \<^bold>\<open>Across the components\<close>
  \<^item> \<open>Pipeline_Properties\<close>: records written through the buffer and read by the detector give the
    verdict of their own histories; the file that any run of the library leaves is one the
    detector analyses to the end without the reuse filter; with it, a block whose size does not
    fit an \<open>int\<close> can break the detector.
  \<^item> \<open>Racez_Execution\<close>, \<open>Execution_Properties\<close>: an execution is the sequence of the calls the threads
    make into the library and of the interrupts. Which locks a thread holds and which accesses were
    sampled is read off the sequence itself; the locale \<open>observer\<close> is the contract of a
    profiler, a call succeeds and shows what it adds, and is interpreted on the library. The
    verdict of the detector is compared with what really happened, on an AMD machine whose counters
    give the addresses, from a \<open>racez_start\<close> that takes effect on (\<open>start_works\<close>, \<open>attach_works\<close>).
  \<^item> \<open>Benchmark_Test\<close> (benchmarks/test/test-1.c): the test program with its race, statement by statement,
    under every schedule and every choice of sampled accesses: the race is found exactly if a write
    of each of the two threads was sampled.
  \<^item> \<open>Mao_Detect\<close>: the detector on the log and the second file that the pass leaves; the locale
    \<open>pass_invariant\<close> says what a property of the two files has to survive to hold after the pass. With
    the samples at their instructions and the processor behind them, all records added stand for
    memory operands of instructions in the blocks of the samples.

  \<^bold>\<open>Parameters\<close>. The kernel, libpfm, libunwind, the real C library behind the interposed
  functions, \<open>readelf\<close>, \<open>addr2line\<close>, \<open>getopt\<close> and Mao (what it says of instructions, blocks, sizes and
  directives) are arguments of the definitions that
  use them; named predicates (\<open>libc_ok\<close>, \<open>addr2line_ok\<close>, \<open>block_ok\<close>, \<open>strcmp_ok\<close>, \<open>sorts\<close>,
  \<open>processor_ok\<close>) state what is relied on, each with a concrete instance in the theory that uses it.
  The table that \<open>readelf\<close> prints is written out from its documented format in \<open>Convert_Properties\<close>.

  \<^bold>\<open>Bounds\<close>. The size of the buffer, of the lockset, of the line buffers and of the stack trace are
  those of the code. Loops over files and arrays are total functions with a measure, so no fuel is
  needed. The counters of the tools are unbounded integers: they count records of one file.

  \<^bold>\<open>Not modelled\<close>. Messages on the terminal, other than those of the printer; releasing memory
  and closing files; the contents of a record's padding; in the signal handler, the allocation of
  a map node for a thread that was never registered. Reading thread-specific data before
  its key was created, undefined in POSIX, is taken to give a null pointer; a line of the profile
  longer than its first buffer is taken as a fault even where the block stays in place. One call of an entry point is one step
  in \<open>lib_run\<close>; interleavings inside a call are treated where the code is written for them, in
  the lockset and the buffer. In the patch to Mao, the trace of the list of samples is left out;
  of the test program, its messages and the accesses of \<open>main\<close>, which is never sampled. The
  scripts that build and run the test program are not modelled.
\<close>

end
